(* ===== verification/Gw_Prelude.thy ===== *)
theory Gw_Prelude
  imports Complex_Main "HOL-Library.Multiset"
begin

section \<open>Shared vocabulary of the gateway development\<close>

text \<open>
  This theory holds what every component shares: the names of the Go types the
  model keeps, the collections of simplification and invariant rules the component
  theories fill, the contract of Go's \<open>sort.Slice\<close> as a locale, and generic lemmas
  on lists and first-match scans.

  A Go \<open>time.Time\<close> is read on the process's monotonic clock and a \<open>time.Duration\<close>
  is a signed number of nanoseconds; both are \<open>int\<close> here, because their 64-bit range
  spans 292 years. A Go \<open>string\<close> is a byte sequence, which is what HOL's
  \<open>char list\<close> is.
\<close>

subsection \<open>Names for the Go types\<close>

type_synonym gotime = int
type_synonym duration = int

abbreviation millisecond :: duration where "millisecond \<equiv> 1000000"
abbreviation second :: duration where "second \<equiv> 1000000000"
abbreviation minute :: duration where "minute \<equiv> 60000000000"

text \<open>
  \<open>gw_ops\<close> collects the unfoldings of straight-line operations, \<open>gw_inv\<close> the
  rules "this operation keeps that invariant".
\<close>

named_theorems gw_ops
named_theorems gw_inv

subsection \<open>Go's integer division\<close>

text \<open>Go truncates towards zero; HOL's \<open>div\<close> rounds towards minus infinity.\<close>

definition go_div :: "int \<Rightarrow> int \<Rightarrow> int" where
  "go_div a b = sgn a * sgn b * (\<bar>a\<bar> div \<bar>b\<bar>)"

definition go_mod :: "int \<Rightarrow> int \<Rightarrow> int" where
  "go_mod a b = a - b * go_div a b"

lemma go_div_nonneg [simp]: "0 \<le> a \<Longrightarrow> 0 < b \<Longrightarrow> go_div a b = a div b"
  by (cases "a = 0") (simp_all add: go_div_def)

lemma go_mod_nonneg [simp]: "0 \<le> a \<Longrightarrow> 0 < b \<Longrightarrow> go_mod a b = a mod b"
  by (simp add: go_mod_def minus_mult_div_eq_mod)

subsection \<open>First-match scans\<close>

text \<open>
  A scan that returns the first element passing a test is \<open>List.find\<close>. On a list
  sorted by descending key the hit has the greatest key of all elements that pass.
\<close>

lemma find_SomeD: "find P xs = Some x \<Longrightarrow> x \<in> set xs \<and> P x"
  by (auto simp: find_Some_iff)

lemma find_eq_None [simp]: "find P xs = None \<longleftrightarrow> (\<forall>x \<in> set xs. \<not> P x)"
  by (auto simp: find_None_iff)

lemma find_sorted_greatest:
  assumes "sorted_wrt (\<lambda>a b. key b \<le> key a) xs"
    and "find P xs = Some x" and "y \<in> set xs" and "P y"
  shows "(key y :: 'k :: linorder) \<le> key x"
  using assms by (induction xs) (auto split: if_splits)

lemma distinct_map_filterI:
  assumes "\<And>i j. i < length xs \<Longrightarrow> j < length xs \<Longrightarrow> P (xs ! i) \<Longrightarrow> P (xs ! j)
    \<Longrightarrow> f (xs ! i) = f (xs ! j) \<Longrightarrow> i = j"
  shows "distinct (map f (filter P xs))"
  using assms
proof (induction xs)
  case (Cons x xs)
  have "f y \<noteq> f x" if y: "P x" "y \<in> set xs" "P y" for y
  proof
    assume "f y = f x"
    moreover obtain i where "i < length xs" "y = xs ! i" using y(2) by (auto simp: in_set_conv_nth)
    ultimately show False using Cons.prems [of "Suc i" 0] y by simp
  qed
  moreover have "distinct (map f (filter P xs))"
    by (rule Cons.IH) (use Cons.prems [of "Suc _" "Suc _"] in simp)
  ultimately show ?case by force
qed simp

subsection \<open>Consecutive events\<close>

text \<open>
  The circuit breaker and the health checks act on \<open>n\<close> consecutive events of a kind.
  \<open>has_run P n xs\<close> says that \<open>xs\<close> contains such a run; \<open>trailing P xs\<close> is the length
  of the run at its end.
\<close>

definition has_run :: "('a \<Rightarrow> bool) \<Rightarrow> nat \<Rightarrow> 'a list \<Rightarrow> bool" where
  "has_run P n xs \<longleftrightarrow> (\<exists>us rs ws. xs = us @ rs @ ws \<and> length rs = n \<and> (\<forall>x \<in> set rs. P x))"

definition trailing :: "('a \<Rightarrow> bool) \<Rightarrow> 'a list \<Rightarrow> nat" where
  "trailing P xs = length (takeWhile P (rev xs))"

lemma trailing_simps [simp]:
  "trailing P [] = 0"
  "trailing P (xs @ [x]) = (if P x then Suc (trailing P xs) else 0)"
  by (simp_all add: trailing_def)

lemma run_at_end_iff:
  "(\<exists>us rs. xs = us @ rs \<and> length rs = n \<and> (\<forall>x \<in> set rs. P x)) \<longleftrightarrow> n \<le> trailing P xs"
proof (induction xs arbitrary: n rule: rev_induct)
  case (snoc x xs)
  show ?case
  proof (cases n)
    case (Suc m)
    have "(\<exists>us rs. xs @ [x] = us @ rs \<and> length rs = n \<and> (\<forall>x \<in> set rs. P x))
       \<longleftrightarrow> P x \<and> (\<exists>us rs. xs = us @ rs \<and> length rs = m \<and> (\<forall>x \<in> set rs. P x))"
      (is "?L \<longleftrightarrow> ?R")
    proof
      assume ?L
      then obtain us rs where *: "xs @ [x] = us @ rs" "length rs = n" "\<forall>x \<in> set rs. P x"
        by blast
      with Suc obtain gs g where "rs = gs @ [g]" by (cases rs rule: rev_cases) auto
      with * Suc show ?R by auto
    next
      assume ?R
      then obtain us rs where "P x" "xs = us @ rs" "length rs = m" "\<forall>x \<in> set rs. P x"
        by blast
      with Suc show ?L by (intro exI [of _ us] exI [of _ "rs @ [x]"]) auto
    qed
    with snoc.IH [of m] Suc show ?thesis by simp
  qed simp
qed simp

lemma has_run_Nil [simp]: "has_run P n [] \<longleftrightarrow> n = 0"
  by (auto simp: has_run_def)

lemma has_run_append: "has_run P n xs \<Longrightarrow> has_run P n (xs @ ys)"
  unfolding has_run_def by (metis append.assoc)

lemma has_run_snoc: "has_run P n (xs @ [x]) \<longleftrightarrow> has_run P n xs \<or> n \<le> trailing P (xs @ [x])"
  (is "?L \<longleftrightarrow> ?R")
proof
  assume ?L
  then obtain us rs ws where *: "xs @ [x] = us @ rs @ ws" "length rs = n" "\<forall>x \<in> set rs. P x"
    by (auto simp: has_run_def)
  show ?R
  proof (cases ws rule: rev_cases)
    case Nil
    with * have "\<exists>us rs. xs @ [x] = us @ rs \<and> length rs = n \<and> (\<forall>x \<in> set rs. P x)" by auto
    then show ?thesis using run_at_end_iff by blast
  next
    case (snoc ws' w)
    with * show ?thesis by (auto simp: has_run_def)
  qed
next
  assume ?R
  then show ?L
  proof
    assume "n \<le> trailing P (xs @ [x])"
    then show ?L unfolding run_at_end_iff [symmetric] has_run_def by (metis append_Nil2)
  qed (rule has_run_append)
qed

text \<open>
  A counter that trips at a run: while armed, a \<open>hit\<close> counts up and trips at the limit,
  any other relevant event resets the count, irrelevant events change nothing. Such a
  machine leaves the armed state exactly when the relevant events contain a run of
  \<open>limit\<close> hits.
\<close>

locale run_trigger =
  fixes step :: "'e \<Rightarrow> 's \<Rightarrow> 's"
    and armed :: "'s \<Rightarrow> bool"
    and count :: "'s \<Rightarrow> int"
    and limit :: "'s \<Rightarrow> int"
    and relevant :: "'e \<Rightarrow> bool"
    and hit :: "'e \<Rightarrow> bool"
  assumes limit_step: "limit (step e s) = limit s"
    and hit_relevant: "hit e \<Longrightarrow> relevant e"
    and irrelevant_step: "armed s \<Longrightarrow> \<not> relevant e \<Longrightarrow> step e s = s"
    and reset_step: "armed s \<Longrightarrow> relevant e \<Longrightarrow> \<not> hit e \<Longrightarrow> armed (step e s) \<and> count (step e s) = 0"
    and count_step: "armed s \<Longrightarrow> hit e \<Longrightarrow> count s + 1 < limit s
      \<Longrightarrow> armed (step e s) \<and> count (step e s) = count s + 1"
    and trip_step: "armed s \<Longrightarrow> hit e \<Longrightarrow> limit s \<le> count s + 1 \<Longrightarrow> \<not> armed (step e s)"
begin

lemma limit_fold: "limit (fold step es s) = limit s"
  by (induction es arbitrary: s) (simp_all add: limit_step)

lemma armed_while_no_run:
  assumes "armed s" and "count s = 0" and "0 < limit s"
  shows "\<not> has_run hit (nat (limit s)) (filter relevant es) \<Longrightarrow>
    armed (fold step es s) \<and> count (fold step es s) = int (trailing hit (filter relevant es))"
proof (induction es rule: rev_induct)
  case (snoc e es)
  let ?s = "fold step es s"
  have no: "\<not> has_run hit (nat (limit s)) (filter relevant es)"
    using snoc.prems by (cases "relevant e") (auto simp: has_run_snoc)
  with snoc.IH have s: "armed ?s" "count ?s = int (trailing hit (filter relevant es))" by auto
  show ?case
  proof (cases "hit e")
    case True
    with snoc.prems hit_relevant [OF True] have "count ?s + 1 < limit s"
      using s(2) assms(3) by (simp add: has_run_snoc True) linarith
    with count_step [OF s(1) True] True hit_relevant [OF True] s(2) show ?thesis
      by (simp add: limit_fold)
  next
    case False
    then show ?thesis using reset_step [OF s(1), of e] irrelevant_step [OF s(1), of e] s
      by (cases "relevant e") simp_all
  qed
qed (use assms in simp)

lemma trips_at_run:
  assumes "armed s" and "count s = 0" and "0 < limit s"
    and "has_run hit (nat (limit s)) (filter relevant es)"
  shows "\<exists>k. \<not> armed (fold step (take k es) s)"
  using assms(4)
proof (induction es rule: rev_induct)
  case Nil
  then show ?case using assms(3) by simp
next
  case (snoc e es)
  show ?case
  proof (cases "has_run hit (nat (limit s)) (filter relevant es)")
    case True
    with snoc.IH obtain k where "\<not> armed (fold step (take k es) s)" by blast
    then show ?thesis
      by (cases "k \<le> length es") (auto intro: exI [of _ k] exI [of _ "length es"])
  next
    case False
    let ?s = "fold step es s"
    have s: "armed ?s" "count ?s = int (trailing hit (filter relevant es))"
      using armed_while_no_run [OF assms(1-3) False] by auto
    from False snoc.prems have rel: "relevant e" by (cases "relevant e") auto
    with False snoc.prems have n: "nat (limit s) \<le> trailing hit (filter relevant es @ [e])"
      by (simp add: has_run_snoc)
    with assms(3) have "hit e" by (auto split: if_splits)
    with n s have "\<not> armed (fold step (es @ [e]) s)"
      using trip_step [OF s(1)] by (simp add: limit_fold)
    then show ?thesis by (intro exI [of _ "Suc (length es)"]) simp
  qed
qed

lemma triggers_iff_run:
  assumes "armed s" and "count s = 0" and "0 < limit s"
  shows "(\<exists>k. \<not> armed (fold step (take k es) s))
    \<longleftrightarrow> has_run hit (nat (limit s)) (filter relevant es)"
proof
  show "\<exists>k. \<not> armed (fold step (take k es) s)" if "has_run hit (nat (limit s)) (filter relevant es)"
    using trips_at_run [OF assms that] .
next
  assume "\<exists>k. \<not> armed (fold step (take k es) s)"
  then obtain k where "\<not> armed (fold step (take k es) s)" by blast
  then have "has_run hit (nat (limit s)) (filter relevant (take k es))"
    using armed_while_no_run [OF assms] by blast
  moreover have "filter relevant es = filter relevant (take k es) @ filter relevant (drop k es)"
    by (metis append_take_drop_id filter_append)
  ultimately show "has_run hit (nat (limit s)) (filter relevant es)" by (simp add: has_run_append)
qed

end

subsection \<open>Decimal numerals\<close>

text \<open>\<open>strconv.Itoa\<close>, \<open>%d\<close> and Lua's conversion of an integral number to a string.\<close>

fun dec_digits :: "nat \<Rightarrow> string" where
  "dec_digits n = (if n < 10 then [char_of (48 + n)] else dec_digits (n div 10) @ [char_of (48 + n mod 10)])"

declare dec_digits.simps [simp del]

definition itoa :: "int \<Rightarrow> string" where
  "itoa k = (if k < 0 then CHR ''-'' # dec_digits (nat (- k)) else dec_digits (nat k))"

definition undec :: "string \<Rightarrow> nat" where
  "undec s = foldl (\<lambda>n c. 10 * n + (of_char c - 48)) 0 s"

lemma undec_snoc [simp]: "undec (s @ [c]) = 10 * undec s + (of_char c - 48)"
  by (simp add: undec_def)

lemma undec_digits [simp]: "undec (dec_digits n) = n"
proof (induction n rule: dec_digits.induct)
  case (1 n)
  show ?case
  proof (cases "n < 10")
    case True
    then show ?thesis by (simp add: dec_digits.simps [of n] undec_def)
  next
    case False
    have "(48 + n mod 10) mod 256 = 48 + n mod 10" by (simp add: less_imp_le mod_less trans_less_add1)
    then show ?thesis using 1 False by (simp add: dec_digits.simps [of n])
  qed
qed

lemma dec_digits_inj [simp]: "dec_digits m = dec_digits n \<longleftrightarrow> m = n"
  by (metis undec_digits)

lemma dec_digits_chars: "c \<in> set (dec_digits n) \<Longrightarrow> 48 \<le> (of_char c :: nat) \<and> (of_char c :: nat) \<le> 57"
proof (induction n rule: dec_digits.induct)
  case (1 n)
  have "(48 + n mod 10) mod 256 = 48 + n mod 10" by (simp add: trans_less_add1)
  moreover have "n mod 10 \<le> 9" by (simp add: less_Suc_eq_le [symmetric])
  ultimately show ?case using 1 by (auto simp: dec_digits.simps [of n] split: if_splits)
qed

lemma itoa_chars: "c \<in> set (itoa k) \<Longrightarrow> c = CHR ''-'' \<or> (48 \<le> (of_char c :: nat) \<and> (of_char c :: nat) \<le> 57)"
  using dec_digits_chars by (auto simp: itoa_def split: if_splits)

lemma itoa_no_colon: "CHR '':'' \<notin> set (itoa k)"
proof
  assume "CHR '':'' \<in> set (itoa k)"
  then have "CHR '':'' = CHR ''-'' \<or> (of_char CHR '':'' :: nat) \<le> 57" using itoa_chars by blast
  then show False by simp
qed

lemma itoa_inj [simp]: "itoa a = itoa b \<longleftrightarrow> a = b"
proof -
  have neq: "dec_digits n \<noteq> CHR ''-'' # s" for n s
  proof
    assume "dec_digits n = CHR ''-'' # s"
    then have "CHR ''-'' \<in> set (dec_digits n)" by simp
    then show False using dec_digits_chars [of "CHR ''-''" n] by simp
  qed
  then show ?thesis using neq [symmetric] by (auto simp: itoa_def)
qed

text \<open>A separator that neither part contains makes the concatenation injective.\<close>

lemma append_sep_inj:
  "c \<notin> set a \<Longrightarrow> c \<notin> set a' \<Longrightarrow> a @ c # b = a' @ c # b' \<longleftrightarrow> a = a' \<and> b = b'"
proof (induction a arbitrary: a')
  case (Cons x a)
  then show ?case by (cases a') auto
qed (auto simp: Cons_eq_append_conv)

subsection \<open>The contract of \<open>sort.Slice\<close>\<close>

text \<open>
  \<open>sort.Slice\<close> sorts in place by a caller-supplied \<open>less\<close>. It documents that the
  result is ordered and that equal elements may come in any order, so the model
  takes the sorting function as a parameter with exactly that contract.
\<close>

definition strict_weak :: "('a \<Rightarrow> 'a \<Rightarrow> bool) \<Rightarrow> bool" where
  "strict_weak lt \<longleftrightarrow> (\<forall>a. \<not> lt a a) \<and> (\<forall>a b c. lt a b \<longrightarrow> lt b c \<longrightarrow> lt a c)
     \<and> (\<forall>a b c. \<not> lt a b \<longrightarrow> \<not> lt b c \<longrightarrow> \<not> lt a c)"

lemma strict_weak_key_less [simp, intro]:
  "strict_weak (\<lambda>a b. f a < (f b :: 'k :: linorder))"
  by (auto simp: strict_weak_def)

lemma strict_weak_key_greater [simp, intro]:
  "strict_weak (\<lambda>a b. f a > (f b :: 'k :: linorder))"
  by (auto simp: strict_weak_def)

locale slice_sort =
  fixes srt :: "('a \<Rightarrow> 'a \<Rightarrow> bool) \<Rightarrow> 'a list \<Rightarrow> 'a list"
  assumes srt_mset: "mset (srt lt xs) = mset xs"
    and srt_sorted: "strict_weak lt \<Longrightarrow> sorted_wrt (\<lambda>a b. \<not> lt b a) (srt lt xs)"
begin

lemma set_srt [simp]: "set (srt lt xs) = set xs"
  using srt_mset by (metis set_mset_mset)

lemma length_srt [simp]: "length (srt lt xs) = length xs"
  using srt_mset by (metis size_mset)

lemma srt_Nil [simp]: "srt lt [] = []"
  by (metis length_0_conv length_srt)

lemma distinct_srt [simp]: "distinct (map f (srt lt xs)) = distinct (map f xs)"
  by (metis mset_eq_imp_distinct_iff mset_map srt_mset)

lemma srt_ascending: "sorted (map key (srt (\<lambda>a b. key a < (key b :: 'k :: linorder)) xs))"
  using srt_sorted [OF strict_weak_key_less, of key xs] by (simp add: sorted_map not_less)

lemma srt_descending:
  "sorted_wrt (\<lambda>a b. key b \<le> key a) (srt (\<lambda>a b. key a > (key b :: 'k :: linorder)) xs)"
  using srt_sorted [OF strict_weak_key_greater, of key xs] by (simp add: not_less)

lemma find_srt_greatest:
  "find P (srt (\<lambda>a b. key a > (key b :: 'k :: linorder)) xs) = Some x \<Longrightarrow> y \<in> set xs \<Longrightarrow> P y
   \<Longrightarrow> key y \<le> key x"
  by (rule find_sorted_greatest [OF srt_descending, where P = P]) simp_all

end

text \<open>
  Up to twelve elements the runtime's \<open>sort.Slice\<close> is the insertion sort
  \<open>insertionSort_func\<close>: each element sinks leftwards while it is less than its
  neighbour. \<open>sink\<close> works on the reversed sorted prefix.
\<close>

fun sink :: "('a \<Rightarrow> 'a \<Rightarrow> bool) \<Rightarrow> 'a \<Rightarrow> 'a list \<Rightarrow> 'a list" where
  "sink lt x [] = [x]"
| "sink lt x (y # ys) = (if lt x y then y # sink lt x ys else x # y # ys)"

definition insertion_sort :: "('a \<Rightarrow> 'a \<Rightarrow> bool) \<Rightarrow> 'a list \<Rightarrow> 'a list" where
  "insertion_sort lt xs = rev (fold (sink lt) xs [])"

lemma mset_sink [simp]: "mset (sink lt x ys) = add_mset x (mset ys)"
  by (induction ys) auto

lemma set_sink [simp]: "set (sink lt x ys) = insert x (set ys)"
  by (induction ys) auto

lemma sorted_sink:
  "strict_weak lt \<Longrightarrow> sorted_wrt (\<lambda>a b. \<not> lt a b) ys \<Longrightarrow> sorted_wrt (\<lambda>a b. \<not> lt a b) (sink lt x ys)"
proof (induction ys)
  case (Cons y ys)
  have "\<not> lt x z" if "\<not> lt x y" "\<not> lt y z" for z
    using that Cons.prems(1) unfolding strict_weak_def by blast
  moreover have "\<not> lt y x" if "lt x y"
    using that Cons.prems(1) unfolding strict_weak_def by blast
  ultimately show ?case using Cons by auto
qed simp

lemma mset_fold_sink [simp]: "mset (fold (sink lt) xs ys) = mset xs + mset ys"
  by (induction xs arbitrary: ys) auto

lemma sorted_fold_sink:
  "strict_weak lt \<Longrightarrow> sorted_wrt (\<lambda>a b. \<not> lt a b) ys
   \<Longrightarrow> sorted_wrt (\<lambda>a b. \<not> lt a b) (fold (sink lt) xs ys)"
  by (induction xs arbitrary: ys) (auto simp: sorted_sink)

interpretation isort: slice_sort insertion_sort
  by unfold_locales (simp_all add: insertion_sort_def sorted_wrt_rev sorted_fold_sink)

end
