(* ===== verification/Go_Float.thy ===== *)
theory Go_Float
  imports Gw_Prelude
begin

section \<open>Go's \<open>float64\<close>\<close>

text \<open>
  The token bucket, the limiter factory and the smart balancer compute with
  \<open>float64\<close>, and some of what they do depends on rounding. This theory models the
  IEEE 754 binary64 arithmetic Go prescribes: a value is a real number, an infinity
  or not-a-number, and each operation computes the exact real result and rounds it
  to nearest, ties to even, with a 53-bit significand, gradual underflow at
  \<open>2^-1074\<close> and overflow to infinity. The sign of zero is not kept: the gateway
  never divides by a negative zero.

  Besides the operations the theory proves the rounding facts the components use:
  rounding is monotone, is the identity on representable numbers, and has an error
  of at most half a unit in the last place.
\<close>

datatype f64 = Fin real | PosInf | NegInf | NaN

subsection \<open>Rounding\<close>

text \<open>
  \<open>expo x\<close> is the binary exponent of \<open>x > 0\<close>, found by halving and doubling.
  1100 steps are enough: beyond them the result is an infinity or the exponent is
  clamped at the subnormal range anyway.
\<close>

fun expo_scan :: "nat \<Rightarrow> real \<Rightarrow> int" where
  "expo_scan 0 x = 0"
| "expo_scan (Suc n) x =
     (if 2 \<le> x then 1 + expo_scan n (x / 2)
      else if x < 1 then expo_scan n (2 * x) - 1
      else 0)"

definition expo :: "real \<Rightarrow> int" where
  "expo x = expo_scan 1100 x"

text \<open>\<open>quantum x\<close> is the exponent of the last significand bit.\<close>

definition quantum :: "real \<Rightarrow> int" where
  "quantum x = max (expo x - 52) (- 1074)"

definition rne :: "real \<Rightarrow> int" where
  "rne x = (let f = \<lfloor>x\<rfloor>; d = x - of_int f in
     if d < 1/2 then f else if 1/2 < d then f + 1 else if even f then f else f + 1)"

definition rnd_pos :: "real \<Rightarrow> real" where
  "rnd_pos x = of_int (rne (x / 2 powi quantum x)) * 2 powi quantum x"

definition rnd :: "real \<Rightarrow> real" where
  "rnd x = (if x = 0 then 0 else if 0 < x then rnd_pos x else - rnd_pos (- x))"

definition round64 :: "real \<Rightarrow> f64" where
  "round64 x = (let r = rnd x in
     if 2 ^ 1024 \<le> r then PosInf else if r \<le> - (2 ^ 1024) then NegInf else Fin r)"

subsection \<open>The operations\<close>

fun f_neg :: "f64 \<Rightarrow> f64" where
  "f_neg (Fin a) = Fin (- a)"
| "f_neg PosInf = NegInf"
| "f_neg NegInf = PosInf"
| "f_neg NaN = NaN"

fun f_add :: "f64 \<Rightarrow> f64 \<Rightarrow> f64" where
  "f_add (Fin a) (Fin b) = round64 (a + b)"
| "f_add NaN _ = NaN"
| "f_add _ NaN = NaN"
| "f_add PosInf NegInf = NaN"
| "f_add NegInf PosInf = NaN"
| "f_add PosInf _ = PosInf"
| "f_add _ PosInf = PosInf"
| "f_add NegInf _ = NegInf"
| "f_add _ NegInf = NegInf"

definition f_sub :: "f64 \<Rightarrow> f64 \<Rightarrow> f64" where
  "f_sub a b = f_add a (f_neg b)"

definition inf_of_sign :: "real \<Rightarrow> f64" where
  "inf_of_sign s = (if s = 0 then NaN else if 0 < s then PosInf else NegInf)"

fun f_sign :: "f64 \<Rightarrow> real" where
  "f_sign (Fin a) = sgn a"
| "f_sign PosInf = 1"
| "f_sign NegInf = -1"
| "f_sign NaN = 0"

fun f_mul :: "f64 \<Rightarrow> f64 \<Rightarrow> f64" where
  "f_mul (Fin a) (Fin b) = round64 (a * b)"
| "f_mul NaN _ = NaN"
| "f_mul _ NaN = NaN"
| "f_mul a b = inf_of_sign (f_sign a * f_sign b)"

fun f_div :: "f64 \<Rightarrow> f64 \<Rightarrow> f64" where
  "f_div (Fin a) (Fin b) = (if b = 0 then inf_of_sign (sgn a) else round64 (a / b))"
| "f_div NaN _ = NaN"
| "f_div _ NaN = NaN"
| "f_div (Fin a) _ = Fin 0"
| "f_div a (Fin b) = inf_of_sign (f_sign a * (if b < 0 then -1 else 1))"
| "f_div _ _ = NaN"

fun f_lt :: "f64 \<Rightarrow> f64 \<Rightarrow> bool" where
  "f_lt (Fin a) (Fin b) = (a < b)"
| "f_lt (Fin _) PosInf = True"
| "f_lt NegInf (Fin _) = True"
| "f_lt NegInf PosInf = True"
| "f_lt _ _ = False"

fun f_le :: "f64 \<Rightarrow> f64 \<Rightarrow> bool" where
  "f_le (Fin a) (Fin b) = (a \<le> b)"
| "f_le NaN _ = False"
| "f_le _ NaN = False"
| "f_le NegInf _ = True"
| "f_le _ PosInf = True"
| "f_le _ _ = False"

abbreviation f_gt :: "f64 \<Rightarrow> f64 \<Rightarrow> bool" where "f_gt a b \<equiv> f_lt b a"
abbreviation f_ge :: "f64 \<Rightarrow> f64 \<Rightarrow> bool" where "f_ge a b \<equiv> f_le b a"

text \<open>Conversions: \<open>float64(n)\<close>, and \<open>int64(f)\<close>, which truncates. Out of range the Go
  specification leaves the result to the implementation; on amd64 it is the least
  \<open>int64\<close>.\<close>

definition f_of_int :: "int \<Rightarrow> f64" where
  "f_of_int n = round64 (of_int n)"

fun f_to_int64 :: "f64 \<Rightarrow> int" where
  "f_to_int64 (Fin a) =
     (let t = (if 0 \<le> a then \<lfloor>a\<rfloor> else \<lceil>a\<rceil>) in
      if - (2 ^ 63) \<le> t \<and> t < 2 ^ 63 then t else - (2 ^ 63))"
| "f_to_int64 _ = - (2 ^ 63)"

text \<open>\<open>Duration.Seconds\<close> of the standard library.\<close>

definition dur_Seconds :: "duration \<Rightarrow> f64" where
  "dur_Seconds d = f_add (f_of_int (go_div d second)) (f_div (f_of_int (go_mod d second)) (Fin 1000000000))"

subsection \<open>The exponent\<close>

lemma powi_Suc_neg: "(2::real) powi (- int (Suc n)) = 2 powi (- int n) / 2"
  by (simp add: power_int_diff power_int_minus divide_simps)

lemma expo_scan_le: "expo_scan n x \<le> int n"
proof (induction n arbitrary: x)
  case (Suc n)
  show ?case using Suc [of "x / 2"] Suc [of "2 * x"] by simp
qed simp

lemma expo_scan_nonneg: "1 \<le> x \<Longrightarrow> 0 \<le> expo_scan n x"
  by (induction n arbitrary: x) auto

lemma expo_scan_nonpos: "x < 2 \<Longrightarrow> expo_scan n x \<le> 0"
proof (induction n arbitrary: x)
  case (Suc n)
  show ?case using Suc.IH [of "2 * x"] Suc.prems by (cases "x < 1") auto
qed simp

lemma expo_scan_mono: "x \<le> y \<Longrightarrow> expo_scan n x \<le> expo_scan n y"
proof (induction n arbitrary: x y)
  case (Suc n)
  consider "2 \<le> x" | "x < 1" "y < 1" | "x < 1" "1 \<le> y" "y < 2" | "x < 2" "2 \<le> y" | "1 \<le> x" "y < 2"
    by linarith
  then show ?case
  proof cases
    case 1
    then show ?thesis using Suc.IH [of "x/2" "y/2"] Suc.prems by simp
  next
    case 2
    then show ?thesis using Suc.IH [of "2*x" "2*y"] Suc.prems by simp
  next
    case 3
    then show ?thesis using expo_scan_nonpos [of "2*x" n] by simp
  next
    case 4
    then show ?thesis
      using expo_scan_nonneg [of "y/2" n] expo_scan_nonpos [of x "Suc n"] by simp
  next
    case 5
    then show ?thesis using Suc.prems by simp
  qed
qed simp

lemma expo_scan_lower: "2 powi (- int n) \<le> x \<Longrightarrow> 2 powi (expo_scan n x) \<le> x"
proof (induction n arbitrary: x)
  case (Suc n)
  consider "2 \<le> x" | "x < 1" | "1 \<le> x" "x < 2" by linarith
  then show ?case
  proof cases
    case 1
    have "2 powi (- int n) \<le> (1::real)" by (simp add: power_int_minus field_simps)
    with 1 have "2 powi (expo_scan n (x/2)) \<le> x / 2" using Suc.IH [of "x/2"] by linarith
    with 1 show ?thesis by (simp add: power_int_add)
  next
    case 2
    have "2 powi (- int n) \<le> 2 * x" using Suc.prems unfolding powi_Suc_neg by simp
    then have "2 powi (expo_scan n (2*x)) \<le> 2 * x" by (rule Suc.IH)
    with 2 show ?thesis by (simp add: power_int_diff)
  qed simp
qed simp

lemma expo_scan_upper: "0 < x \<Longrightarrow> x < 2 ^ Suc n \<Longrightarrow> x < 2 powi (expo_scan n x + 1)"
proof (induction n arbitrary: x)
  case (Suc n)
  consider "2 \<le> x" | "x < 1" | "1 \<le> x" "x < 2" by linarith
  then show ?case
  proof cases
    case 1
    then have "x / 2 < 2 powi (expo_scan n (x/2) + 1)" using Suc.prems by (intro Suc.IH) auto
    with 1 show ?thesis by (simp add: power_int_add)
  next
    case 2
    have "(2::real) \<le> 2 ^ Suc n" by simp
    with 2 have "2 * x < 2 powi (expo_scan n (2*x) + 1)" using Suc.prems by (intro Suc.IH) linarith+
    with 2 show ?thesis by (simp add: power_int_add)
  qed auto
qed simp

lemma expo_scan_powi: "\<bar>e\<bar> \<le> int n \<Longrightarrow> expo_scan n (2 powi e) = e"
proof (induction n arbitrary: e)
  case (Suc n)
  consider "1 \<le> e" | "e \<le> -1" | "e = 0" by linarith
  then show ?case
  proof cases
    case 1
    have "2 powi e / 2 = (2::real) powi (e - 1)" by (simp add: power_int_diff)
    moreover have "(2::real) \<le> 2 powi e" using power_int_increasing [of 1 e "2::real"] 1 by simp
    ultimately show ?thesis using Suc.IH [of "e - 1"] 1 Suc.prems by simp
  next
    case 2
    have "2 * 2 powi e = (2::real) powi (e + 1)" by (simp add: power_int_add)
    moreover have "2 powi e \<le> (1/2::real)" using power_int_increasing [of e "-1" "2::real"] 2 by simp
    ultimately show ?thesis using Suc.IH [of "e + 1"] 2 Suc.prems by simp
  qed simp
qed simp

lemma expo_mono: "x \<le> y \<Longrightarrow> expo x \<le> expo y"
  by (simp add: expo_def expo_scan_mono)

lemma expo_le_iff:
  assumes "0 < x" and "- 1100 \<le> e" and "e \<le> 1100"
  shows "2 powi e \<le> x \<Longrightarrow> e \<le> expo x"
  using expo_scan_mono [of "2 powi e" x 1100] expo_scan_powi [of e 1100] assms
  by (simp add: expo_def)

lemma quantum_mono: "x \<le> y \<Longrightarrow> quantum x \<le> quantum y"
  using expo_mono [of x y] by (auto simp: quantum_def)

subsection \<open>Rounding to an integer\<close>

lemma rne_of_int [simp]: "rne (of_int k) = k"
  by (simp add: rne_def)

lemma rne_error: "\<bar>of_int (rne x) - x\<bar> \<le> 1/2"
  by (auto simp: rne_def Let_def abs_if) linarith+

lemma rne_mono: "x \<le> y \<Longrightarrow> rne x \<le> rne y"
proof -
  assume le: "x \<le> y"
  then consider "\<lfloor>x\<rfloor> = \<lfloor>y\<rfloor>" | "\<lfloor>x\<rfloor> + 1 \<le> \<lfloor>y\<rfloor>" using floor_mono by fastforce
  then show ?thesis
    by cases (use le in \<open>auto simp: rne_def Let_def\<close>)
qed

lemma rne_le_of_int: "x \<le> of_int k \<Longrightarrow> rne x \<le> k"
  using rne_mono [of x "of_int k"] by simp

lemma rne_ge_of_int: "of_int k \<le> x \<Longrightarrow> k \<le> rne x"
  using rne_mono [of "of_int k" x] by simp

subsection \<open>Rounding is monotone\<close>

lemma scaled_powi:
  assumes "q \<le> k"
  shows "(2::real) powi k / 2 powi q = of_int (2 ^ nat (k - q))"
proof -
  have "(2::real) powi k / 2 powi q = 2 powi (k - q)" by (simp add: power_int_diff)
  also have "\<dots> = 2 ^ nat (k - q)" using assms by (simp add: power_int_def)
  finally show ?thesis by simp
qed

lemma unscaled_powi: "q \<le> k \<Longrightarrow> of_int (2 ^ nat (k - q)) * 2 powi q = (2::real) powi k"
  using scaled_powi [of q k] by (simp add: divide_simps)

lemma rnd_pos_le_powi:
  assumes "x \<le> 2 powi k" and "quantum x \<le> k"
  shows "rnd_pos x \<le> 2 powi k"
proof -
  have "x / 2 powi quantum x \<le> of_int (2 ^ nat (k - quantum x))"
    using divide_right_mono [OF assms(1), of "2 powi quantum x"] scaled_powi [OF assms(2)] by simp
  then have "rne (x / 2 powi quantum x) \<le> 2 ^ nat (k - quantum x)" by (rule rne_le_of_int)
  then have "rnd_pos x \<le> of_int (2 ^ nat (k - quantum x)) * 2 powi quantum x"
    unfolding rnd_pos_def by (intro mult_right_mono) (simp_all only: of_int_le_iff zero_le_power_int zero_le_numeral)
  also have "\<dots> = 2 powi k" by (rule unscaled_powi [OF assms(2)])
  finally show ?thesis .
qed

lemma rnd_pos_ge_powi:
  assumes "2 powi k \<le> x" and "quantum x \<le> k"
  shows "2 powi k \<le> rnd_pos x"
proof -
  have "of_int (2 ^ nat (k - quantum x)) \<le> x / 2 powi quantum x"
    using divide_right_mono [OF assms(1), of "2 powi quantum x"] scaled_powi [OF assms(2)] by simp
  then have "2 ^ nat (k - quantum x) \<le> rne (x / 2 powi quantum x)" by (rule rne_ge_of_int)
  then have "of_int (2 ^ nat (k - quantum x)) * 2 powi quantum x \<le> rnd_pos x"
    unfolding rnd_pos_def by (intro mult_right_mono) (simp_all only: of_int_le_iff zero_le_power_int zero_le_numeral)
  then show ?thesis by (simp only: unscaled_powi [OF assms(2)])
qed

lemma expo_bounds: "- 1100 \<le> expo x \<or> x < 2 powi (- 1100)" "expo x \<le> 1100"
  using expo_scan_le [of 1100 x] expo_scan_mono [of "2 powi (-1100)" x 1100]
    expo_scan_powi [of "-1100" 1100]
  by (auto simp: expo_def)

lemma powi_expo_le: "- 1100 \<le> e \<Longrightarrow> e = expo x \<Longrightarrow> 2 powi (- 1100) \<le> x \<Longrightarrow> 2 powi e \<le> x"
  using expo_scan_lower [of 1100 x] by (simp add: expo_def)

lemma rnd_pos_mono:
  assumes "0 < x" and "x \<le> y"
  shows "rnd_pos x \<le> rnd_pos y"
proof (cases "quantum x = quantum y")
  case True
  have "rne (x / 2 powi quantum y) \<le> rne (y / 2 powi quantum y)"
    using assms(2) by (intro rne_mono) (simp add: divide_right_mono)
  then show ?thesis unfolding rnd_pos_def True
    by (intro mult_right_mono) (simp_all only: of_int_le_iff zero_le_power_int zero_le_numeral)
next
  case False
  then have q: "quantum x < quantum y" using quantum_mono [OF assms(2)] by simp
  let ?e = "expo y"
  from q have qy: "quantum y = ?e - 52" "- 1022 < ?e" by (auto simp: quantum_def split: if_splits)
  have "x < 2 powi ?e"
  proof (rule ccontr)
    assume "\<not> x < 2 powi ?e"
    then have "?e \<le> expo x" using expo_le_iff [of x ?e] assms(1) qy(2) expo_bounds(2) [of y] by simp
    then show False using q qy by (simp add: quantum_def)
  qed
  then have "rnd_pos x \<le> 2 powi ?e" using q qy by (intro rnd_pos_le_powi) simp_all
  also have "2 powi ?e \<le> rnd_pos y"
  proof (rule rnd_pos_ge_powi)
    have "2 powi (- 1100) \<le> y"
      using expo_mono [of y "2 powi (-1100)"] expo_scan_powi [of "-1100" 1100] qy(2)
      by (cases "y \<le> 2 powi (-1100)") (auto simp: expo_def)
    then show "2 powi ?e \<le> y" using powi_expo_le qy(2) by simp
  qed (use qy in simp)
  finally show ?thesis .
qed

lemma rnd_pos_nonneg: "0 < x \<Longrightarrow> 0 \<le> rnd_pos x"
  unfolding rnd_pos_def using rne_ge_of_int [of 0 "x / 2 powi quantum x"] by simp

lemma rnd_0 [simp]: "rnd 0 = 0"
  by (simp add: rnd_def)

lemma rnd_minus: "rnd (- x) = - rnd x"
  by (simp add: rnd_def)

lemma rnd_nonneg: "0 \<le> x \<Longrightarrow> 0 \<le> rnd x"
  by (simp add: rnd_def rnd_pos_nonneg)

lemma rnd_mono: "x \<le> y \<Longrightarrow> rnd x \<le> rnd y"
  using rnd_pos_mono [of x y] rnd_pos_mono [of "- y" "- x"] rnd_pos_nonneg [of y] rnd_pos_nonneg [of "- x"]
  by (auto simp: rnd_def)

subsection \<open>Representable numbers are fixed points\<close>

definition repr :: "real \<Rightarrow> bool" where
  "repr x \<longleftrightarrow> (\<exists>m k. \<bar>m\<bar> \<le> 2 ^ 53 \<and> - 1074 \<le> k \<and> x = of_int m * 2 powi k)"

lemma reprI: "\<bar>m\<bar> \<le> 2 ^ 53 \<Longrightarrow> - 1074 \<le> k \<Longrightarrow> x = of_int m * 2 powi k \<Longrightarrow> repr x"
  by (auto simp: repr_def)

lemma repr_minus [simp]: "repr (- x) = repr x"
proof -
  have neg: "repr (- y)" if y: "repr y" for y
  proof -
    obtain m k where "\<bar>m\<bar> \<le> 2 ^ 53" "- 1074 \<le> k" "y = of_int m * 2 powi k"
      using y by (auto simp: repr_def)
    then show ?thesis by (intro reprI [of "- m" k]) simp_all
  qed
  from neg [of x] neg [of "- x"] show ?thesis by auto
qed

lemma powi_scale: "q \<le> k \<Longrightarrow> of_int m * 2 powi k / 2 powi q = (of_int (m * 2 ^ nat (k - q)) :: real)"
  using scaled_powi [of q k] by (simp add: mult.commute flip: times_divide_eq_right)

lemma rnd_pos_repr:
  assumes "repr x" and "0 < x" and "x \<le> 2 powi 1100"
  shows "rnd_pos x = x"
proof -
  obtain m k where m: "\<bar>m\<bar> \<le> 2 ^ 53" and k: "- 1074 \<le> k" and x: "x = of_int m * 2 powi k"
    using assms(1) by (auto simp: repr_def)
  let ?q = "quantum x"
  have "\<exists>j. x / 2 powi ?q = of_int j"
  proof (cases "?q \<le> k")
    case True
    then show ?thesis using powi_scale [OF True, of m] x by blast
  next
    case False
    then have q: "?q = expo x - 52" "k + 53 \<le> expo x" "- 1022 < expo x"
      using k by (auto simp: quantum_def)
    have lo: "2 powi (- 1100) \<le> x"
      using expo_mono [of x "2 powi (-1100)"] expo_scan_powi [of "-1100" 1100] q(3)
      by (cases "x \<le> 2 powi (-1100)") (auto simp: expo_def)
    have "m \<le> 2 ^ 53" using m by simp
    then have "real_of_int m \<le> of_int (2 ^ 53)" by (simp only: of_int_le_iff)
    then have "x \<le> 2 ^ 53 * 2 powi k" unfolding x by (intro mult_right_mono) simp_all
    also have "2 ^ 53 * 2 powi k = (2::real) powi (k + 53)" by (simp add: power_int_add)
    also have "\<dots> \<le> 2 powi expo x" using q(2) by (intro power_int_increasing) simp_all
    finally have up: "x \<le> 2 powi expo x" .
    have "2 powi expo x \<le> x" using powi_expo_le [OF _ refl lo] q(3) by simp
    with up have "2 powi expo x = x" by (intro order_antisym)
    then have x: "of_int 1 * 2 powi expo x = x" by (simp only: of_int_1 mult_1_left)
    have "?q \<le> expo x" using q(1) by simp
    from powi_scale [OF this, of 1] show ?thesis unfolding x by blast
  qed
  then obtain j where j: "x / 2 powi ?q = of_int j" by blast
  have "x / 2 powi ?q * 2 powi ?q = x" by simp
  then show ?thesis by (simp only: rnd_pos_def j rne_of_int)
qed

lemma rnd_repr: "repr x \<Longrightarrow> \<bar>x\<bar> \<le> 2 powi 1100 \<Longrightarrow> rnd x = x"
  using rnd_pos_repr [of x] rnd_pos_repr [of "- x"] by (auto simp: rnd_def)

lemma repr_of_int: "\<bar>m\<bar> \<le> 2 ^ 53 \<Longrightarrow> repr (of_int m)"
  by (rule reprI [of m 0]) simp_all

lemma rnd_of_int: "\<bar>m\<bar> \<le> 2 ^ 53 \<Longrightarrow> rnd (of_int m) = of_int m"
proof (rule rnd_repr)
  assume m: "\<bar>m\<bar> \<le> 2 ^ 53"
  then show "repr (of_int m)" by (rule repr_of_int)
  have "\<bar>real_of_int m\<bar> \<le> of_int (2 ^ 53)" using m by linarith
  also have "\<dots> \<le> (2::real) powi 1100" by simp
  finally show "\<bar>real_of_int m\<bar> \<le> 2 powi 1100" .
qed

lemma repr_rnd_pos:
  assumes "0 < x" and "x \<le> 2 powi 1100"
  shows "repr (rnd_pos x)"
proof (rule reprI [of "rne (x / 2 powi quantum x)" "quantum x"])
  have "(2::real) powi 1100 < 2 ^ Suc 1100" by simp
  with assms have "x < 2 powi (expo x + 1)" unfolding expo_def by (intro expo_scan_upper) linarith+
  also have "\<dots> \<le> 2 powi (quantum x + 53)" by (intro power_int_increasing) (simp_all add: quantum_def)
  finally have "x / 2 powi quantum x \<le> of_int (2 ^ 53)" by (simp add: power_int_add divide_simps)
  then have "rne (x / 2 powi quantum x) \<le> 2 ^ 53" by (rule rne_le_of_int)
  moreover have "0 \<le> rne (x / 2 powi quantum x)" using assms(1) by (intro rne_ge_of_int) simp
  ultimately show "\<bar>rne (x / 2 powi quantum x)\<bar> \<le> 2 ^ 53" by simp
qed (simp_all add: rnd_pos_def quantum_def)

lemma repr_rnd: "\<bar>x\<bar> \<le> 2 powi 1100 \<Longrightarrow> repr (rnd x)"
  using repr_rnd_pos [of x] repr_rnd_pos [of "- x"] repr_of_int [of 0] by (auto simp: rnd_def)

subsection \<open>The rounding error\<close>

lemma rnd_pos_error: "\<bar>rnd_pos x - x\<bar> \<le> 2 powi quantum x / 2"
proof -
  let ?u = "(2::real) powi quantum x"
  have "rnd_pos x - x = (of_int (rne (x / ?u)) - x / ?u) * ?u"
    by (simp add: rnd_pos_def left_diff_distrib)
  then have "\<bar>rnd_pos x - x\<bar> = \<bar>of_int (rne (x / ?u)) - x / ?u\<bar> * ?u" by (simp add: abs_mult)
  also have "\<dots> \<le> 1/2 * ?u" by (intro mult_right_mono rne_error) simp
  finally show ?thesis by simp
qed

lemma rnd_error_below:
  assumes "\<bar>x\<bar> < 2 powi e" and "- 1021 \<le> e" and "e \<le> 1100"
  shows "\<bar>rnd x - x\<bar> \<le> 2 powi (e - 54)"
proof -
  have pos: "\<bar>rnd_pos y - y\<bar> \<le> 2 powi (e - 54)" if "0 < y" "y < 2 powi e" for y
  proof -
    have "expo y < e \<or> expo y \<le> - 1100"
    proof (rule ccontr)
      assume "\<not> ?thesis"
      then have e: "e \<le> expo y" "- 1100 < expo y" by simp_all
      then have "2 powi (- 1100) \<le> y"
        using expo_mono [of y "2 powi (-1100)"] expo_scan_powi [of "-1100" 1100]
        by (cases "y \<le> 2 powi (-1100)") (auto simp: expo_def)
      then have "2 powi expo y \<le> y" using powi_expo_le e by simp
      moreover have "(2::real) powi e \<le> 2 powi expo y" using e by (intro power_int_increasing) simp_all
      ultimately show False using that(2) by linarith
    qed
    then have "quantum y \<le> e - 53" using assms(2) by (auto simp: quantum_def)
    then have "(2::real) powi quantum y \<le> 2 powi (e - 53)" by (intro power_int_increasing) simp_all
    also have "(2::real) powi (e - 53) = 2 * 2 powi (e - 54)" by (simp add: power_int_diff)
    finally show ?thesis using rnd_pos_error [of y] by linarith
  qed
  show ?thesis using pos [of x] pos [of "- x"] assms(1) by (auto simp: rnd_def abs_minus_commute)
qed

lemma rnd_le: "x \<le> y \<Longrightarrow> repr y \<Longrightarrow> \<bar>y\<bar> \<le> 2 powi 1100 \<Longrightarrow> rnd x \<le> y"
  using rnd_mono [of x y] rnd_repr [of y] by simp

lemma rnd_ge: "y \<le> x \<Longrightarrow> repr y \<Longrightarrow> \<bar>y\<bar> \<le> 2 powi 1100 \<Longrightarrow> y \<le> rnd x"
  using rnd_mono [of y x] rnd_repr [of y] by simp

lemma rnd_1 [simp]: "rnd 1 = 1"
  using rnd_of_int [of 1] by simp

lemma repr_0 [simp]: "repr 0" and repr_1 [simp]: "repr 1"
  using repr_of_int [of 0] repr_of_int [of 1] by simp_all

lemma rnd_unit: "0 \<le> x \<Longrightarrow> x \<le> 1 \<Longrightarrow> 0 \<le> rnd x \<and> rnd x \<le> 1"
  using rnd_mono [of x 1] by (simp add: rnd_nonneg)

lemma rnd_abs_le: "\<bar>x\<bar> \<le> 2 powi 1000 \<Longrightarrow> \<bar>rnd x\<bar> \<le> 2 powi 1000"
proof -
  assume x: "\<bar>x\<bar> \<le> 2 powi 1000"
  have r: "rnd (2 powi 1000) = 2 powi 1000"
    by (intro rnd_repr reprI [of 1 1000]) simp_all
  show ?thesis
    using x rnd_mono [of x "2 powi 1000"] rnd_mono [of "- x" "2 powi 1000"] r
    by (simp add: rnd_minus abs_le_iff)
qed

lemma round64_small: "\<bar>x\<bar> \<le> 2 powi 1000 \<Longrightarrow> round64 x = Fin (rnd x)"
proof -
  assume "\<bar>x\<bar> \<le> 2 powi 1000"
  then have "\<bar>rnd x\<bar> \<le> 2 powi 1000" by (rule rnd_abs_le)
  also have "(2::real) powi 1000 < 2 ^ 1024" by simp
  finally show ?thesis by (auto simp: round64_def abs_less_iff)
qed

lemma round64_of_int: "\<bar>m\<bar> \<le> 2 ^ 53 \<Longrightarrow> round64 (of_int m) = Fin (of_int m)"
proof -
  assume m: "\<bar>m\<bar> \<le> 2 ^ 53"
  then have "\<bar>real_of_int m\<bar> \<le> of_int (2 ^ 53)" by linarith
  also have "\<dots> \<le> (2::real) powi 1000" by simp
  finally show ?thesis using m by (simp add: round64_small rnd_of_int)
qed

lemma round64_Fin_repr: "round64 x = Fin r \<Longrightarrow> r = rnd x"
  by (auto simp: round64_def Let_def split: if_splits)

lemma f_of_int_small: "\<bar>m\<bar> \<le> 2 ^ 53 \<Longrightarrow> f_of_int m = Fin (of_int m)"
  by (simp add: f_of_int_def round64_of_int)

lemma rnd_le_of_int: "x \<le> of_int k \<Longrightarrow> \<bar>k\<bar> \<le> 2 ^ 53 \<Longrightarrow> rnd x \<le> of_int k"
  using rnd_mono [of x "of_int k"] rnd_of_int [of k] by simp

lemma round_sum:
  "0 \<le> x \<Longrightarrow> x \<le> of_int k \<Longrightarrow> \<bar>k\<bar> \<le> 2 ^ 53 \<Longrightarrow>
    round64 x = Fin (rnd x) \<and> 0 \<le> rnd x \<and> rnd x \<le> of_int k \<and> repr (rnd x)"
proof -
  assume x: "0 \<le> x" "x \<le> of_int k" and k: "\<bar>k\<bar> \<le> 2 ^ 53"
  then have "real_of_int k \<le> of_int (2 ^ 53)" by linarith
  also have "\<dots> \<le> (2::real) powi 1000" by simp
  finally have b: "\<bar>x\<bar> \<le> 2 powi 1000" using x by simp
  have "repr (rnd x)" by (rule repr_rnd, rule order_trans [OF b]) simp
  then show ?thesis using b x k rnd_le_of_int [of x k] by (simp add: round64_small rnd_nonneg)
qed

lemma f_add_0_repr: "repr x \<Longrightarrow> \<bar>x\<bar> \<le> 2 powi 1000 \<Longrightarrow> round64 x = Fin x"
  using round64_small [of x] rnd_repr [of x] order_trans [of "\<bar>x\<bar>" "2 powi 1000" "2 powi 1100"] by simp

text \<open>Subtracting one from a float between one and \<open>2^53\<close> is exact.\<close>

lemma repr_pred:
  assumes "repr x" and "1 \<le> x" and "x \<le> 2 ^ 53"
  shows "repr (x - 1)"
proof -
  obtain m k where m: "\<bar>m\<bar> \<le> 2 ^ 53" "- 1074 \<le> k" "x = of_int m * 2 powi k" using assms(1) by (auto simp: repr_def)
  show ?thesis
  proof (cases "0 \<le> k")
    case True
    then have "x = of_int (m * 2 ^ nat k)" using m(3) by (simp add: power_int_def)
    moreover from this have "\<bar>m * 2 ^ nat k - 1\<bar> \<le> 2 ^ 53"
      using assms(2,3) of_int_le_iff [of "m * 2 ^ nat k" "2 ^ 53", where ?'a = real]
        of_int_le_iff [of 1 "m * 2 ^ nat k", where ?'a = real]
      by (simp only: of_int_power of_int_numeral of_int_1) linarith
    ultimately show ?thesis by (intro reprI [of "m * 2 ^ nat k - 1" 0]) simp_all
  next
    case False
    define j where "j = nat (- k)"
    have k: "k = - int j" using False by (simp add: j_def)
    have one: "(1::real) = of_int (2 ^ j) * 2 powi k" by (simp add: k power_int_minus)
    have "x - 1 = of_int (m - 2 ^ j) * 2 powi k" using m(3) one by (simp add: left_diff_distrib)
    moreover have "2 ^ j \<le> m"
    proof -
      have "of_int (2 ^ j) * 2 powi k \<le> of_int m * (2::real) powi k" using assms(2) m(3) one by linarith
      then have "real_of_int (2 ^ j) \<le> of_int m" by (rule mult_right_le_imp_le) simp
      then show ?thesis by (simp only: of_int_le_iff)
    qed
    moreover have "(0::int) < 2 ^ j" by simp
    ultimately show ?thesis using m(1,2) by (intro reprI [of "m - 2 ^ j" k]) linarith+
  qed
qed

subsection \<open>Dynamic values\<close>

text \<open>What \<open>yaml.v3\<close> and \<open>encoding/json\<close> put in an \<open>interface{}\<close>.\<close>

datatype yval = YNull | YBool bool | YInt int | YFloat f64 | YStr string | YList "yval list" | YMap "(string \<times> yval) list"

end
