(* ===== verification/Token_Bucket.thy ===== *)
theory Token_Bucket
  imports Gw_Prelude Go_Float
begin

section \<open>Rate limiters: the interface and the token bucket (\<open>pkg/ratelimit\<close>)\<close>

text \<open>
  The \<open>Limiter\<close> interface of \<open>limiter.go\<close> and its in-memory implementation. The
  \<open>sync.Map\<close> holds pointers to buckets: \<open>tb_store\<close> maps a key to an index of the list
  \<open>tb_buckets\<close>, so that a bucket a goroutine has already fetched can be told from the
  one the map holds now. \<open>LoadOrStore\<close> and the locked section are the two atomic steps
  of \<open>allow\<close>. A context is seen through \<open>ctx.Err()\<close>. The multiplication and the
  addition of the refill round separately, as on amd64.
\<close>

subsection \<open>The interface\<close>

datatype ctx_error = Canceled | DeadlineExceeded

datatype limiter_error = CtxErr ctx_error | UnexpectedLength int

text \<open>
  \<open>Allow\<close> answers \<open>(allowed, remaining, err)\<close>. What the plugin relies on: a call that
  fails has granted nothing.
\<close>

locale limiter =
  fixes allow :: "ctx_error option \<Rightarrow> gotime \<Rightarrow> string \<Rightarrow> 'l \<Rightarrow> (bool \<times> f64 \<times> limiter_error option) \<times> 'l"
  assumes error_grants_nothing: "fst (allow ce now key l) = (granted, rem, Some e) \<Longrightarrow> \<not> granted \<and> rem = Fin 0"
begin

lemma granted_no_error: "fst (allow ce now key l) = (True, rem, e) \<Longrightarrow> e = None"
  using error_grants_nothing [of ce now key l True rem] by (cases e) auto

end

subsection \<open>Buckets\<close>

record bucket =
  bk_tokens :: f64
  bk_lastRefill :: gotime

record token_bucket =
  tb_rate :: f64
  tb_burstSize :: f64
  tb_evictionTTL :: duration
  tb_store :: "string \<rightharpoonup> nat"
  tb_buckets :: "bucket list"
  tb_stopped :: bool

abbreviation defaultEvictionTTL :: duration where "defaultEvictionTTL \<equiv> 10 * minute"

definition tb_New :: "f64 \<Rightarrow> f64 \<Rightarrow> token_bucket" where
  "tb_New rate burst =
     \<lparr>tb_rate = rate, tb_burstSize = burst, tb_evictionTTL = defaultEvictionTTL,
      tb_store = Map.empty, tb_buckets = [], tb_stopped = False\<rparr>"

text \<open>The first step of \<open>allow\<close>: \<open>LoadOrStore\<close> of a full bucket.\<close>

definition tb_load :: "gotime \<Rightarrow> string \<Rightarrow> token_bucket \<Rightarrow> nat \<times> token_bucket" where
  "tb_load now key tb =
     (case tb_store tb key of
        Some r \<Rightarrow> (r, tb)
      | None \<Rightarrow>
          (length (tb_buckets tb),
           tb\<lparr>tb_store := (tb_store tb)(key \<mapsto> length (tb_buckets tb)),
              tb_buckets := tb_buckets tb @ [\<lparr>bk_tokens = tb_burstSize tb, bk_lastRefill = now\<rparr>]\<rparr>))"

text \<open>The section under the bucket's mutex.\<close>

definition bucket_take :: "gotime \<Rightarrow> f64 \<Rightarrow> f64 \<Rightarrow> duration \<Rightarrow> bucket \<Rightarrow> (bool \<times> f64) \<times> bucket" where
  "bucket_take now rate burst ttl b =
     (let b1 = (if now - bk_lastRefill b > ttl then \<lparr>bk_tokens = burst, bk_lastRefill = now\<rparr> else b);
          elapsed = dur_Seconds (now - bk_lastRefill b1);
          t1 = f_add (bk_tokens b1) (f_mul elapsed rate);
          t2 = (if f_gt t1 burst then burst else t1)
      in if f_lt t2 (Fin 1) then ((False, Fin 0), \<lparr>bk_tokens = t2, bk_lastRefill = now\<rparr>)
         else ((True, f_sub t2 (Fin 1)), \<lparr>bk_tokens = f_sub t2 (Fin 1), bk_lastRefill = now\<rparr>))"

definition tb_take :: "gotime \<Rightarrow> nat \<Rightarrow> token_bucket \<Rightarrow> (bool \<times> f64) \<times> token_bucket" where
  "tb_take now r tb =
     (let (res, b') = bucket_take now (tb_rate tb) (tb_burstSize tb) (tb_evictionTTL tb) (tb_buckets tb ! r)
      in (res, tb\<lparr>tb_buckets := (tb_buckets tb)[r := b']\<rparr>))"

definition tb_allow :: "gotime \<Rightarrow> string \<Rightarrow> token_bucket \<Rightarrow> (bool \<times> f64) \<times> token_bucket" where
  "tb_allow now key tb = (let (r, tb1) = tb_load now key tb in tb_take now r tb1)"

definition tb_Allow ::
  "ctx_error option \<Rightarrow> gotime \<Rightarrow> string \<Rightarrow> token_bucket \<Rightarrow> (bool \<times> f64 \<times> limiter_error option) \<times> token_bucket" where
  "tb_Allow ce now key tb =
     (case ce of
        Some e \<Rightarrow> ((False, Fin 0, Some (CtxErr e)), tb)
      | None \<Rightarrow> (let ((allowed, rem), tb1) = tb_allow now key tb in ((allowed, rem, None), tb1)))"

definition tb_sweep :: "gotime \<Rightarrow> token_bucket \<Rightarrow> token_bucket" where
  "tb_sweep now tb =
     (let cutoff = now - tb_evictionTTL tb
      in tb\<lparr>tb_store := (\<lambda>key. case tb_store tb key of
             Some r \<Rightarrow> if bk_lastRefill (tb_buckets tb ! r) < cutoff then None else Some r
           | None \<Rightarrow> None)\<rparr>)"

definition tb_Close :: "token_bucket \<Rightarrow> token_bucket" where
  "tb_Close tb = tb\<lparr>tb_stopped := True\<rparr>"

text \<open>
  The goroutine of \<open>StartSweep\<close>: whichever ready case \<open>select\<close> takes is an event; the
  flag says whether the goroutine is still running.
\<close>

datatype sweep_event = SweepCtxDone | SweepStopCh | SweepTick gotime

fun sweeper_step :: "sweep_event \<Rightarrow> bool \<times> token_bucket \<Rightarrow> bool \<times> token_bucket" where
  "sweeper_step ev (False, tb) = (False, tb)"
| "sweeper_step SweepCtxDone (True, tb) = (False, tb)"
| "sweeper_step SweepStopCh (True, tb) = (\<not> tb_stopped tb, tb)"
| "sweeper_step (SweepTick now) (True, tb) = (True, tb_sweep now tb)"

interpretation tbl: limiter tb_Allow
  by unfold_locales (auto simp: tb_Allow_def split: option.splits prod.splits)

subsection \<open>Every key has its own bucket\<close>

text \<open>
  The abstract state is the map from keys to buckets. The store keeps distinct keys on
  distinct buckets, so every operation acts on that map.
\<close>

definition tb_view :: "token_bucket \<Rightarrow> string \<Rightarrow> bucket option" where
  "tb_view tb key = map_option (\<lambda>r. tb_buckets tb ! r) (tb_store tb key)"

definition tb_wf :: "token_bucket \<Rightarrow> bool" where
  "tb_wf tb \<longleftrightarrow> (\<forall>k r. tb_store tb k = Some r \<longrightarrow> r < length (tb_buckets tb))
     \<and> (\<forall>k k' r. tb_store tb k = Some r \<longrightarrow> tb_store tb k' = Some r \<longrightarrow> k = k')"

definition same_params :: "token_bucket \<Rightarrow> token_bucket \<Rightarrow> bool" where
  "same_params tb tb' \<longleftrightarrow> tb_rate tb' = tb_rate tb \<and> tb_burstSize tb' = tb_burstSize tb
     \<and> tb_evictionTTL tb' = tb_evictionTTL tb"

definition bucket_or_full :: "gotime \<Rightarrow> f64 \<Rightarrow> bucket option \<Rightarrow> bucket" where
  "bucket_or_full now burst b = (case b of Some b \<Rightarrow> b | None \<Rightarrow> \<lparr>bk_tokens = burst, bk_lastRefill = now\<rparr>)"

lemma tb_wf_New [simp]: "tb_wf (tb_New rate burst)"
  by (simp add: tb_wf_def tb_New_def)

lemma tb_view_New [simp]: "tb_view (tb_New rate burst) = Map.empty"
  by (simp add: tb_view_def tb_New_def fun_eq_iff)

lemma tb_load_view:
  assumes "tb_wf tb" and "tb_load now key tb = (r, tb1)"
  shows "tb_wf tb1 \<and> same_params tb tb1 \<and> tb_store tb1 key = Some r
    \<and> tb_view tb1 = (tb_view tb)(key \<mapsto> bucket_or_full now (tb_burstSize tb) (tb_view tb key))"
proof (cases "tb_store tb key")
  case None
  let ?n = "length (tb_buckets tb)"
  have t: "r = ?n" "tb1 = tb\<lparr>tb_store := (tb_store tb)(key \<mapsto> ?n),
      tb_buckets := tb_buckets tb @ [\<lparr>bk_tokens = tb_burstSize tb, bk_lastRefill = now\<rparr>]\<rparr>"
    using assms(2) None by (auto simp: tb_load_def)
  have lt: "x < ?n" if "tb_store tb k = Some x" for k x using assms(1) that by (auto simp: tb_wf_def)
  have "tb_wf tb1" using assms(1) unfolding tb_wf_def t by (auto dest: lt intro: less_SucI)
  moreover have "tb_view tb1 k = ((tb_view tb)(key \<mapsto> bucket_or_full now (tb_burstSize tb) (tb_view tb key))) k" for k
    using None lt [of k] by (cases "tb_store tb k") (auto simp: t tb_view_def bucket_or_full_def nth_append)
  ultimately show ?thesis by (auto simp: t same_params_def)
next
  case (Some x)
  then show ?thesis using assms
    by (auto simp: tb_load_def same_params_def tb_view_def bucket_or_full_def fun_eq_iff)
qed

lemma tb_take_view:
  assumes "tb_wf tb" and "tb_store tb key = Some r" and "tb_take now r tb = (res, tb1)"
    and "bucket_take now (tb_rate tb) (tb_burstSize tb) (tb_evictionTTL tb) (the (tb_view tb key)) = (res', b')"
  shows "res = res' \<and> tb_wf tb1 \<and> same_params tb tb1 \<and> tb_view tb1 = (tb_view tb)(key \<mapsto> b')"
proof -
  have b: "the (tb_view tb key) = tb_buckets tb ! r" using assms(2) by (simp add: tb_view_def)
  have t: "res = res'" "tb1 = tb\<lparr>tb_buckets := (tb_buckets tb)[r := b']\<rparr>"
    using assms(3,4) unfolding b by (auto simp: tb_take_def split: prod.splits)
  have r: "r < length (tb_buckets tb)" using assms(1,2) by (auto simp: tb_wf_def)
  have "tb_view tb1 k = ((tb_view tb)(key \<mapsto> b')) k" for k
  proof (cases "tb_store tb k = Some r")
    case True
    then have "k = key" using assms(1,2) by (auto simp: tb_wf_def)
    then show ?thesis using r assms(2) by (simp add: t tb_view_def)
  next
    case False
    moreover from False have "k \<noteq> key" using assms(2) by auto
    ultimately show ?thesis by (cases "tb_store tb k") (auto simp: t tb_view_def)
  qed
  then show ?thesis using assms(1) t by (auto simp: tb_wf_def same_params_def)
qed

lemma tb_allow_view:
  assumes "tb_wf tb" and "tb_allow now key tb = (res, tb1)"
    and "bucket_take now (tb_rate tb) (tb_burstSize tb) (tb_evictionTTL tb)
      (bucket_or_full now (tb_burstSize tb) (tb_view tb key)) = (res', b')"
  shows "res = res' \<and> tb_wf tb1 \<and> same_params tb tb1 \<and> tb_view tb1 = (tb_view tb)(key \<mapsto> b')"
proof -
  obtain r tb0 where l: "tb_load now key tb = (r, tb0)" by fastforce
  note v = tb_load_view [OF assms(1) l]
  then have p: "same_params tb tb0" by simp
  have t: "tb_take now r tb0 = (res, tb1)" using assms(2) l by (simp add: tb_allow_def)
  have "bucket_take now (tb_rate tb0) (tb_burstSize tb0) (tb_evictionTTL tb0) (the (tb_view tb0 key)) = (res', b')"
    using v assms(3) p by (simp add: same_params_def)
  then have "res = res' \<and> tb_wf tb1 \<and> same_params tb0 tb1 \<and> tb_view tb1 = (tb_view tb0)(key \<mapsto> b')"
    using v by (intro tb_take_view [OF _ _ t]) simp_all
  then show ?thesis using v by (simp add: same_params_def)
qed

lemma tb_sweep_view:
  "tb_wf tb \<Longrightarrow> tb_wf (tb_sweep now tb) \<and> same_params tb (tb_sweep now tb)
    \<and> tb_view (tb_sweep now tb) key =
       (case tb_view tb key of
          Some b \<Rightarrow> if bk_lastRefill b < now - tb_evictionTTL tb then None else Some b
        | None \<Rightarrow> None)"
  by (cases "tb_store tb key")
    (auto simp: tb_sweep_def tb_wf_def same_params_def tb_view_def Let_def split: option.splits if_splits)

text \<open>A history of a limiter: calls of \<open>allow\<close> for any keys and sweeps.\<close>

datatype tb_event = Call gotime string | Sweep gotime

fun ev_time :: "tb_event \<Rightarrow> gotime" where
  "ev_time (Call t k) = t"
| "ev_time (Sweep t) = t"

text \<open>The answers given to one key over a history, and what a bucket alone would answer.\<close>

fun answers :: "string \<Rightarrow> tb_event list \<Rightarrow> token_bucket \<Rightarrow> bool list" where
  "answers key [] tb = []"
| "answers key (Call t k # es) tb =
     (let (res, tb1) = tb_allow t k tb
      in if k = key then fst res # answers key es tb1 else answers key es tb1)"
| "answers key (Sweep t # es) tb = answers key es (tb_sweep t tb)"

fun key_calls :: "string \<Rightarrow> tb_event list \<Rightarrow> gotime list" where
  "key_calls key [] = []"
| "key_calls key (Call t k # es) = (if k = key then t # key_calls key es else key_calls key es)"
| "key_calls key (Sweep t # es) = key_calls key es"

fun bucket_run :: "f64 \<Rightarrow> f64 \<Rightarrow> duration \<Rightarrow> gotime list \<Rightarrow> bucket option \<Rightarrow> bool list" where
  "bucket_run rate burst ttl [] b = []"
| "bucket_run rate burst ttl (t # ts) b =
     (let (res, b') = bucket_take t rate burst ttl (bucket_or_full t burst b)
      in fst res # bucket_run rate burst ttl ts (Some b'))"

lemma bucket_take_stale:
  "0 \<le> ttl \<Longrightarrow> bk_lastRefill b < t - ttl \<Longrightarrow>
    bucket_take t rate burst ttl b = bucket_take t rate burst ttl (bucket_or_full t burst None)"
  by (simp add: bucket_take_def bucket_or_full_def Let_def)

lemma answers_alone:
  assumes "tb_wf tb" and "0 \<le> tb_evictionTTL tb" and "sorted (map ev_time es)"
    and "\<forall>e \<in> set es. now \<le> ev_time e"
    and "tb_view tb key = b \<or>
      (tb_view tb key = None \<and> (\<exists>b0. b = Some b0 \<and> bk_lastRefill b0 < now - tb_evictionTTL tb))"
  shows "answers key es tb = bucket_run (tb_rate tb) (tb_burstSize tb) (tb_evictionTTL tb) (key_calls key es) b"
  using assms
proof (induction es arbitrary: tb b now)
  case (Cons e es)
  have sorted: "sorted (map ev_time es)" "\<forall>e' \<in> set es. ev_time e \<le> ev_time e'" "now \<le> ev_time e"
    using Cons.prems(3,4) by auto
  note IH = Cons.IH [OF _ _ sorted(1,2)]
  show ?case
  proof (cases e)
    case (Call t k)
    obtain res' b' where bt: "bucket_take t (tb_rate tb) (tb_burstSize tb) (tb_evictionTTL tb)
        (bucket_or_full t (tb_burstSize tb) (tb_view tb k)) = (res', b')" by fastforce
    obtain res tb1 where al: "tb_allow t k tb = (res, tb1)" by fastforce
    note v = tb_allow_view [OF Cons.prems(1) al bt]
    show ?thesis
    proof (cases "k = key")
      case True
      have "bucket_take t (tb_rate tb) (tb_burstSize tb) (tb_evictionTTL tb)
          (bucket_or_full t (tb_burstSize tb) b) = (res', b')"
        using Cons.prems(2,5) bt bucket_take_stale sorted(3) True Call
        by (fastforce simp: bucket_or_full_def)
      moreover have "answers key es tb1 =
          bucket_run (tb_rate tb1) (tb_burstSize tb1) (tb_evictionTTL tb1) (key_calls key es) (Some b')"
        using v True Cons.prems(2) by (intro IH) (simp_all add: same_params_def)
      ultimately show ?thesis using True Call al v by (simp add: same_params_def)
    next
      case False
      have "answers key es tb1 =
          bucket_run (tb_rate tb1) (tb_burstSize tb1) (tb_evictionTTL tb1) (key_calls key es) b"
        using v False Cons.prems(2,5) sorted(3) Call by (intro IH) (auto simp: same_params_def)
      then show ?thesis using False Call al v by (simp add: same_params_def)
    qed
  next
    case (Sweep t)
    note v = tb_sweep_view [OF Cons.prems(1), of t key]
    have "answers key es (tb_sweep t tb) = bucket_run (tb_rate (tb_sweep t tb)) (tb_burstSize (tb_sweep t tb))
        (tb_evictionTTL (tb_sweep t tb)) (key_calls key es) b"
      using v Cons.prems(2,5) sorted(3) Sweep
      by (intro IH) (auto simp: same_params_def split: option.splits if_splits)
    then show ?thesis using v Sweep by (simp add: same_params_def)
  qed
qed simp

lemma answers_bucket_run:
  assumes "sorted (map ev_time es)"
  shows "answers key es (tb_New rate burst) =
    bucket_run rate burst defaultEvictionTTL (key_calls key es) None"
proof -
  let ?tb = "tb_New rate burst" and ?now = "Min (insert 0 (ev_time ` set es))"
  have p: "tb_rate ?tb = rate" "tb_burstSize ?tb = burst" "tb_evictionTTL ?tb = defaultEvictionTTL"
    by (simp_all add: tb_New_def)
  have "answers key es ?tb = bucket_run (tb_rate ?tb) (tb_burstSize ?tb) (tb_evictionTTL ?tb) (key_calls key es) None"
    using assms by (intro answers_alone [where now = ?now]) (simp_all add: p)
  then show ?thesis by (simp only: p)
qed

text \<open>
  C18: Each key is limited as if it were alone: over any history of calls for any keys and
  of background sweeps, in time order, the answers a key gets are those of one bucket that
  sees only that key's calls. Other clients and the eviction of idle buckets by the sweep
  are invisible.
\<close>

theorem bucket_isolation:
  assumes "sorted (map ev_time es)"
  shows "answers key es (tb_New rate burst) =
    bucket_run rate burst defaultEvictionTTL (key_calls key es) None"
  using assms by (rule answers_bucket_run)

theorem bucket_isolation_witness:
  "answers ''a'' [Call 0 ''a'', Call 0 ''b'', Call 1 ''a'', Sweep (20 * minute), Call (21 * minute) ''a'']
      (tb_New (Fin 0) (Fin 1))
    = bucket_run (Fin 0) (Fin 1) defaultEvictionTTL
      (key_calls ''a'' [Call 0 ''a'', Call 0 ''b'', Call 1 ''a'', Sweep (20 * minute), Call (21 * minute) ''a'']) None"
  by (rule bucket_isolation) simp

subsection \<open>How much a bucket admits\<close>

lemma of_int_le_powi: "k \<le> 2 ^ 53 \<Longrightarrow> real_of_int k \<le> 2 powi 1000"
proof -
  assume "k \<le> 2 ^ 53"
  then have "real_of_int k \<le> of_int (2 ^ 53)" by (simp only: of_int_le_iff)
  also have "\<dots> \<le> (2::real) powi 1000" by simp
  finally show ?thesis .
qed

lemma powi_consts:
  "(2::real) powi (0 - 54) = 1 / 18014398509481984" "(2::real) powi (10 - 54) = 1 / 17592186044416"
  "(2::real) powi (- 43) = 1 / 8796093022208" "(2::real) powi (31 - 54) = 1 / 8388608"
  "(2::real) powi (32 - 54) = 1 / 4194304" "(2::real) powi (- 23) = 1 / 8388608"
  "(2::real) powi (- 20) = 1 / 1048576"
  by (simp_all add: power_int_minus)

lemma dur_Seconds_0 [simp]: "dur_Seconds 0 = Fin 0"
  by (simp add: dur_Seconds_def go_div_def go_mod_def f_of_int_def round64_def)

lemma dur_Seconds_near:
  assumes "0 \<le> d" and "d \<le> defaultEvictionTTL"
  shows "\<exists>s. dur_Seconds d = Fin s \<and> 0 \<le> s \<and> s \<le> 601 \<and> \<bar>s - of_int d / 1000000000\<bar> \<le> 2 powi (- 43)"
proof -
  let ?q = "d div second" and ?m = "d mod second"
  have q: "0 \<le> ?q" "?q \<le> 600" and m: "0 \<le> ?m" "?m < second" using assms zdiv_mono1 [of d "600 * second" second] by (simp_all add: pos_imp_zdiv_nonneg_iff)
  let ?x = "real_of_int ?m / 1000000000"
  have x: "0 \<le> ?x" "?x < 1" using m by simp_all
  have r: "round64 ?x = Fin (rnd ?x)" "0 \<le> rnd ?x" "rnd ?x \<le> 1"
    using round_sum [of ?x 1] x by auto
  have e1: "\<bar>rnd ?x - ?x\<bar> \<le> 2 powi (0 - 54)" using x by (intro rnd_error_below) simp_all
  let ?y = "real_of_int ?q + rnd ?x"
  have y: "0 \<le> ?y" "?y \<le> of_int 601" using q r by simp_all
  have s: "round64 ?y = Fin (rnd ?y)" "0 \<le> rnd ?y" "rnd ?y \<le> of_int 601"
    using round_sum [OF y] by auto
  have e2: "\<bar>rnd ?y - ?y\<bar> \<le> 2 powi (10 - 54)" using y by (intro rnd_error_below) simp_all
  have "real_of_int d = of_int (?q * second + ?m)" by simp
  also have "\<dots> = of_int ?q * 1000000000 + of_int ?m" by (simp only: of_int_add of_int_mult of_int_numeral)
  finally have d: "real_of_int d / 1000000000 = of_int ?q + ?x" by simp
  have "f_of_int ?q = Fin (of_int ?q)" "f_of_int ?m = Fin (of_int ?m)"
    using q m by (intro f_of_int_small; simp)+
  then have "dur_Seconds d = Fin (rnd ?y)" using assms r(1) s(1) by (simp add: dur_Seconds_def)
  moreover have "\<bar>rnd ?y - of_int d / 1000000000\<bar> \<le> 2 powi (- 43)"
    using e1 e2 unfolding d powi_consts by linarith
  ultimately show ?thesis using s by auto
qed

text \<open>What the bucket holds after a call is accounted for by what it held and the refill.\<close>

lemma bucket_take_account:
  assumes "bk_tokens b = Fin x" and "repr x" and "0 \<le> x" and "x \<le> B"
    and B: "repr B" "B \<le> 2 ^ 30" and rate: "0 \<le> rate" "rate \<le> 2 ^ 20"
    and dt: "bk_lastRefill b \<le> now" "now - bk_lastRefill b \<le> defaultEvictionTTL"
    and r: "bucket_take now (Fin rate) (Fin B) defaultEvictionTTL b = ((granted, rem), b')"
  shows "\<exists>x'. bk_tokens b' = Fin x' \<and> repr x' \<and> 0 \<le> x' \<and> x' \<le> B \<and> bk_lastRefill b' = now
    \<and> x' + of_bool granted \<le> x + rate * (of_int (now - bk_lastRefill b) / 1000000000) + 2 powi (- 20)"
proof -
  let ?d = "now - bk_lastRefill b"
  define D where "D = real_of_int ?d / 1000000000"
  obtain s where s: "dur_Seconds ?d = Fin s" "0 \<le> s" "s \<le> 601" "\<bar>s - D\<bar> \<le> 2 powi (- 43)"
    using dur_Seconds_near [of ?d] dt by (auto simp: D_def)
  have "s * rate \<le> 601 * 2 ^ 20" using s rate by (intro mult_mono) auto
  then have p: "0 \<le> s * rate" "s * rate \<le> of_int (2 ^ 30)" using s rate by simp_all
  let ?y = "rnd (s * rate)"
  have y: "round64 (s * rate) = Fin ?y" "0 \<le> ?y" "?y \<le> of_int (2 ^ 30)" using round_sum [OF p] by auto
  have e1: "\<bar>?y - s * rate\<bar> \<le> 2 powi (31 - 54)" using p by (intro rnd_error_below) simp_all
  have q: "0 \<le> x + ?y" "x + ?y \<le> of_int (2 ^ 31)" using assms(3,4) B(2) y by simp_all
  let ?t = "rnd (x + ?y)"
  have t: "round64 (x + ?y) = Fin ?t" "0 \<le> ?t" "repr ?t" using round_sum [OF q] by auto
  have e2: "\<bar>?t - (x + ?y)\<bar> \<le> 2 powi (32 - 54)" using q by (intro rnd_error_below) simp_all
  have "\<bar>s * rate - D * rate\<bar> = \<bar>s - D\<bar> * rate"
    using rate by (simp only: left_diff_distrib [symmetric] abs_mult abs_of_nonneg)
  also have "\<dots> \<le> 2 powi (- 43) * 2 ^ 20" using s(4) rate by (intro mult_mono) auto
  finally have e3: "\<bar>s * rate - D * rate\<bar> \<le> 2 powi (- 23)" by (simp add: power_int_minus)
  have acc: "?t \<le> x + rate * D + 2 powi (- 20)"
    using e1 e2 e3 unfolding powi_consts mult.commute [of rate D] by linarith
  define t2 where "t2 = min ?t B"
  have t2: "repr t2" "0 \<le> t2" "t2 \<le> B" "t2 \<le> ?t" using t assms(3,4) B by (auto simp: t2_def min_def)
  note acc = acc [unfolded D_def]
  have eq: "((granted, rem), b') =
      (if f_lt (Fin t2) (Fin 1) then ((False, Fin 0), \<lparr>bk_tokens = Fin t2, bk_lastRefill = now\<rparr>)
       else ((True, f_sub (Fin t2) (Fin 1)), \<lparr>bk_tokens = f_sub (Fin t2) (Fin 1), bk_lastRefill = now\<rparr>))"
  proof -
    have "(if f_gt (f_add (Fin x) (f_mul (Fin s) (Fin rate))) (Fin B) then Fin B
        else f_add (Fin x) (f_mul (Fin s) (Fin rate))) = Fin t2"
      by (simp add: y t t2_def min_def)
    then show ?thesis using r dt(2) s(1) assms(1) by (simp only: bucket_take_def Let_def not_less [symmetric] if_not_P)
  qed
  show ?thesis
  proof (cases "t2 < 1")
    case True
    then show ?thesis using eq t2 acc by auto
  next
    case False
    have "repr (t2 - 1)" using False t2 B by (intro repr_pred) auto
    moreover have "\<bar>t2 - 1\<bar> \<le> 2 powi 1000" using False t2 B by (simp add: abs_le_iff)
    ultimately have "f_sub (Fin t2) (Fin 1) = Fin (t2 - 1)" by (simp add: f_sub_def f_add_0_repr)
    then show ?thesis using False eq t2 acc \<open>repr (t2 - 1)\<close> by auto
  qed
qed

definition count_true :: "bool list \<Rightarrow> nat" where
  "count_true rs = length (filter id rs)"

lemma count_true_simps [simp]:
  "count_true [] = 0" "count_true (r # rs) = of_bool r + count_true rs"
  by (simp_all add: count_true_def)

fun gaps_ok :: "duration \<Rightarrow> gotime \<Rightarrow> gotime list \<Rightarrow> bool" where
  "gaps_ok ttl prev [] = True"
| "gaps_ok ttl prev (t # ts) = (prev \<le> t \<and> t - prev \<le> ttl \<and> gaps_ok ttl t ts)"

lemma bucket_run_account:
  assumes "bk_tokens b = Fin x" and "repr x" and "0 \<le> x" and "x \<le> B"
    and B: "repr B" "B \<le> 2 ^ 30" and rate: "0 \<le> rate" "rate \<le> 2 ^ 20"
    and "gaps_ok defaultEvictionTTL (bk_lastRefill b) ts"
  shows "real (count_true (bucket_run (Fin rate) (Fin B) defaultEvictionTTL ts (Some b)))
    \<le> x + rate * (of_int (last (bk_lastRefill b # ts) - bk_lastRefill b) / 1000000000)
      + real (length ts) * 2 powi (- 20)"
  using assms(1-4,9)
proof (induction ts arbitrary: b x)
  case (Cons t ts)
  obtain granted rem b' where r:
    "bucket_take t (Fin rate) (Fin B) defaultEvictionTTL b = ((granted, rem), b')" by (metis prod_cases3 surj_pair)
  have gap: "bk_lastRefill b \<le> t" "t - bk_lastRefill b \<le> defaultEvictionTTL" "gaps_ok defaultEvictionTTL t ts"
    using Cons.prems(5) by simp_all
  obtain x' where x': "bk_tokens b' = Fin x'" "repr x'" "0 \<le> x'" "x' \<le> B" "bk_lastRefill b' = t"
    and acc: "x' + of_bool granted \<le> x + rate * (of_int (t - bk_lastRefill b) / 1000000000) + 2 powi (- 20)"
    using bucket_take_account [OF Cons.prems(1-4) B rate gap(1,2) r] by blast
  let ?l = "last (t # ts)"
  have "real (count_true (bucket_run (Fin rate) (Fin B) defaultEvictionTTL ts (Some b')))
      \<le> x' + rate * (of_int (?l - t) / 1000000000) + real (length ts) * 2 powi (- 20)"
    using Cons.IH [OF x'(1-4)] gap(3) x'(5) by simp
  moreover have "rate * (of_int (?l - bk_lastRefill b) / 1000000000) =
      rate * (of_int (?l - t) / 1000000000) + rate * (of_int (t - bk_lastRefill b) / 1000000000)"
    by (simp add: field_simps)
  moreover have "count_true (bucket_run (Fin rate) (Fin B) defaultEvictionTTL (t # ts) (Some b)) =
      of_bool granted + count_true (bucket_run (Fin rate) (Fin B) defaultEvictionTTL ts (Some b'))"
    using r by (simp add: bucket_or_full_def)
  moreover have "real (length (t # ts)) * 2 powi (- 20) = real (length ts) * 2 powi (- 20) + 2 powi (- 20)"
    by (simp add: distrib_right)
  moreover have "last (bk_lastRefill b # t # ts) = ?l" by simp
  ultimately show ?case using acc by (simp only: of_nat_add of_nat_of_bool)
qed simp

text \<open>
  C7: The sustained rate is enforced on the binary64 arithmetic the code runs: between two
  idle evictions, any number of calls for one key are granted at most \<open>burst\<close> plus
  \<open>rate\<close> times the elapsed seconds, up to \<open>2^-20\<close> of a token of rounding per call.
\<close>

theorem token_bucket_rate_bound:
  assumes "repr B" and "0 \<le> B" and "B \<le> 2 ^ 30" and "0 \<le> rate" and "rate \<le> 2 ^ 20"
    and "gaps_ok defaultEvictionTTL t ts"
  shows "real (count_true (bucket_run (Fin rate) (Fin B) defaultEvictionTTL (t # ts) None))
    \<le> B + rate * (of_int (last (t # ts) - t) / 1000000000) + real (Suc (length ts)) * 2 powi (- 20)"
proof -
  let ?b = "\<lparr>bk_tokens = Fin B, bk_lastRefill = t\<rparr>"
  have "bucket_run (Fin rate) (Fin B) defaultEvictionTTL (t # ts) None =
      bucket_run (Fin rate) (Fin B) defaultEvictionTTL (t # ts) (Some ?b)"
    by (simp add: bucket_or_full_def)
  then show ?thesis using bucket_run_account [of ?b B B rate "t # ts"] assms by simp
qed

theorem token_bucket_rate_bound_witness:
  "real (count_true (bucket_run (Fin 5) (Fin 10) defaultEvictionTTL (0 # [second, 2 * second, 4 * second]) None))
    \<le> 10 + 5 * (of_int (last (0 # [second, 2 * second, 4 * second]) - 0) / 1000000000)
      + real (Suc (length [second, 2 * second, 4 * second])) * 2 powi (- 20)"
proof (rule token_bucket_rate_bound)
  show "repr (10::real)" using repr_of_int [of 10] by simp
qed simp_all

lemma bucket_take_instant:
  assumes "repr x" and "0 \<le> x" and "x \<le> B" and "B \<le> 2 ^ 53" and "0 \<le> ttl"
  shows "bucket_take t (Fin rate) (Fin B) ttl \<lparr>bk_tokens = Fin x, bk_lastRefill = t\<rparr> =
    (if x < 1 then ((False, Fin 0), \<lparr>bk_tokens = Fin x, bk_lastRefill = t\<rparr>)
     else ((True, Fin (x - 1)), \<lparr>bk_tokens = Fin (x - 1), bk_lastRefill = t\<rparr>))"
proof -
  have small: "\<bar>x\<bar> \<le> 2 powi 1000" using assms by simp
  have z: "round64 0 = Fin 0" by (simp add: round64_def)
  have p: "f_sub (Fin x) (Fin 1) = Fin (x - 1)" if "1 \<le> x"
    using that repr_pred [of x] assms by (simp add: f_sub_def f_add_0_repr)
  show ?thesis using assms p by (simp add: bucket_take_def Let_def z f_add_0_repr [OF assms(1) small])
qed

lemma burst_run_exact:
  assumes "repr B" and "0 \<le> B" and "B \<le> 2 ^ 53"
  shows "bucket_run (Fin rate) (Fin B) defaultEvictionTTL (replicate n t) None =
    map (\<lambda>i. int i < \<lfloor>B\<rfloor>) [0..<n]"
proof -
  have run: "bucket_run (Fin rate) (Fin B) defaultEvictionTTL (replicate n t) (Some \<lparr>bk_tokens = Fin x, bk_lastRefill = t\<rparr>)
      = map (\<lambda>i. int i < \<lfloor>x\<rfloor>) [0..<n]" if "repr x" "0 \<le> x" "x \<le> B" for x
    using that
  proof (induction n arbitrary: x)
    case (Suc n)
    have up: "map (\<lambda>i. int i < \<lfloor>x\<rfloor>) [0..<Suc n] = (0 < \<lfloor>x\<rfloor>) # map (\<lambda>i. int i < \<lfloor>x\<rfloor> - 1) [0..<n]"
      unfolding upt_conv_Cons [OF zero_less_Suc] map_Suc_upt [symmetric] by (auto simp: o_def)
    show ?case
    proof (cases "x < 1")
      case True
      then have f: "\<lfloor>x\<rfloor> = 0" using Suc.prems by (simp add: floor_unique)
      show ?thesis using Suc.IH [of x] Suc.prems True assms(3) unfolding up unfolding f
        by (simp add: bucket_or_full_def bucket_take_instant f)
    next
      case False
      then have "repr (x - 1)" using Suc.prems assms(3) by (intro repr_pred) auto
      with Suc.IH [of "x - 1"] Suc.prems False assms(3) show ?thesis unfolding up
        by (simp add: bucket_or_full_def bucket_take_instant)
    qed
  qed simp
  show ?thesis
  proof (cases n)
    case (Suc m)
    then have "bucket_run (Fin rate) (Fin B) defaultEvictionTTL (replicate n t) None =
      bucket_run (Fin rate) (Fin B) defaultEvictionTTL (replicate n t) (Some \<lparr>bk_tokens = Fin B, bk_lastRefill = t\<rparr>)"
      by (simp add: bucket_or_full_def)
    then show ?thesis using run [of B] assms by simp
  qed simp
qed

text \<open>
  A client that has been idle can burst exactly its capacity: of any number of calls at
  one instant the first \<open>\<lfloor>burst\<rfloor>\<close> are granted and the rest rejected, at every rate.
\<close>

theorem burst_is_exact:
  assumes "repr B" and "0 \<le> B" and "B \<le> 2 ^ 53"
  shows "bucket_run (Fin rate) (Fin B) defaultEvictionTTL (replicate n t) None =
    map (\<lambda>i. int i < \<lfloor>B\<rfloor>) [0..<n]"
  using assms by (rule burst_run_exact)

theorem burst_is_exact_witness:
  "bucket_run (Fin 7) (Fin (of_int 3)) defaultEvictionTTL (replicate 5 9) None
    = map (\<lambda>i. int i < \<lfloor>real_of_int 3\<rfloor>) [0..<5]"
  using burst_is_exact [of "of_int 3" 7 5 9] repr_of_int [of 3] by simp

subsection \<open>A call that races with the sweep\<close>

lemma bucket_take_fresh:
  assumes "repr B" and "1 \<le> B" and "B \<le> 2 ^ 53" and "0 \<le> ttl"
    and "now - bk_lastRefill b > ttl \<or> b = \<lparr>bk_tokens = Fin B, bk_lastRefill = now\<rparr>"
  shows "fst (bucket_take now (Fin rate) (Fin B) ttl b) = (True, Fin (B - 1))"
proof -
  have "bucket_take now (Fin rate) (Fin B) ttl b =
      bucket_take now (Fin rate) (Fin B) ttl \<lparr>bk_tokens = Fin B, bk_lastRefill = now\<rparr>"
    using assms(4,5) by (auto simp: bucket_take_def Let_def)
  then show ?thesis using bucket_take_instant [of B B ttl] assms by simp
qed

text \<open>
  \<open>allow\<close> fetches the bucket before it locks it. When the sweep runs between the two
  steps of one call and another call follows, the two calls work on different buckets of
  the same idle key, and each finds a full burst: the key gets up to twice its capacity at
  one instant.
\<close>

theorem sweep_race_doubles_burst:
  assumes "tb_wf tb" and "tb_store tb key = Some r"
    and "bk_lastRefill (tb_buckets tb ! r) < now - tb_evictionTTL tb" and "0 \<le> tb_evictionTTL tb"
    and "tb_burstSize tb = Fin B" and "repr B" and "1 \<le> B" and "B \<le> 2 ^ 53" and "tb_rate tb = Fin rate"
  shows "let (r1, tb1) = tb_load now key tb;
             (r2, tb2) = tb_load now key (tb_sweep now tb1);
             (res1, tb3) = tb_take now r1 tb2;
             (res2, tb4) = tb_take now r2 tb3
         in res1 = (True, Fin (B - 1)) \<and> res2 = (True, Fin (B - 1))"
proof -
  have r: "r < length (tb_buckets tb)" using assms(1,2) by (auto simp: tb_wf_def)
  let ?full = "\<lparr>bk_tokens = Fin B, bk_lastRefill = now\<rparr>" and ?n = "length (tb_buckets tb)"
  let ?tb1 = "tb_sweep now tb"
  have l1: "tb_load now key tb = (r, tb)" using assms(2) by (simp add: tb_load_def)
  have l2: "tb_load now key ?tb1 = (?n, ?tb1\<lparr>tb_store := (tb_store ?tb1)(key \<mapsto> ?n),
      tb_buckets := tb_buckets tb @ [?full]\<rparr>)" (is "_ = (_, ?tb2)")
    using assms(2,3,5) by (simp add: tb_load_def tb_sweep_def Let_def)
  obtain res1 b1 where t1: "bucket_take now (Fin rate) (Fin B) (tb_evictionTTL tb) (tb_buckets tb ! r) = (res1, b1)"
    by fastforce
  obtain res2 b2 where t2: "bucket_take now (Fin rate) (Fin B) (tb_evictionTTL tb) ?full = (res2, b2)" by fastforce
  have res: "res1 = (True, Fin (B - 1))" "res2 = (True, Fin (B - 1))"
    using bucket_take_fresh [OF assms(6-8,4), of now "tb_buckets tb ! r" rate]
      bucket_take_fresh [OF assms(6-8,4), of now ?full rate] assms(3) t1 t2 by simp_all
  have k1: "tb_take now r ?tb2 = (res1, ?tb2\<lparr>tb_buckets := (tb_buckets tb)[r := b1] @ [?full]\<rparr>)" (is "_ = (_, ?tb3)")
    using r t1 assms(5,9) by (simp add: tb_take_def tb_sweep_def Let_def nth_append list_update_append)
  have k2: "fst (tb_take now ?n ?tb3) = res2"
    using t2 assms(5,9) by (simp add: tb_take_def tb_sweep_def Let_def nth_append)
  show ?thesis using res k2 by (simp add: l1 l2 k1 split: prod.split) auto
qed

theorem sweep_race_doubles_burst_witness:
  "let tb = \<lparr>tb_rate = Fin 1, tb_burstSize = Fin 1, tb_evictionTTL = 10, tb_store = [''k'' \<mapsto> 0],
        tb_buckets = [\<lparr>bk_tokens = Fin 0, bk_lastRefill = 0\<rparr>], tb_stopped = False\<rparr>;
       (r1, tb1) = tb_load 11 ''k'' tb;
       (r2, tb2) = tb_load 11 ''k'' (tb_sweep 11 tb1);
       (res1, tb3) = tb_take 11 r1 tb2;
       (res2, tb4) = tb_take 11 r2 tb3
   in res1 = (True, Fin (1 - 1)) \<and> res2 = (True, Fin (1 - 1))"
  unfolding Let_def [of "\<lparr>tb_rate = Fin 1, tb_burstSize = Fin 1, tb_evictionTTL = 10, tb_store = [''k'' \<mapsto> 0],
        tb_buckets = [\<lparr>bk_tokens = Fin 0, bk_lastRefill = 0\<rparr>], tb_stopped = False\<rparr>"]
  by (rule sweep_race_doubles_burst [where r = 0 and rate = 1]) (auto simp: tb_wf_def split: if_splits)

end
