(* ===== verification/Redis_Script.thy ===== *)
theory Redis_Script
  imports Token_Bucket "HOL-Library.Finite_Map"
begin

section \<open>The sliding window in Redis (\<open>luaSlidingWindow\<close> of \<open>pkg/ratelimit/redis.go\<close>)\<close>

text \<open>
  A sliding window kept in Redis by a Lua script. The script is translated; the Redis commands
  it calls are the parameter \<open>redis_ops\<close>, and \<open>redis_ok\<close> states what Redis documents of them.
  On every store that behaves so the script answers what a log of granted requests answers.
\<close>

subsection \<open>The Lua script\<close>

text \<open>
  The commands the script calls. \<open>ro_at t\<close> is the store as the server presents it at
  server time \<open>t\<close> in milliseconds: keys whose time to live is over are gone.
\<close>

record 'r redis_ops =
  ro_at :: "int \<Rightarrow> 'r \<Rightarrow> 'r"
  ro_zremrangebyscore :: "string \<Rightarrow> int \<Rightarrow> int \<Rightarrow> 'r \<Rightarrow> 'r"
  ro_zcard :: "string \<Rightarrow> 'r \<Rightarrow> int"
  ro_incr :: "string \<Rightarrow> 'r \<Rightarrow> int \<times> 'r"
  ro_zadd :: "string \<Rightarrow> int \<Rightarrow> string \<Rightarrow> 'r \<Rightarrow> 'r"
  ro_pexpire :: "string \<Rightarrow> int \<Rightarrow> 'r \<Rightarrow> 'r"

text \<open>\<open>TIME\<close> answers seconds and microseconds.\<close>

definition redis_nowMs :: "int \<times> int \<Rightarrow> int" where
  "redis_nowMs t = fst t * 1000 + snd t div 1000"

abbreviation seq_key :: "string \<Rightarrow> string" where "seq_key key \<equiv> key @ '':seq''"

definition luaSlidingWindow ::
  "'r redis_ops \<Rightarrow> int \<times> int \<Rightarrow> string \<Rightarrow> int \<Rightarrow> int \<Rightarrow> 'r \<Rightarrow> int list \<times> 'r" where
  "luaSlidingWindow ops t key window limit r0 =
     (let nowMs = redis_nowMs t;
          r = ro_at ops nowMs r0;
          winStart = nowMs - window;
          r1 = ro_zremrangebyscore ops key 0 winStart r;
          count = ro_zcard ops key r1
      in if count < limit then
           let (sq, r2) = ro_incr ops (seq_key key) r1;
               member = itoa nowMs @ '':'' @ itoa sq;
               r3 = ro_zadd ops key nowMs member r2;
               r4 = ro_pexpire ops key (window + 1000) r3;
               r5 = ro_pexpire ops (seq_key key) (window + 1000) r4
           in ([1, limit - count - 1], r5)
         else ([0, 0], r1))"

subsection \<open>What Redis documents of the commands\<close>

text \<open>
  The contract is stated over an observation of the store: the sorted set and the counter
  at a key, the key's deadline, and the server clock. A command on a key of another type is
  an error in Redis, so each law asks for a key that holds no value of the other type.
\<close>

record 'r redis_view =
  rv_zset :: "'r \<Rightarrow> string \<Rightarrow> string \<rightharpoonup> int"
  rv_count :: "'r \<Rightarrow> string \<Rightarrow> int"
  rv_deadline :: "'r \<Rightarrow> string \<Rightarrow> int option"
  rv_now :: "'r \<Rightarrow> int"

definition expired :: "'r redis_view \<Rightarrow> int \<Rightarrow> 'r \<Rightarrow> string \<Rightarrow> bool" where
  "expired v t r k = (case rv_deadline v r k of Some d \<Rightarrow> d \<le> t | None \<Rightarrow> False)"

definition redis_time_ok :: "'r redis_ops \<Rightarrow> 'r redis_view \<Rightarrow> bool" where
  "redis_time_ok ops v \<longleftrightarrow> (\<forall>t r. rv_now v (ro_at ops t r) = t)
     \<and> (\<forall>t r k. rv_zset v (ro_at ops t r) k = (if expired v t r k then Map.empty else rv_zset v r k))
     \<and> (\<forall>t r k. rv_count v (ro_at ops t r) k = (if expired v t r k then 0 else rv_count v r k))
     \<and> (\<forall>t r k. rv_deadline v (ro_at ops t r) k = (if expired v t r k then None else rv_deadline v r k))"

definition redis_zset_ok :: "'r redis_ops \<Rightarrow> 'r redis_view \<Rightarrow> bool" where
  "redis_zset_ok ops v \<longleftrightarrow> (\<forall>r k. finite (dom (rv_zset v r k)) \<and> ro_zcard ops k r = int (card (dom (rv_zset v r k))))
     \<and> (\<forall>k lo hi r. rv_count v r k = 0 \<longrightarrow>
          rv_zset v (ro_zremrangebyscore ops k lo hi r) =
            (rv_zset v r)(k := rv_zset v r k |` {m. \<forall>s. rv_zset v r k m = Some s \<longrightarrow> \<not> (lo \<le> s \<and> s \<le> hi)})
          \<and> rv_count v (ro_zremrangebyscore ops k lo hi r) = rv_count v r
          \<and> rv_now v (ro_zremrangebyscore ops k lo hi r) = rv_now v r
          \<and> (\<forall>k'. k' \<noteq> k \<or> dom (rv_zset v (ro_zremrangebyscore ops k lo hi r) k') \<noteq> {} \<longrightarrow>
               rv_deadline v (ro_zremrangebyscore ops k lo hi r) k' = rv_deadline v r k'))
     \<and> (\<forall>k s m r. rv_count v r k = 0 \<longrightarrow>
          rv_zset v (ro_zadd ops k s m r) = (rv_zset v r)(k := (rv_zset v r k)(m \<mapsto> s))
          \<and> rv_count v (ro_zadd ops k s m r) = rv_count v r
          \<and> rv_now v (ro_zadd ops k s m r) = rv_now v r
          \<and> rv_deadline v (ro_zadd ops k s m r) = rv_deadline v r)"

definition redis_key_ok :: "'r redis_ops \<Rightarrow> 'r redis_view \<Rightarrow> bool" where
  "redis_key_ok ops v \<longleftrightarrow> (\<forall>k r n r'. rv_zset v r k = Map.empty \<longrightarrow> ro_incr ops k r = (n, r') \<longrightarrow>
          n = rv_count v r k + 1 \<and> rv_count v r' = (rv_count v r)(k := n) \<and> rv_zset v r' = rv_zset v r
          \<and> rv_now v r' = rv_now v r \<and> rv_deadline v r' = rv_deadline v r)
     \<and> (\<forall>k ms r. rv_zset v r k \<noteq> Map.empty \<or> rv_count v r k \<noteq> 0 \<longrightarrow>
          rv_deadline v (ro_pexpire ops k ms r) = (rv_deadline v r)(k \<mapsto> rv_now v r + ms)
          \<and> rv_zset v (ro_pexpire ops k ms r) = rv_zset v r \<and> rv_count v (ro_pexpire ops k ms r) = rv_count v r
          \<and> rv_now v (ro_pexpire ops k ms r) = rv_now v r)"

definition redis_ok :: "'r redis_ops \<Rightarrow> 'r redis_view \<Rightarrow> bool" where
  "redis_ok ops v \<longleftrightarrow> redis_time_ok ops v \<and> redis_zset_ok ops v \<and> redis_key_ok ops v"

subsection \<open>The sliding log\<close>

text \<open>
  The specification: a log of the granted requests; a request is granted when fewer than
  \<open>limit\<close> requests for its key were granted in the window that ends with it.
\<close>

definition in_window :: "int \<Rightarrow> int \<Rightarrow> string \<Rightarrow> (int \<times> string) list \<Rightarrow> nat" where
  "in_window window t key h = length (filter (\<lambda>(t', k). k = key \<and> t - window < t' \<and> t' \<le> t) h)"

fun sliding_log :: "int \<Rightarrow> int \<Rightarrow> (int \<times> string) list \<Rightarrow> (int \<times> string) list \<Rightarrow> int list list" where
  "sliding_log window limit [] h = []"
| "sliding_log window limit ((t, key) # es) h =
     (let c = int (in_window window t key h)
      in if c < limit then [1, limit - c - 1] # sliding_log window limit es (h @ [(t, key)])
         else [0, 0] # sliding_log window limit es h)"

text \<open>A run of the script by any number of gateways: Redis executes scripts one at a time.\<close>

fun script_run :: "'r redis_ops \<Rightarrow> int \<Rightarrow> int \<Rightarrow> ((int \<times> int) \<times> string) list \<Rightarrow> 'r \<Rightarrow> int list list" where
  "script_run ops window limit [] r = []"
| "script_run ops window limit ((t, key) # es) r =
     (let (reply, r') = luaSlidingWindow ops t key window limit r in reply # script_run ops window limit es r')"

subsection \<open>The script implements the sliding log\<close>

definition member :: "int \<Rightarrow> int \<Rightarrow> string" where
  "member s n = itoa s @ '':'' @ itoa n"

lemma member_inj [simp]: "member s n = member s' n' \<longleftrightarrow> s = s' \<and> n = n'"
  using append_sep_inj [OF itoa_no_colon itoa_no_colon] by (simp add: member_def)

text \<open>What the store holds for one key, after scripts up to time \<open>T\<close> granted \<open>ts\<close>.\<close>

definition key_inv :: "'r redis_view \<Rightarrow> int \<Rightarrow> int \<Rightarrow> string \<Rightarrow> int list \<Rightarrow> 'r \<Rightarrow> bool" where
  "key_inv v window T key ts r \<longleftrightarrow> rv_count v r key = 0 \<and> rv_zset v r (seq_key key) = Map.empty
     \<and> 0 \<le> rv_count v r (seq_key key)
     \<and> (\<forall>m s. rv_zset v r key m = Some s \<longrightarrow> 0 \<le> s \<and> s \<le> T
          \<and> (\<exists>n. m = member s n \<and> (T - window < s \<longrightarrow> n \<le> rv_count v r (seq_key key))))
     \<and> (\<forall>m s d. rv_zset v r key m = Some s \<longrightarrow>
          rv_deadline v r key = Some d \<or> rv_deadline v r (seq_key key) = Some d \<longrightarrow> s + window < d)
     \<and> (\<forall>t \<in> set ts. t \<le> T)
     \<and> (\<forall>U \<ge> T. card {m. \<exists>s. rv_zset v r key m = Some s \<and> U - window < s} = length (filter (\<lambda>t. U - window < t) ts))"

definition same_at :: "'r redis_view \<Rightarrow> string \<Rightarrow> 'r \<Rightarrow> 'r \<Rightarrow> bool" where
  "same_at v k r r' \<longleftrightarrow> rv_zset v r' k = rv_zset v r k \<and> rv_count v r' k = rv_count v r k
     \<and> rv_deadline v r' k = rv_deadline v r k"

lemma key_inv_same:
  "key_inv v window T key ts r \<Longrightarrow> same_at v key r r' \<Longrightarrow> same_at v (seq_key key) r r' \<Longrightarrow>
    key_inv v window T key ts r'"
  by (simp add: key_inv_def same_at_def)

lemma key_inv_at:
  assumes ok: "redis_time_ok ops v" and inv: "key_inv v window T key ts r" and "T \<le> t"
  shows "key_inv v window t key ts (ro_at ops t r)"
proof -
  let ?r = "ro_at ops t r"
  have z: "rv_zset v ?r k = (if expired v t r k then Map.empty else rv_zset v r k)"
    and c: "rv_count v ?r k = (if expired v t r k then 0 else rv_count v r k)"
    and d: "rv_deadline v ?r k = (if expired v t r k then None else rv_deadline v r k)" for k
    using ok by (simp_all add: redis_time_ok_def)
  have dead: "s + window < d" if "rv_zset v r key m = Some s"
    "rv_deadline v r key = Some d \<or> rv_deadline v r (seq_key key) = Some d" for m s d
    using inv that unfolding key_inv_def by blast
  have old: "s + window < t" if "rv_zset v r key m = Some s" "expired v t r key \<or> expired v t r (seq_key key)" for m s
  proof -
    note m = that
    obtain d where "rv_deadline v r key = Some d \<or> rv_deadline v r (seq_key key) = Some d" "d \<le> t"
      using m(2) by (auto simp: expired_def split: option.splits)
    then show ?thesis using dead [OF m(1)] by force
  qed
  have card: "card {m. \<exists>s. rv_zset v ?r key m = Some s \<and> U - window < s} = length (filter (\<lambda>t. U - window < t) ts)"
    if "t \<le> U" for U
  proof -
    have "(\<exists>s. rv_zset v ?r key m = Some s \<and> U - window < s) \<longleftrightarrow>
        (\<exists>s. rv_zset v r key m = Some s \<and> U - window < s)" for m
    proof (cases "rv_zset v r key m")
      case (Some s)
      show ?thesis using old [OF Some] that by (auto simp: z Some)
    qed (simp add: z)
    then show ?thesis using inv that assms(3) by (simp add: key_inv_def)
  qed
  have mem: "\<exists>n. m = member s n \<and> (t - window < s \<longrightarrow> n \<le> rv_count v ?r (seq_key key))"
    if m: "rv_zset v ?r key m = Some s" for m s
  proof -
    have "rv_zset v r key m = Some s" using m by (simp add: z split: if_splits)
    moreover from this obtain n where "m = member s n" "T - window < s \<longrightarrow> n \<le> rv_count v r (seq_key key)"
      using inv by (auto simp: key_inv_def)
    ultimately show ?thesis using old [of m s] assms(3) by (auto simp: c)
  qed
  have "0 \<le> s \<and> s \<le> t" if m: "rv_zset v ?r key m = Some s" for m s
    using m inv assms(3) by (fastforce simp: z key_inv_def split: if_splits)
  moreover have "s + window < d'" if m: "rv_zset v ?r key m = Some s"
    "rv_deadline v ?r key = Some d' \<or> rv_deadline v ?r (seq_key key) = Some d'" for m s d'
    using m dead [of m s d'] by (auto simp: z d split: if_splits)
  moreover have "\<forall>t' \<in> set ts. t' \<le> t" using inv assms(3) by (auto simp: key_inv_def)
  moreover have "rv_count v ?r key = 0" "rv_zset v ?r (seq_key key) = Map.empty" "0 \<le> rv_count v ?r (seq_key key)"
    using inv by (simp_all add: key_inv_def z c)
  ultimately show ?thesis unfolding key_inv_def using mem card by simp
qed

lemma key_inv_grant:
  assumes inv: "key_inv v window t key ts r" and "0 < window"
    and z: "rv_zset v r' key = (rv_zset v r key)(member t (rv_count v r (seq_key key) + 1) \<mapsto> t)"
    and live: "\<forall>m s. rv_zset v r key m = Some s \<longrightarrow> t - window < s"
    and rest: "rv_zset v r' (seq_key key) = Map.empty" "rv_count v r' key = 0"
      "rv_count v r' (seq_key key) = rv_count v r (seq_key key) + 1"
      "rv_deadline v r' key = Some (t + (window + 1000))" "rv_deadline v r' (seq_key key) = Some (t + (window + 1000))"
    and fin: "finite (dom (rv_zset v r key))" and "0 \<le> t"
  shows "key_inv v window t key (ts @ [t]) r'"
proof -
  let ?n = "rv_count v r (seq_key key) + 1"
  have fresh: "rv_zset v r key (member t ?n) = None"
  proof (rule ccontr)
    assume "rv_zset v r key (member t ?n) \<noteq> None"
    then obtain s where "rv_zset v r key (member t ?n) = Some s" by auto
    moreover from this have "\<exists>n. member t ?n = member s n \<and> n \<le> rv_count v r (seq_key key)"
      using inv live by (fastforce simp: key_inv_def)
    ultimately show False by simp
  qed
  have card: "card {m. \<exists>s. rv_zset v r' key m = Some s \<and> U - window < s} =
      length (filter (\<lambda>t. U - window < t) (ts @ [t]))" if "t \<le> U" for U
  proof -
    let ?old = "{m. \<exists>s. rv_zset v r key m = Some s \<and> U - window < s}"
    have "{m. \<exists>s. rv_zset v r' key m = Some s \<and> U - window < s} =
        (if U - window < t then insert (member t ?n) ?old else ?old)"
      using fresh by (auto simp: z split: if_splits)
    moreover have "finite ?old" by (rule finite_subset [OF _ fin]) auto
    moreover have "member t ?n \<notin> ?old" using fresh by simp
    moreover have "card ?old = length (filter (\<lambda>t. U - window < t) ts)" using inv that by (simp add: key_inv_def)
    ultimately show ?thesis by simp
  qed
  have "\<exists>n. m = member s n \<and> (t - window < s \<longrightarrow> n \<le> ?n)" if m: "rv_zset v r' key m = Some s" for m s
  proof (cases "m = member t ?n")
    case False
    then have "rv_zset v r key m = Some s" using m by (simp add: z)
    then have "\<exists>n. m = member s n \<and> (t - window < s \<longrightarrow> n \<le> rv_count v r (seq_key key))"
      using inv by (simp add: key_inv_def)
    then show ?thesis by fastforce
  qed (use m z in auto)
  moreover have "0 \<le> s \<and> s \<le> t" if m: "rv_zset v r' key m = Some s" for m s
    using m inv \<open>0 \<le> t\<close> by (auto simp: z key_inv_def split: if_splits)
  ultimately show ?thesis using inv card rest assms(2) unfolding key_inv_def by fastforce
qed

text \<open>One run of the script: its reply, its effect on its own key, and that it leaves others alone.\<close>

lemma zset_after_evict:
  assumes ok: "redis_zset_ok ops v" and inv: "key_inv v window t key ts r"
  defines "r1 \<equiv> ro_zremrangebyscore ops key 0 (t - window) r"
  shows "rv_zset v r1 = (rv_zset v r)(key := rv_zset v r key |` {m. \<exists>s. rv_zset v r key m = Some s \<and> t - window < s})"
    and "rv_count v r1 = rv_count v r" and "rv_now v r1 = rv_now v r"
    and "k \<noteq> key \<Longrightarrow> rv_deadline v r1 k = rv_deadline v r k"
    and "rv_zset v r1 key m = Some s \<Longrightarrow> rv_deadline v r1 key = rv_deadline v r key"
    and "ro_zcard ops key r1 = int (length (filter (\<lambda>t'. t - window < t') ts))"
proof -
  have c: "rv_count v r key = 0" using inv by (simp add: key_inv_def)
  have law: "rv_zset v r1 = (rv_zset v r)(key := rv_zset v r key |` {m. \<forall>s. rv_zset v r key m = Some s \<longrightarrow> \<not> (0 \<le> s \<and> s \<le> t - window)})
      \<and> rv_count v r1 = rv_count v r \<and> rv_now v r1 = rv_now v r
      \<and> (\<forall>k'. k' \<noteq> key \<or> dom (rv_zset v r1 k') \<noteq> {} \<longrightarrow> rv_deadline v r1 k' = rv_deadline v r k')"
    using ok c unfolding redis_zset_ok_def r1_def by blast
  have nn: "0 \<le> s" if "rv_zset v r key m = Some s" for m s
    using inv that unfolding key_inv_def by blast
  have res: "rv_zset v r key |` {m. \<forall>s. rv_zset v r key m = Some s \<longrightarrow> \<not> (0 \<le> s \<and> s \<le> t - window)}
      = rv_zset v r key |` {m. \<exists>s. rv_zset v r key m = Some s \<and> t - window < s}"
  proof
    show "(rv_zset v r key |` {m. \<forall>s. rv_zset v r key m = Some s \<longrightarrow> \<not> (0 \<le> s \<and> s \<le> t - window)}) m
      = (rv_zset v r key |` {m. \<exists>s. rv_zset v r key m = Some s \<and> t - window < s}) m" for m
      by (cases "rv_zset v r key m") (auto simp: restrict_map_def dest: nn)
  qed
  show z: "rv_zset v r1 = (rv_zset v r)(key := rv_zset v r key |` {m. \<exists>s. rv_zset v r key m = Some s \<and> t - window < s})"
    using law unfolding res by blast
  show "rv_count v r1 = rv_count v r" "rv_now v r1 = rv_now v r" using law by blast+
  show "k \<noteq> key \<Longrightarrow> rv_deadline v r1 k = rv_deadline v r k" using law by blast
  show "rv_zset v r1 key m = Some s \<Longrightarrow> rv_deadline v r1 key = rv_deadline v r key" using law by blast
  have "dom (rv_zset v r1 key) = {m. \<exists>s. rv_zset v r key m = Some s \<and> t - window < s}"
    by (auto simp: z restrict_map_def dom_def split: if_splits)
  moreover have "ro_zcard ops key r1 = int (card (dom (rv_zset v r1 key)))"
    using ok by (simp add: redis_zset_ok_def)
  moreover have "card {m. \<exists>s. rv_zset v r key m = Some s \<and> t - window < s} = length (filter (\<lambda>t'. t - window < t') ts)"
    using inv by (simp add: key_inv_def)
  ultimately show "ro_zcard ops key r1 = int (length (filter (\<lambda>t'. t - window < t') ts))" by simp
qed

lemma key_inv_evict:
  assumes ok: "redis_zset_ok ops v" and inv: "key_inv v window t key ts r"
  shows "key_inv v window t key ts (ro_zremrangebyscore ops key 0 (t - window) r)"
proof -
  let ?r1 = "ro_zremrangebyscore ops key 0 (t - window) r"
  note e = zset_after_evict [OF ok inv]
  have sub: "rv_zset v ?r1 key m = Some s \<longleftrightarrow> rv_zset v r key m = Some s \<and> t - window < s" for m s
    by (auto simp: e(1) restrict_map_def split: if_splits)
  have dl: "rv_deadline v ?r1 (seq_key key) = rv_deadline v r (seq_key key)" by (rule e(4)) simp
  have "{m. \<exists>s. rv_zset v ?r1 key m = Some s \<and> U - window < s} =
      {m. \<exists>s. rv_zset v r key m = Some s \<and> U - window < s}" if "t \<le> U" for U
    using that by (auto simp: sub)
  moreover have "s + window < d" if m: "rv_zset v ?r1 key m = Some s"
    "rv_deadline v ?r1 key = Some d \<or> rv_deadline v ?r1 (seq_key key) = Some d" for m s d
  proof -
    have "rv_deadline v r key = Some d \<or> rv_deadline v r (seq_key key) = Some d"
      using m(2) e(5) [OF m(1)] dl by simp
    moreover have "rv_zset v r key m = Some s" using m(1) sub by simp
    ultimately show ?thesis using inv unfolding key_inv_def by blast
  qed
  moreover have "0 \<le> s \<and> s \<le> t \<and> (\<exists>n. m = member s n \<and> (t - window < s \<longrightarrow> n \<le> rv_count v ?r1 (seq_key key)))"
    if "rv_zset v ?r1 key m = Some s" for m s
    using inv that unfolding key_inv_def sub e(2) by blast
  moreover have "rv_zset v ?r1 (seq_key key) = rv_zset v r (seq_key key)" by (simp add: e(1))
  ultimately show ?thesis using inv unfolding key_inv_def e(2) by simp
qed

lemma script_effect:
  assumes ok: "redis_ok ops v" and inv: "key_inv v window T key ts r0"
    and T: "T \<le> redis_nowMs tm" "0 < window" "0 \<le> redis_nowMs tm"
    and run: "luaSlidingWindow ops tm key window limit r0 = (reply, r')"
  defines "t \<equiv> redis_nowMs tm" and "c \<equiv> int (length (filter (\<lambda>t'. redis_nowMs tm - window < t') ts))"
  shows "reply = (if c < limit then [1, limit - c - 1] else [0, 0])"
    and "key_inv v window t key (if c < limit then ts @ [t] else ts) r'"
    and "k \<noteq> key \<Longrightarrow> k \<noteq> seq_key key \<Longrightarrow> same_at v k (ro_at ops t r0) r'"
proof -
  have zk: "redis_zset_ok ops v" and kk: "redis_key_ok ops v" and tk: "redis_time_ok ops v"
    using ok by (simp_all add: redis_ok_def)
  let ?r = "ro_at ops t r0"
  have i: "key_inv v window t key ts ?r" using key_inv_at [OF tk inv] T by (simp add: t_def)
  define r1 where "r1 = ro_zremrangebyscore ops key 0 (t - window) ?r"
  note e = zset_after_evict [OF zk i, folded r1_def]
  have i1: "key_inv v window t key ts r1" using key_inv_evict [OF zk i] by (simp add: r1_def)
  have c: "ro_zcard ops key r1 = c" using e(6) by (simp add: c_def t_def)
  have now1: "rv_now v r1 = t" using e(3) tk by (simp add: redis_time_ok_def)
  have s1: "same_at v k ?r r1" if "k \<noteq> key" for k
    using that by (simp add: same_at_def e)
  have f1: "rv_count v r1 key = 0" "rv_zset v r1 (seq_key key) = Map.empty" "0 \<le> rv_count v r1 (seq_key key)"
    using i1 by (simp_all add: key_inv_def)
  show "reply = (if c < limit then [1, limit - c - 1] else [0, 0])"
    using run c by (auto simp: luaSlidingWindow_def Let_def r1_def t_def split: prod.splits if_splits)
  have both: "key_inv v window t key (if c < limit then ts @ [t] else ts) r' \<and>
      (\<forall>k. k \<noteq> key \<longrightarrow> k \<noteq> seq_key key \<longrightarrow> same_at v k ?r r')"
  proof (cases "c < limit")
    case False
    then have "r' = r1" using run c by (simp add: luaSlidingWindow_def Let_def r1_def t_def split: prod.splits)
    then show ?thesis using False i1 s1 by simp
  next
    case True
    obtain n r2 where incr: "ro_incr ops (seq_key key) r1 = (n, r2)" by fastforce
    have r2: "n = rv_count v r1 (seq_key key) + 1" "rv_count v r2 = (rv_count v r1)(seq_key key := n)"
      "rv_zset v r2 = rv_zset v r1" "rv_now v r2 = t" "rv_deadline v r2 = rv_deadline v r1"
      using kk f1(2) incr now1 unfolding redis_key_ok_def by metis+
    define r3 where "r3 = ro_zadd ops key t (member t n) r2"
    have "rv_count v r2 key = 0" using f1(1) by (simp add: r2(2))
    then have r3: "rv_zset v r3 = (rv_zset v r2)(key := (rv_zset v r2 key)(member t n \<mapsto> t))"
      "rv_count v r3 = rv_count v r2" "rv_now v r3 = t" "rv_deadline v r3 = rv_deadline v r2"
      using zk r2(4) unfolding redis_zset_ok_def r3_def by blast+
    define r4 where "r4 = ro_pexpire ops key (window + 1000) r3"
    have "rv_zset v r3 key \<noteq> Map.empty" by (simp add: r3(1))
    then have r4: "rv_deadline v r4 = (rv_deadline v r3)(key \<mapsto> t + (window + 1000))" "rv_zset v r4 = rv_zset v r3"
      "rv_count v r4 = rv_count v r3" "rv_now v r4 = t"
      using kk r3(3) unfolding redis_key_ok_def r4_def by metis+
    have "rv_count v r4 (seq_key key) \<noteq> 0" using f1(3) by (simp add: r4 r3 r2)
    moreover have "r' = ro_pexpire ops (seq_key key) (window + 1000) r4"
      using run c True incr by (simp add: luaSlidingWindow_def Let_def r1_def t_def r4_def r3_def member_def)
    ultimately have r5: "rv_deadline v r' = (rv_deadline v r4)(seq_key key \<mapsto> t + (window + 1000))"
      "rv_zset v r' = rv_zset v r4" "rv_count v r' = rv_count v r4"
      using kk r4(4) unfolding redis_key_ok_def by metis+
    have "key_inv v window t key (ts @ [t]) r'"
    proof (rule key_inv_grant [OF i1 T(2)])
      show "finite (dom (rv_zset v r1 key))" using zk by (simp add: redis_zset_ok_def)
      show "\<forall>m s. rv_zset v r1 key m = Some s \<longrightarrow> t - window < s"
        by (auto simp: e(1) restrict_map_def split: if_splits)
    qed (use T(3) f1 in \<open>simp_all add: r5 r4 r3 r2 t_def\<close>)
    moreover have "same_at v k ?r r'" if "k \<noteq> key" "k \<noteq> seq_key key" for k
      using s1 [OF that(1)] that by (simp add: same_at_def r5 r4 r3 r2)
    ultimately show ?thesis using True by simp
  qed
  then show "key_inv v window t key (if c < limit then ts @ [t] else ts) r'" by blast
  show "k \<noteq> key \<Longrightarrow> k \<noteq> seq_key key \<Longrightarrow> same_at v k ?r r'" using both by blast
qed

text \<open>The times at which a log granted requests for one key.\<close>

abbreviation grants_of :: "string \<Rightarrow> (int \<times> string) list \<Rightarrow> int list" where
  "grants_of key h \<equiv> map fst (filter (\<lambda>(t, k). k = key) h)"

lemma in_window_grants:
  "\<forall>t' \<in> set (grants_of key h). t' \<le> t \<Longrightarrow>
    in_window window t key h = length (filter (\<lambda>t'. t - window < t') (grants_of key h))"
  by (induction h) (auto simp: in_window_def)

lemma script_run_log:
  assumes ok: "redis_ok ops v" and w: "0 < window"
    and keys: "\<forall>k \<in> K. seq_key k \<notin> K"
    and "\<forall>k \<in> K. key_inv v window T k (grants_of k h) r"
    and "\<forall>(tm, k) \<in> set es. k \<in> K \<and> 0 \<le> redis_nowMs tm \<and> T \<le> redis_nowMs tm"
    and "sorted (map (redis_nowMs \<circ> fst) es)"
  shows "script_run ops window limit es r = sliding_log window limit (map (\<lambda>(tm, k). (redis_nowMs tm, k)) es) h"
  using assms(4-6)
proof (induction es arbitrary: T h r)
  case (Cons e es)
  obtain tm key where e: "e = (tm, key)" by fastforce
  let ?t = "redis_nowMs tm"
  obtain reply r' where run: "luaSlidingWindow ops tm key window limit r = (reply, r')" by fastforce
  have k: "key \<in> K" "0 \<le> ?t" "T \<le> ?t" and inv: "key_inv v window T key (grants_of key h) r"
    using Cons.prems e by auto
  note eff = script_effect [OF ok inv k(3) w k(2) run]
  define c where "c = int (length (filter (\<lambda>t'. ?t - window < t') (grants_of key h)))"
  have "\<forall>t' \<in> set (grants_of key h). t' \<le> ?t" using inv k(3) by (fastforce simp: key_inv_def)
  then have c: "int (in_window window ?t key h) = c" by (simp add: in_window_grants c_def)
  let ?h = "if c < limit then h @ [(?t, key)] else h"
  have "key_inv v window ?t k (grants_of k ?h) r'" if kK: "k \<in> K" for k
  proof (cases "k = key")
    case True
    then show ?thesis using eff(2) [folded c_def] by (cases "c < limit") simp_all
  next
    case False
    have "key_inv v window ?t k (grants_of k h) (ro_at ops ?t r)"
      using ok Cons.prems(1) kK by (intro key_inv_at [OF _ _ k(3)]) (simp_all add: redis_ok_def)
    moreover have "k \<noteq> seq_key key" "seq_key k \<noteq> key" using keys kK k(1) by auto
    ultimately have "key_inv v window ?t k (grants_of k h) r'"
      using False by (intro key_inv_same [OF _ eff(3) eff(3)]) auto
    then show ?thesis using False by simp
  qed
  then have "script_run ops window limit es r' =
      sliding_log window limit (map (\<lambda>(tm, k). (redis_nowMs tm, k)) es) ?h"
    using Cons.prems(2,3) e by (intro Cons.IH [of ?t]) auto
  then show ?case using run eff(1) c e by (simp add: c_def)
qed simp

text \<open>
  C19: The Lua script is the sliding log: on any Redis that behaves as documented, any
  sequence of its runs by any number of gateways, for keys none of which is another's
  sequence key, answers exactly what the log answers. The counter that names the members,
  the eviction of old members and the expiry of idle keys never lose or double a request.
\<close>

theorem script_refines_sliding_log:
  assumes "redis_ok ops v" and "0 < window" and "\<forall>k \<in> K. seq_key k \<notin> K"
    and "\<forall>k. rv_zset v r k = Map.empty \<and> rv_count v r k = 0"
    and "\<forall>(tm, k) \<in> set es. k \<in> K \<and> 0 \<le> redis_nowMs tm" and "sorted (map (redis_nowMs \<circ> fst) es)"
  shows "script_run ops window limit es r
    = sliding_log window limit (map (\<lambda>(tm, k). (redis_nowMs tm, k)) es) []"
proof (rule script_run_log [where T = 0])
  show "\<forall>k \<in> K. key_inv v window 0 k (grants_of k []) r"
    using assms(4) by (simp add: key_inv_def)
  show "\<forall>(tm, k) \<in> set es. k \<in> K \<and> 0 \<le> redis_nowMs tm \<and> 0 \<le> redis_nowMs tm"
    using assms(5) by auto
qed (use assms in auto)

text \<open>A store that meets the contract.\<close>

record small_redis =
  sr_zset :: "string \<Rightarrow> (string, int) fmap"
  sr_count :: "string \<Rightarrow> int"
  sr_deadline :: "string \<Rightarrow> int option"
  sr_now :: int

definition small_ops :: "small_redis redis_ops" where
  "small_ops =
    \<lparr>ro_at = (\<lambda>t r. let dead = (\<lambda>k. case sr_deadline r k of Some d \<Rightarrow> d \<le> t | None \<Rightarrow> False)
        in \<lparr>sr_zset = (\<lambda>k. if dead k then fmempty else sr_zset r k),
            sr_count = (\<lambda>k. if dead k then 0 else sr_count r k),
            sr_deadline = (\<lambda>k. if dead k then None else sr_deadline r k), sr_now = t\<rparr>),
     ro_zremrangebyscore = (\<lambda>k lo hi r. r\<lparr>sr_zset := (sr_zset r)(k :=
        fmfilter (\<lambda>m. \<not> (\<exists>s. fmlookup (sr_zset r k) m = Some s \<and> lo \<le> s \<and> s \<le> hi)) (sr_zset r k))\<rparr>),
     ro_zcard = (\<lambda>k r. int (card (fset (fmdom (sr_zset r k))))),
     ro_incr = (\<lambda>k r. (sr_count r k + 1, r\<lparr>sr_count := (sr_count r)(k := sr_count r k + 1)\<rparr>)),
     ro_zadd = (\<lambda>k s m r. r\<lparr>sr_zset := (sr_zset r)(k := fmupd m s (sr_zset r k))\<rparr>),
     ro_pexpire = (\<lambda>k ms r. r\<lparr>sr_deadline := (sr_deadline r)(k \<mapsto> sr_now r + ms)\<rparr>)\<rparr>"

definition small_view :: "small_redis redis_view" where
  "small_view = \<lparr>rv_zset = (\<lambda>r k. fmlookup (sr_zset r k)), rv_count = sr_count,
     rv_deadline = sr_deadline, rv_now = sr_now\<rparr>"

definition small_empty :: small_redis where
  "small_empty = \<lparr>sr_zset = (\<lambda>_. fmempty), sr_count = (\<lambda>_. 0), sr_deadline = (\<lambda>_. None), sr_now = 0\<rparr>"

lemma fmlookup_fmempty: "fmlookup fmempty = Map.empty"
  by (simp add: fun_eq_iff)

lemma small_redis_ok: "redis_ok small_ops small_view"
proof -
  have "redis_time_ok small_ops small_view"
    by (simp add: redis_time_ok_def small_ops_def small_view_def Let_def expired_def fmlookup_fmempty)
  moreover have "redis_zset_ok small_ops small_view"
    unfolding redis_zset_ok_def small_ops_def small_view_def
    by (auto simp: fun_eq_iff restrict_map_def fmdom.rep_eq)
  moreover have "redis_key_ok small_ops small_view"
    by (auto simp: redis_key_ok_def small_ops_def small_view_def)
  ultimately show ?thesis by (simp add: redis_ok_def)
qed

theorem script_refines_sliding_log_witness:
  "script_run small_ops 1000 1 [((5, 0), ''a''), ((5, 7000), ''b''), ((5, 8000), ''a''), ((9, 0), ''a'')] small_empty
    = sliding_log 1000 1 [(5000, ''a''), (5007, ''b''), (5008, ''a''), (9000, ''a'')] []"
proof -
  have "script_run small_ops 1000 1 [((5, 0), ''a''), ((5, 7000), ''b''), ((5, 8000), ''a''), ((9, 0), ''a'')] small_empty
    = sliding_log 1000 1 (map (\<lambda>(tm, k). (redis_nowMs tm, k))
        [((5, 0), ''a''), ((5, 7000), ''b''), ((5, 8000), ''a''), ((9, 0), ''a'')]) []"
    by (rule script_refines_sliding_log [OF small_redis_ok, where K = "{''a'', ''b''}"])
      (simp_all add: small_view_def small_empty_def redis_nowMs_def fmlookup_fmempty)
  then show ?thesis by (simp add: redis_nowMs_def)
qed

text \<open>The requests of a list that the replies granted within the window ending at \<open>U\<close>.\<close>

definition granted_in :: "int \<Rightarrow> int \<Rightarrow> string \<Rightarrow> (int \<times> string) list \<Rightarrow> int list list \<Rightarrow> nat" where
  "granted_in window U key es replies =
     length (filter (\<lambda>((t, k), reply). k = key \<and> U - window < t \<and> t \<le> U \<and> hd reply = 1) (zip es replies))"

lemma in_window_mono:
  assumes "t \<le> U" and "\<forall>(t', k) \<in> set h. t' \<le> t"
  shows "in_window window U key h \<le> in_window window t key h"
proof -
  have "filter (\<lambda>(t', k). k = key \<and> U - window < t' \<and> t' \<le> U) h
      = filter (\<lambda>(t', k). U - window < t') (filter (\<lambda>(t', k). k = key \<and> t - window < t' \<and> t' \<le> t) h)"
    using assms by (auto simp: filter_filter intro!: filter_cong)
  then show ?thesis unfolding in_window_def by (simp only: length_filter_le)
qed

lemma log_bound:
  assumes "sorted (map fst es)" and "\<forall>(t', k) \<in> set h. \<forall>(t, k) \<in> set es. t' \<le> t"
    and "int (in_window window U key h) \<le> limit" and "0 \<le> limit"
  shows "int (in_window window U key h + granted_in window U key es (sliding_log window limit es h)) \<le> limit"
  using assms
proof (induction es arbitrary: h)
  case Nil
  then show ?case by (simp add: granted_in_def)
next
  case (Cons e es)
  obtain t k where e: "e = (t, k)" by fastforce
  let ?c = "int (in_window window t k h)"
  have h: "\<forall>(t', k) \<in> set h. t' \<le> t" using Cons.prems(2) e by fastforce
  have es: "sorted (map fst es)" "\<forall>(t', k) \<in> set es. t \<le> t'" using Cons.prems(1) e by auto
  show ?case
  proof (cases "?c < limit")
    case False
    have "int (in_window window U key h + granted_in window U key es (sliding_log window limit es h)) \<le> limit"
      using Cons.prems es by (intro Cons.IH) auto
    then show ?thesis using False e by (simp add: granted_in_def Let_def)
  next
    case True
    let ?hit = "k = key \<and> U - window < t \<and> t \<le> U"
    have h': "int (in_window window U key (h @ [(t, k)])) = int (in_window window U key h) + of_bool ?hit"
      by (simp add: in_window_def)
    have "int (in_window window U key (h @ [(t, k)])) \<le> limit"
      using in_window_mono [OF _ h, of U window key] True Cons.prems(3) unfolding h' by fastforce
    then have "int (in_window window U key (h @ [(t, k)])
        + granted_in window U key es (sliding_log window limit es (h @ [(t, k)]))) \<le> limit"
      using Cons.prems es h by (intro Cons.IH) (auto simp: split_beta)
    moreover have "granted_in window U key (e # es) (sliding_log window limit (e # es) h)
        = of_bool ?hit + granted_in window U key es (sliding_log window limit es (h @ [(t, k)]))"
      unfolding granted_in_def e sliding_log.simps Let_def if_P [OF True] by simp
    ultimately show ?thesis using h' by simp
  qed
qed

text \<open>
  C4: At most \<open>limit\<close> requests of one key are granted in any \<open>window\<close> milliseconds,
  however many gateways share the Redis.
\<close>

theorem redis_window_bound:
  assumes "redis_ok ops v" and "0 < window" and "0 \<le> limit" and "\<forall>k \<in> K. seq_key k \<notin> K"
    and "\<forall>k. rv_zset v r k = Map.empty \<and> rv_count v r k = 0"
    and "\<forall>(tm, k) \<in> set es. k \<in> K \<and> 0 \<le> redis_nowMs tm" and "sorted (map (redis_nowMs \<circ> fst) es)"
  shows "int (granted_in window U key (map (\<lambda>(tm, k). (redis_nowMs tm, k)) es)
    (script_run ops window limit es r)) \<le> limit"
proof -
  let ?es = "map (\<lambda>(tm, k). (redis_nowMs tm, k)) es"
  have "script_run ops window limit es r = sliding_log window limit ?es []"
  proof (rule script_run_log [where T = 0])
    show "\<forall>k \<in> K. key_inv v window 0 k (grants_of k []) r"
      using assms(5) by (simp add: key_inv_def)
    show "\<forall>(tm, k) \<in> set es. k \<in> K \<and> 0 \<le> redis_nowMs tm \<and> 0 \<le> redis_nowMs tm"
      using assms(6) by auto
  qed (use assms in auto)
  moreover have "map fst ?es = map (redis_nowMs \<circ> fst) es" by auto
  then have "sorted (map fst ?es)" using assms(7) by (simp only:)
  then have "int (in_window window U key [] + granted_in window U key ?es (sliding_log window limit ?es [])) \<le> limit"
    using assms(3) by (intro log_bound) (simp_all add: in_window_def)
  ultimately show ?thesis by (simp add: in_window_def)
qed

theorem redis_window_bound_witness:
  "int (granted_in 1000 5500 ''a'' (map (\<lambda>(tm, k). (redis_nowMs tm, k)) [((5, 0), ''a''), ((5, 8000), ''a'')])
    (script_run small_ops 1000 1 [((5, 0), ''a''), ((5, 8000), ''a'')] small_empty)) \<le> 1"
  by (rule redis_window_bound [OF small_redis_ok, where K = "{''a''}"])
    (simp_all add: small_view_def small_empty_def redis_nowMs_def fmlookup_fmempty)

end
