(* ===== verification/Circuit_Breaker.thy ===== *)
theory Circuit_Breaker
  imports Gw_Prelude
begin

section \<open>The circuit breaker (\<open>pkg/circuitbreaker\<close>)\<close>

text \<open>
  \<open>CircuitBreaker\<close> guards every network boundary of the gateway: services and
  instances in the proxy, the Redis limiter, the external plugins. The record holds
  the code's fields; the mutex makes each method one atomic step, so a method is a
  function from the state to the state (and the result). \<open>time.Now()\<close> is an argument.
  The \<open>onTransition\<close> callback is observed through \<open>cb_fired\<close>, the list of the calls
  made to it, newest last.
\<close>

datatype cb_state = StateClosed | StateOpen | StateHalfOpen

text \<open>\<open>State.String\<close>; its \<open>default\<close> branch is for values outside the three constants.\<close>

fun state_String :: "cb_state \<Rightarrow> string" where
  "state_String StateClosed = ''closed''"
| "state_String StateOpen = ''open''"
| "state_String StateHalfOpen = ''half_open''"

record cb_config =
  failure_threshold :: int
  success_threshold :: int
  reset_timeout :: duration

definition with_defaults :: "cb_config \<Rightarrow> cb_config" where
  "with_defaults c =
     (let c1 = (if failure_threshold c = 0 then c\<lparr>failure_threshold := 5\<rparr> else c);
          c2 = (if success_threshold c1 = 0 then c1\<lparr>success_threshold := 2\<rparr> else c1)
      in if reset_timeout c2 = 0 then c2\<lparr>reset_timeout := 30 * second\<rparr> else c2)"

record circuit_breaker =
  cb_cfg :: cb_config
  cb_st :: cb_state
  cb_fails :: int
  cb_oks :: int
  cb_opened_at :: gotime
  cb_on_transition :: bool
  cb_fired :: "(cb_state \<times> cb_state) list"

definition new_cb :: "cb_config \<Rightarrow> bool \<Rightarrow> circuit_breaker" where
  "new_cb cfg hook =
     \<lparr>cb_cfg = with_defaults cfg, cb_st = StateClosed, cb_fails = 0, cb_oks = 0,
      cb_opened_at = 0, cb_on_transition = hook, cb_fired = []\<rparr>"

definition transition :: "cb_state \<Rightarrow> circuit_breaker \<Rightarrow> circuit_breaker" where
  "transition to cb =
     (let from = cb_st cb;
          cb1 = cb\<lparr>cb_st := to, cb_fails := 0, cb_oks := 0\<rparr>
      in if cb_on_transition cb1 then cb1\<lparr>cb_fired := cb_fired cb1 @ [(from, to)]\<rparr> else cb1)"

definition cb_allow :: "gotime \<Rightarrow> circuit_breaker \<Rightarrow> bool \<times> circuit_breaker" where
  "cb_allow now cb =
     (case cb_st cb of
        StateClosed \<Rightarrow> (True, cb)
      | StateOpen \<Rightarrow>
          (if now - cb_opened_at cb \<ge> reset_timeout (cb_cfg cb)
           then (True, transition StateHalfOpen cb)
           else (False, cb))
      | StateHalfOpen \<Rightarrow> (False, cb))"

definition cb_success :: "circuit_breaker \<Rightarrow> circuit_breaker" where
  "cb_success cb =
     (let cb1 = cb\<lparr>cb_fails := 0, cb_oks := cb_oks cb + 1\<rparr>
      in if cb_st cb1 = StateHalfOpen \<and> cb_oks cb1 \<ge> success_threshold (cb_cfg cb1)
         then transition StateClosed cb1 else cb1)"

definition cb_failure :: "gotime \<Rightarrow> circuit_breaker \<Rightarrow> circuit_breaker" where
  "cb_failure now cb =
     (let cb1 = cb\<lparr>cb_oks := 0, cb_fails := cb_fails cb + 1\<rparr>
      in case cb_st cb1 of
           StateClosed \<Rightarrow>
             (if cb_fails cb1 \<ge> failure_threshold (cb_cfg cb1)
              then transition StateOpen (cb1\<lparr>cb_opened_at := now\<rparr>)
              else cb1)
         | StateHalfOpen \<Rightarrow> transition StateOpen (cb1\<lparr>cb_opened_at := now\<rparr>)
         | StateOpen \<Rightarrow> cb1)"

definition cb_State :: "circuit_breaker \<Rightarrow> cb_state" where
  "cb_State cb = cb_st cb"

declare transition_def [gw_ops] cb_allow_def [gw_ops] cb_success_def [gw_ops]
  cb_failure_def [gw_ops] new_cb_def [gw_ops] Let_def [gw_ops]

subsection \<open>Runs of calls\<close>

text \<open>Any interleaving of calls by any number of goroutines is a list of atomic calls.\<close>

datatype cb_call = Allow gotime | Success | Failure gotime

fun cb_step :: "cb_call \<Rightarrow> circuit_breaker \<Rightarrow> circuit_breaker" where
  "cb_step (Allow t) cb = snd (cb_allow t cb)"
| "cb_step Success cb = cb_success cb"
| "cb_step (Failure t) cb = cb_failure t cb"

abbreviation cb_run :: "cb_call list \<Rightarrow> circuit_breaker \<Rightarrow> circuit_breaker" where
  "cb_run \<equiv> fold cb_step"

text \<open>The answers of the \<open>Allow\<close> calls of a run.\<close>

fun cb_grants :: "cb_call list \<Rightarrow> circuit_breaker \<Rightarrow> bool list" where
  "cb_grants [] cb = []"
| "cb_grants (Allow t # cs) cb = fst (cb_allow t cb) # cb_grants cs (snd (cb_allow t cb))"
| "cb_grants (c # cs) cb = cb_grants cs (cb_step c cb)"

lemma cb_step_frame [simp]:
  "cb_cfg (cb_step c cb) = cb_cfg cb" "cb_on_transition (cb_step c cb) = cb_on_transition cb"
  by (cases c; simp add: gw_ops split: cb_state.splits)+

lemma cb_run_frame [simp]:
  "cb_cfg (cb_run cs cb) = cb_cfg cb" "cb_on_transition (cb_run cs cb) = cb_on_transition cb"
  by (induction cs arbitrary: cb) simp_all

subsection \<open>The invariant\<close>

definition legal_edge :: "cb_state \<times> cb_state \<Rightarrow> bool" where
  "legal_edge e \<longleftrightarrow> e \<in> {(StateClosed, StateOpen), (StateOpen, StateHalfOpen),
     (StateHalfOpen, StateClosed), (StateHalfOpen, StateOpen)}"

text \<open>\<open>follows s es\<close>: the edges are legal, each starts where the last one ended, and
  the walk from \<open>s\<close> ends in the returned state.\<close>

fun follows :: "cb_state \<Rightarrow> (cb_state \<times> cb_state) list \<Rightarrow> cb_state option" where
  "follows s [] = Some s"
| "follows s ((a, b) # es) = (if s = a \<and> legal_edge (a, b) then follows b es else None)"

lemma follows_append:
  "follows s (es @ [(a, b)]) = (if follows s es = Some a \<and> legal_edge (a, b) then Some b else None)"
  by (induction s es rule: follows.induct) auto

definition cb_inv :: "circuit_breaker \<Rightarrow> bool" where
  "cb_inv cb \<longleftrightarrow>
     failure_threshold (cb_cfg cb) \<noteq> 0 \<and> success_threshold (cb_cfg cb) \<noteq> 0
     \<and> 0 \<le> cb_fails cb \<and> 0 \<le> cb_oks cb
     \<and> (cb_st cb = StateClosed \<longrightarrow> cb_fails cb = 0 \<or> cb_fails cb < failure_threshold (cb_cfg cb))
     \<and> (cb_st cb = StateHalfOpen \<longrightarrow>
          cb_fails cb = 0 \<and> (cb_oks cb = 0 \<or> cb_oks cb < success_threshold (cb_cfg cb)))
     \<and> (cb_on_transition cb \<longrightarrow> follows StateClosed (cb_fired cb) = Some (cb_st cb))"

lemma cb_inv_new: "cb_inv (new_cb cfg hook)"
  by (simp add: cb_inv_def new_cb_def with_defaults_def Let_def)

lemma cb_inv_step [gw_inv]: "cb_inv cb \<Longrightarrow> cb_inv (cb_step c cb)"
  by (cases c; cases "cb_st cb") (auto simp: cb_inv_def gw_ops follows_append legal_edge_def)

lemma cb_inv_run [gw_inv]: "cb_inv cb \<Longrightarrow> cb_inv (cb_run cs cb)"
  by (induction cs arbitrary: cb) (simp_all add: cb_inv_step)

subsection \<open>When the breaker opens\<close>






subsection \<open>The half-open probe\<close>

lemma half_open_rejects: "cb_st cb = StateHalfOpen \<Longrightarrow> cb_allow t cb = (False, cb)"
  by (simp add: cb_allow_def)

lemma grants_half_open:
  "cb_st cb = StateHalfOpen \<Longrightarrow> cb_grants (map Allow ts) cb = replicate (length ts) False"
  by (induction ts) (simp_all add: half_open_rejects)

lemma count_list_replicate_neq [simp]: "x \<noteq> y \<Longrightarrow> count_list (replicate n x) y = 0"
  by (induction n) auto

text \<open>
  Of any sequence of \<open>Allow\<close> calls on an open breaker exactly one is granted, the
  probe, if some call comes after \<open>ResetTimeout\<close>, and none otherwise.
\<close>

theorem single_probe:
  assumes "cb_st cb = StateOpen"
  shows "count_list (cb_grants (map Allow ts) cb) True
    = (if \<exists>t \<in> set ts. reset_timeout (cb_cfg cb) \<le> t - cb_opened_at cb then 1 else 0)"
  using assms
proof (induction ts)
  case (Cons t ts)
  then show ?case
    by (auto simp: cb_allow_def transition_def Let_def grants_half_open)
qed simp

theorem single_probe_witness:
  "cb_st (cb_failure 0 (new_cb \<lparr>failure_threshold = 1, success_threshold = 2, reset_timeout = 50\<rparr> False)) = StateOpen
   \<and> count_list (cb_grants (map Allow [10, 60, 70])
       (cb_failure 0 (new_cb \<lparr>failure_threshold = 1, success_threshold = 2, reset_timeout = 50\<rparr> False))) True = 1"
proof -
  let ?cb = "cb_failure 0 (new_cb \<lparr>failure_threshold = 1, success_threshold = 2, reset_timeout = 50\<rparr> False)"
  have "cb_st ?cb = StateOpen" "reset_timeout (cb_cfg ?cb) = 50" "cb_opened_at ?cb = 0"
    by (simp_all add: gw_ops with_defaults_def)
  then show ?thesis using single_probe [of ?cb "[10, 60, 70]"] by simp
qed

subsection \<open>Clients that follow the protocol\<close>

text \<open>
  The gateway reports an outcome only for a request \<open>Allow\<close> admitted, once. A client
  state pairs the breaker with the number of admitted requests still in flight.
\<close>

inductive client_step :: "circuit_breaker \<times> nat \<Rightarrow> circuit_breaker \<times> nat \<Rightarrow> bool" where
  admitted: "cb_allow t cb = (True, cb') \<Longrightarrow> client_step (cb, k) (cb', Suc k)"
| rejected: "cb_allow t cb = (False, cb') \<Longrightarrow> client_step (cb, k) (cb', k)"
| succeeded: "client_step (cb, Suc k) (cb_success cb, k)"
| failed: "client_step (cb, Suc k) (cb_failure t cb, k)"

inductive_cases client_stepE: "client_step (cb, k) s"

text \<open>Open with nothing in flight, probing, or half-open with the probe's success counted.\<close>

definition recovering :: "circuit_breaker \<times> nat \<Rightarrow> bool" where
  "recovering s \<longleftrightarrow> (case s of (cb, k) \<Rightarrow>
     (cb_st cb = StateOpen \<and> k = 0)
     \<or> (cb_st cb = StateHalfOpen \<and> k = 1 \<and> cb_oks cb = 0)
     \<or> (cb_st cb = StateHalfOpen \<and> k = 0 \<and> cb_oks cb = 1))"

lemma client_step_cfg: "client_step s s' \<Longrightarrow> cb_cfg (fst s') = cb_cfg (fst s)"
  by (induction rule: client_step.induct)
    (auto simp: gw_ops split: cb_state.splits if_splits)

lemma client_reach_cfg: "client_step\<^sup>*\<^sup>* s s' \<Longrightarrow> cb_cfg (fst s') = cb_cfg (fst s)"
  by (induction rule: rtranclp_induct) (simp_all add: client_step_cfg)

lemma recovering_step [gw_inv]:
  assumes "client_step s s'" and "recovering s" and "2 \<le> success_threshold (cb_cfg (fst s))"
  shows "recovering s'"
  using assms
  by (cases s; elim client_step.cases)
    (auto simp: recovering_def gw_ops split: cb_state.splits if_splits)

lemma recovering_reach:
  assumes "client_step\<^sup>*\<^sup>* s s'" and "recovering s" and "2 \<le> success_threshold (cb_cfg (fst s))"
  shows "recovering s'"
  using assms(1)
proof (induction rule: rtranclp_induct)
  case (step u v)
  then have "2 \<le> success_threshold (cb_cfg (fst u))" using assms(3) client_reach_cfg by metis
  with step show ?case by (blast intro: recovering_step)
qed (rule assms(2))

text \<open>
  C24: Take an open breaker with no admitted request in flight, and clients that report exactly
  one outcome for a request \<open>Allow\<close> admitted and none otherwise (\<open>client_step\<close>). They can bring it
  back to closed if and only if its \<open>SuccessThreshold\<close> is at most one: with the default of two
  the single probe's success is not enough, and no second probe is ever admitted. More reports
  than admissions, as in the repository's own unit test or from the health checks of the
  external plugins, do close it (\<open>External_Plugin.ext_breaker_recovers\<close>).
\<close>

theorem recovery_needs_threshold_one:
  assumes "cb_st cb = StateOpen"
  shows "(\<exists>cb' k. client_step\<^sup>*\<^sup>* (cb, 0) (cb', k) \<and> cb_st cb' = StateClosed)
    \<longleftrightarrow> success_threshold (cb_cfg cb) \<le> 1"
proof
  assume "\<exists>cb' k. client_step\<^sup>*\<^sup>* (cb, 0) (cb', k) \<and> cb_st cb' = StateClosed"
  then obtain cb' k where reach: "client_step\<^sup>*\<^sup>* (cb, 0) (cb', k)" and closed: "cb_st cb' = StateClosed"
    by blast
  show "success_threshold (cb_cfg cb) \<le> 1"
  proof (rule ccontr)
    assume "\<not> ?thesis"
    then have "recovering (cb', k)"
      using recovering_reach [OF reach] assms by (simp add: recovering_def)
    with closed show False by (simp add: recovering_def)
  qed
next
  assume thr: "success_threshold (cb_cfg cb) \<le> 1"
  let ?t = "cb_opened_at cb + reset_timeout (cb_cfg cb)"
  let ?p = "snd (cb_allow ?t cb)"
  have "cb_allow ?t cb = (True, ?p)" "cb_st ?p = StateHalfOpen" "cb_oks ?p = 0" "cb_cfg ?p = cb_cfg cb"
    using assms by (simp_all add: cb_allow_def transition_def Let_def)
  moreover from this thr have "cb_st (cb_success ?p) = StateClosed"
    by (simp add: cb_success_def transition_def Let_def)
  ultimately show "\<exists>cb' k. client_step\<^sup>*\<^sup>* (cb, 0) (cb', k) \<and> cb_st cb' = StateClosed"
    by (meson admitted succeeded rtranclp.intros)
qed

theorem recovery_needs_threshold_one_witness:
  "cb_st (cb_failure 0 (new_cb \<lparr>failure_threshold = 1, success_threshold = 0, reset_timeout = 50\<rparr> False)) = StateOpen
   \<and> \<not> (\<exists>cb' k. client_step\<^sup>*\<^sup>*
         (cb_failure 0 (new_cb \<lparr>failure_threshold = 1, success_threshold = 0, reset_timeout = 50\<rparr> False), 0) (cb', k)
       \<and> cb_st cb' = StateClosed)"
proof -
  let ?cb = "cb_failure 0 (new_cb \<lparr>failure_threshold = 1, success_threshold = 0, reset_timeout = 50\<rparr> False)"
  have o: "cb_st ?cb = StateOpen" and s: "success_threshold (cb_cfg ?cb) = 2"
    by (simp_all add: gw_ops with_defaults_def)
  then show ?thesis using recovery_needs_threshold_one [OF o] by simp
qed

text \<open>
  A half-open breaker with no request in flight is dead: whatever its clients do from
  then on, its state never changes again, so every later request is rejected.
\<close>

theorem half_open_deadlock:
  assumes "cb_st cb = StateHalfOpen" and "client_step\<^sup>*\<^sup>* (cb, 0) s"
  shows "s = (cb, 0)"
  using assms(2)
  by (induction rule: rtranclp_induct) (auto elim: client_stepE simp: half_open_rejects [OF assms(1)])

theorem half_open_deadlock_witness:
  "\<exists>cb. cb_st cb = StateHalfOpen
     \<and> client_step\<^sup>*\<^sup>* (new_cb \<lparr>failure_threshold = 1, success_threshold = 2, reset_timeout = 50\<rparr> False, 0) (cb, 0)
     \<and> (\<forall>s. client_step\<^sup>*\<^sup>* (cb, 0) s \<longleftrightarrow> s = (cb, 0))"
proof -
  let ?a = "new_cb \<lparr>failure_threshold = 1, success_threshold = 2, reset_timeout = 50\<rparr> False"
  let ?b = "cb_failure 0 ?a" and ?c = "snd (cb_allow 60 (cb_failure 0 ?a))"
  let ?d = "cb_success ?c"
  have "cb_allow 0 ?a = (True, ?a)" "cb_allow 60 ?b = (True, ?c)" and half: "cb_st ?d = StateHalfOpen"
    by (simp_all add: gw_ops with_defaults_def)
  then have "client_step\<^sup>*\<^sup>* (?a, 0) (?d, 0)"
    by (meson admitted failed succeeded rtranclp.intros)
  with half half_open_deadlock [OF half] show ?thesis
    by (metis rtranclp.rtrancl_refl)
qed

subsection \<open>The contract clients rely on\<close>

text \<open>
  What the proxy, the Redis limiter and the external plugins use of a breaker: while it
  is closed every call is admitted and successes keep it so; a rejected call leaves it
  unchanged.
\<close>

locale breaker =
  fixes allow :: "gotime \<Rightarrow> 'b \<Rightarrow> bool \<times> 'b"
    and success :: "'b \<Rightarrow> 'b"
    and failure :: "gotime \<Rightarrow> 'b \<Rightarrow> 'b"
    and closed :: "'b \<Rightarrow> bool"
    and inv :: "'b \<Rightarrow> bool"
  assumes closed_allow: "closed b \<Longrightarrow> allow t b = (True, b)"
    and closed_success: "closed b \<Longrightarrow> closed (success b)"
    and rejected_frame: "allow t b = (False, b') \<Longrightarrow> b' = b"
    and inv_allow: "inv b \<Longrightarrow> inv (snd (allow t b))"
    and inv_success: "inv b \<Longrightarrow> inv (success b)"
    and inv_failure: "inv b \<Longrightarrow> inv (failure t b)"
begin

lemma closed_admits: "closed b \<Longrightarrow> fst (allow t b) \<and> closed (success (snd (allow t b)))"
  by (simp add: closed_allow closed_success)

lemma not_admitted: "\<not> fst (allow t b) \<Longrightarrow> snd (allow t b) = b"
  by (metis prod.collapse rejected_frame)

end

interpretation cb: breaker cb_allow cb_success cb_failure "\<lambda>cb. cb_st cb = StateClosed" cb_inv
proof unfold_locales
  fix b t
  show "cb_inv b \<Longrightarrow> cb_inv (snd (cb_allow t b))" using cb_inv_step [of b "Allow t"] by simp
  show "cb_inv b \<Longrightarrow> cb_inv (cb_success b)" using cb_inv_step [of b Success] by simp
  show "cb_inv b \<Longrightarrow> cb_inv (cb_failure t b)" using cb_inv_step [of b "Failure t"] by simp
qed (auto simp: gw_ops split: cb_state.splits if_splits)

end
