(* ===== verification/Redis_Limiter.thy ===== *)
theory Redis_Limiter
  imports Redis_Script Circuit_Breaker
begin

section \<open>The Redis limiter (\<open>pkg/ratelimit/redis.go, redis_client.go, factory.go\<close>)\<close>

text \<open>
  The limiter around the script: a circuit breaker before the call of Redis, the token bucket
  as fallback behind it, the goroutine that should end the fallback, and the factory that
  turns a quota into a limit and a window.
\<close>

subsection \<open>The limiter\<close>

record 'l redis_limiter =
  rl_addr :: string
  rl_windowMs :: int
  rl_limit :: int
  rl_fallback :: 'l
  rl_cb :: circuit_breaker
  rl_fallbackMode :: bool
  rl_timers :: "gotime list"

text \<open>\<open>rl_timers\<close> holds when each sleeping recovery goroutine wakes up.\<close>

definition newRedisLimiter :: "string \<Rightarrow> int \<Rightarrow> int \<Rightarrow> 'l \<Rightarrow> 'l redis_limiter" where
  "newRedisLimiter addr windowMs limit fallback =
     \<lparr>rl_addr = addr, rl_windowMs = windowMs, rl_limit = limit, rl_fallback = fallback,
      rl_cb = new_cb \<lparr>failure_threshold = 5, success_threshold = 2, reset_timeout = 30 * second\<rparr> False,
      rl_fallbackMode = False, rl_timers = []\<rparr>"

text \<open>
  \<open>evalFn\<close> is a parameter: it runs the script on the Redis state under the 45 ms call
  context derived from the request's, and answers the reply (\<open>None\<close> for an error) and the
  time it returned. \<open>fb\<close> is the fallback's \<open>Allow\<close>.
\<close>

type_synonym 'l allow_fn =
  "ctx_error option \<Rightarrow> gotime \<Rightarrow> string \<Rightarrow> 'l \<Rightarrow> (bool \<times> f64 \<times> limiter_error option) \<times> 'l"
type_synonym 'r eval_fn = "ctx_error option \<Rightarrow> gotime \<Rightarrow> string \<Rightarrow> 'r \<Rightarrow> (int list option \<times> gotime) \<times> 'r"

definition rl_to_fallback ::
  "'l allow_fn \<Rightarrow> ctx_error option \<Rightarrow> gotime \<Rightarrow> string \<Rightarrow> 'l redis_limiter
    \<Rightarrow> (bool \<times> f64 \<times> limiter_error option) \<times> 'l redis_limiter" where
  "rl_to_fallback fb ce now key rl =
     (let (res, l) = fb ce now key (rl_fallback rl) in (res, rl\<lparr>rl_fallback := l\<rparr>))"

text \<open>
  The branches of \<open>Allow\<close>, as one step. The code holds no lock over them: between the breaker's
  answer, the script and the report other calls may run. The model takes the calls one after
  another; what overlapping calls report to the breaker is not part of it.
\<close>

definition rl_Allow :: "'l allow_fn \<Rightarrow> 'r eval_fn \<Rightarrow> ('l redis_limiter \<times> 'r) allow_fn" where
  "rl_Allow fb eval ce now key s =
     (let (rl, r) = s;
          (ok, cb1) = (if rl_fallbackMode rl then (False, rl_cb rl) else cb_allow now (rl_cb rl));
          rl1 = rl\<lparr>rl_cb := cb1\<rparr>
      in if \<not> ok then
           let rl2 = (if \<not> rl_fallbackMode rl1
                      then rl1\<lparr>rl_fallbackMode := True, rl_timers := rl_timers rl1 @ [now + 30 * second]\<rparr>
                      else rl1);
               (res, rl3) = rl_to_fallback fb ce now key rl2
           in (res, (rl3, r))
         else
           let ((reply, now1), r1) = eval ce now key r
           in case reply of
                None \<Rightarrow>
                  let rl2 = rl1\<lparr>rl_cb := cb_failure now1 (rl_cb rl1)\<rparr>;
                      (res, rl3) = rl_to_fallback fb ce now1 key rl2
                  in (res, (rl3, r1))
              | Some result \<Rightarrow>
                  let rl2 = rl1\<lparr>rl_cb := cb_success (rl_cb rl1)\<rparr>
                  in if length result < 2
                     then ((False, Fin 0, Some (UnexpectedLength (int (length result)))), (rl2, r1))
                     else ((result ! 0 = 1, f_of_int (result ! 1), None), (rl2, r1)))"

text \<open>A recovery goroutine wakes up.\<close>

definition rl_recover :: "gotime \<Rightarrow> 'l redis_limiter \<Rightarrow> 'l redis_limiter" where
  "rl_recover now rl =
     (if \<exists>t \<in> set (rl_timers rl). t \<le> now
      then rl\<lparr>rl_fallbackMode := False, rl_timers := filter (\<lambda>t. \<not> t \<le> now) (rl_timers rl)\<rparr>
      else rl)"

text \<open>\<open>Close\<close>: the error of a client that fails to close keeps the fallback open.\<close>

definition rl_Close ::
  "(unit \<Rightarrow> 'e option) option \<Rightarrow> ('l \<Rightarrow> 'e option \<times> 'l) \<Rightarrow> 'l redis_limiter \<Rightarrow> 'e option \<times> 'l redis_limiter" where
  "rl_Close closeFn fb_close rl =
     (case (case closeFn of None \<Rightarrow> None | Some f \<Rightarrow> f ()) of
        Some e \<Rightarrow> (Some e, rl)
      | None \<Rightarrow> (let (e, l) = fb_close (rl_fallback rl) in (e, rl\<lparr>rl_fallback := l\<rparr>)))"

subsection \<open>The factory\<close>

record RedisConfig =
  rc_Addr :: string
  rc_Password :: string
  rc_DB :: int
  rc_DialTimeout :: duration
  rc_ReadTimeout :: duration
  rc_WriteTimeout :: duration
  rc_PoolSize :: int
  rc_MinIdleConns :: int

record LimiterConfig =
  lc_Backend :: string
  lc_Redis :: RedisConfig
  lc_RequestsPerMin :: f64
  lc_Burst :: f64
  lc_WindowSeconds :: int
  lc_FallbackPolicy :: string

datatype factory_error = RedisNeedsRate | UnknownBackend string

datatype limiter_impl = MemoryLimiter token_bucket | RedisBacked RedisConfig "token_bucket redis_limiter"

text \<open>
  The options handed to \<open>goredis.NewClient\<close>: a timeout that is not positive is left at
  zero, which go-redis reads as its own default.
\<close>

definition redis_options :: "RedisConfig \<Rightarrow> RedisConfig" where
  "redis_options cfg =
     (let dial = (if rc_DialTimeout cfg > 0 then rc_DialTimeout cfg else 0);
          read = (if rc_ReadTimeout cfg > 0 then rc_ReadTimeout cfg else 0);
          write = (if rc_WriteTimeout cfg > 0 then rc_WriteTimeout cfg else 0)
      in cfg\<lparr>rc_DialTimeout := dial, rc_ReadTimeout := read, rc_WriteTimeout := write\<rparr>)"

definition buildRedisLimiter :: "RedisConfig \<Rightarrow> int \<Rightarrow> int \<Rightarrow> token_bucket \<Rightarrow> limiter_impl" where
  "buildRedisLimiter cfg windowMs limit fallback =
     RedisBacked (redis_options cfg) (newRedisLimiter (rc_Addr cfg) windowMs limit fallback)"

definition NewRedisLimiter :: "RedisConfig \<Rightarrow> int \<Rightarrow> int \<Rightarrow> token_bucket \<Rightarrow> limiter_impl" where
  [simp]: "NewRedisLimiter cfg windowMs limit fallback = buildRedisLimiter cfg windowMs limit fallback"

definition NewFromConfig :: "LimiterConfig \<Rightarrow> factory_error + limiter_impl" where
  "NewFromConfig cfg =
     (let ratePerSec = f_div (lc_RequestsPerMin cfg) (Fin 60);
          burst = (if f_le (lc_Burst cfg) (Fin 0) then Fin 10 else lc_Burst cfg);
          memLimiter = tb_New ratePerSec burst
      in if lc_Backend cfg = ''redis'' then
           let redis = (if rc_Addr (lc_Redis cfg) = [] then (lc_Redis cfg)\<lparr>rc_Addr := ''localhost:6379''\<rparr> else lc_Redis cfg);
               secs = (if lc_WindowSeconds cfg \<le> 0 then 60 else lc_WindowSeconds cfg);
               windowMs = secs * 1000;
               limit = f_to_int64 (f_mul (f_div (lc_RequestsPerMin cfg) (Fin 60)) (f_of_int secs))
           in if limit \<le> 0 then Inl RedisNeedsRate
              else Inr (NewRedisLimiter redis windowMs limit memLimiter)
         else if lc_Backend cfg = ''memory'' \<or> lc_Backend cfg = [] then Inr (MemoryLimiter memLimiter)
         else Inl (UnknownBackend (lc_Backend cfg)))"

subsection \<open>The limiter is a limiter\<close>

context limiter
begin

lemma fallback_error_grants_nothing:
  "fst (rl_to_fallback allow ce now key rl) = (granted, rem, Some e) \<Longrightarrow> \<not> granted \<and> rem = Fin 0"
  using error_grants_nothing [of ce now key "rl_fallback rl"]
  by (auto simp: rl_to_fallback_def split: prod.splits)

lemma redis_limiter: "limiter (rl_Allow allow eval)"
proof
  fix ce now key s granted rem e
  assume a: "fst (rl_Allow allow eval ce now key s) = (granted, rem, Some e)"
  obtain rl r where s: "s = (rl, r)" by fastforce
  have split_fst: "fst (case p of (res, rl3) \<Rightarrow> (res, (f rl3))) = fst p" for p :: "'x \<times> 'y" and f :: "'y \<Rightarrow> 'z"
    by (cases p) simp
  show "\<not> granted \<and> rem = Fin 0"
    using a
    by (auto simp: rl_Allow_def s Let_def split_fst split: prod.splits if_splits option.splits
        dest!: fallback_error_grants_nothing)
qed

end

interpretation rdl: limiter "rl_Allow tb_Allow eval" for eval
  by (rule tbl.redis_limiter)

subsection \<open>The end of the Redis backend\<close>

text \<open>
  A history of the limiter: \<open>Allow\<close> calls and wake-ups of the recovery goroutines. The
  outcomes of the calls of \<open>evalFn\<close> it makes, success or failure, in order.
\<close>

datatype rl_event = RAllow "ctx_error option" gotime string | RWake gotime

definition consults :: "gotime \<Rightarrow> 'l redis_limiter \<Rightarrow> bool" where
  "consults now rl \<longleftrightarrow> \<not> rl_fallbackMode rl \<and> fst (cb_allow now (rl_cb rl))"

fun rl_step :: "'l allow_fn \<Rightarrow> 'r eval_fn \<Rightarrow> rl_event \<Rightarrow> 'l redis_limiter \<times> 'r \<Rightarrow> 'l redis_limiter \<times> 'r" where
  "rl_step fb eval (RAllow ce now key) s = snd (rl_Allow fb eval ce now key s)"
| "rl_step fb eval (RWake now) (rl, r) = (rl_recover now rl, r)"

fun redis_outcomes :: "'l allow_fn \<Rightarrow> 'r eval_fn \<Rightarrow> rl_event list \<Rightarrow> 'l redis_limiter \<times> 'r \<Rightarrow> bool list" where
  "redis_outcomes fb eval [] s = []"
| "redis_outcomes fb eval (RAllow ce now key # es) (rl, r) =
     (if consults now rl
      then (fst (fst (eval ce now key r)) \<noteq> None) # redis_outcomes fb eval es (rl_step fb eval (RAllow ce now key) (rl, r))
      else redis_outcomes fb eval es (rl_step fb eval (RAllow ce now key) (rl, r)))"
| "redis_outcomes fb eval (RWake now # es) s = redis_outcomes fb eval es (rl_step fb eval (RWake now) s)"

lemma rl_to_fallback_cb: "rl_to_fallback fb ce now key rl = (res, rl') \<Longrightarrow> rl_cb rl' = rl_cb rl"
  by (auto simp: rl_to_fallback_def split: prod.splits)

lemma rl_Allow_cb:
  assumes "rl_Allow fb eval ce now key (rl, r) = (res, rl', r')"
  shows "rl_cb rl' = (if consults now rl
      then (case fst (fst (eval ce now key r)) of
              None \<Rightarrow> cb_failure (snd (fst (eval ce now key r))) (snd (cb_allow now (rl_cb rl)))
            | Some _ \<Rightarrow> cb_success (snd (cb_allow now (rl_cb rl))))
      else if rl_fallbackMode rl then rl_cb rl else snd (cb_allow now (rl_cb rl)))"
  using assms
  by (auto simp: rl_Allow_def consults_def Let_def dest!: rl_to_fallback_cb
      split: prod.splits if_splits option.splits)

lemma rl_recover_cb [simp]: "rl_cb (rl_recover now rl) = rl_cb rl"
  by (simp add: rl_recover_def)

lemma stuck_half_open:
  "cb_st (rl_cb (fst s)) = StateHalfOpen \<Longrightarrow> redis_outcomes fb eval es s = []"
proof (induction fb eval es s rule: redis_outcomes.induct)
  case (2 fb eval ce now key es rl r)
  obtain res rl' r' where a: "rl_Allow fb eval ce now key (rl, r) = (res, rl', r')" by (metis prod_cases3)
  have no: "\<not> consults now rl" and st: "snd (cb_allow now (rl_cb rl)) = rl_cb rl"
    using 2(3) by (simp_all add: consults_def cb_allow_def)
  then have "rl_cb rl' = rl_cb rl" using rl_Allow_cb [OF a] by simp
  then show ?case using 2(2) [OF no] 2(3) no a by simp
next
  case (3 fb eval now es s)
  then show ?case by (cases s) simp
qed simp

lemma open_outcomes:
  "cb_st (rl_cb (fst s)) = StateOpen \<Longrightarrow> 2 \<le> success_threshold (cb_cfg (rl_cb (fst s))) \<Longrightarrow> cb_oks (rl_cb (fst s)) = 0 \<Longrightarrow>
    \<exists>n. redis_outcomes fb eval es s = replicate n False \<or> redis_outcomes fb eval es s = replicate n False @ [True]"
proof (induction fb eval es s rule: redis_outcomes.induct)
  case (2 fb eval ce now key es rl r)
  obtain res rl' r' where a: "rl_Allow fb eval ce now key (rl, r) = (res, rl', r')" by (metis prod_cases3)
  have o: "cb_st (rl_cb rl) = StateOpen" "2 \<le> success_threshold (cb_cfg (rl_cb rl))" using 2(3,4) by simp_all
  show ?case
  proof (cases "consults now rl")
    case False
    then have "rl_cb rl' = rl_cb rl" using rl_Allow_cb [OF a] o
      by (auto simp: consults_def cb_allow_def split: if_splits)
    then show ?thesis using 2(2) [OF False] 2(3-5) False a by simp
  next
    case True
    then have half: "snd (cb_allow now (rl_cb rl)) = transition StateHalfOpen (rl_cb rl)"
      using o by (auto simp: consults_def cb_allow_def split: if_splits)
    show ?thesis
    proof (cases "fst (fst (eval ce now key r))")
      case None
      then have "rl_cb rl' = cb_failure (snd (fst (eval ce now key r))) (transition StateHalfOpen (rl_cb rl))"
        using rl_Allow_cb [OF a] True half by simp
      then have "cb_st (rl_cb rl') = StateOpen" "cb_cfg (rl_cb rl') = cb_cfg (rl_cb rl)" "cb_oks (rl_cb rl') = 0"
        by (simp_all add: cb_failure_def transition_def Let_def)
      then obtain n where "redis_outcomes fb eval es (rl', r') = replicate n False
          \<or> redis_outcomes fb eval es (rl', r') = replicate n False @ [True]"
        using 2(1) [OF True] o(2) a by auto
      then show ?thesis using True None a by (intro exI [of _ "Suc n"]) auto
    next
      case (Some x)
      then have "rl_cb rl' = cb_success (transition StateHalfOpen (rl_cb rl))"
        using rl_Allow_cb [OF a] True half by simp
      then have "cb_st (rl_cb rl') = StateHalfOpen"
        using o(2) by (simp add: cb_success_def transition_def Let_def)
      then have "redis_outcomes fb eval es (rl', r') = []" by (intro stuck_half_open) simp
      then show ?thesis using True Some a by (intro exI [of _ 0]) simp
    qed
  qed
next
  case (3 fb eval now es s)
  then show ?case by (cases s) simp
qed simp

definition rl_inv :: "'l redis_limiter \<Rightarrow> bool" where
  "rl_inv rl \<longleftrightarrow> success_threshold (cb_cfg (rl_cb rl)) = 2 \<and> failure_threshold (cb_cfg (rl_cb rl)) = 5
     \<and> (cb_st (rl_cb rl) = StateOpen \<longrightarrow> cb_oks (rl_cb rl) = 0)"

lemma cb_allow_consults:
  "consults now rl \<Longrightarrow> cb_st (snd (cb_allow now (rl_cb rl))) \<noteq> StateOpen \<and> cb_cfg (snd (cb_allow now (rl_cb rl))) = cb_cfg (rl_cb rl)"
  by (auto simp: consults_def cb_allow_def transition_def Let_def split: cb_state.splits if_splits)

lemma cb_allow_rejects: "\<not> fst (cb_allow now cb) \<Longrightarrow> snd (cb_allow now cb) = cb"
  by (auto simp: cb_allow_def split: cb_state.splits if_splits)

lemma rl_inv_cb:
  "rl_inv rl \<Longrightarrow> consults now rl \<Longrightarrow> cb = snd (cb_allow now (rl_cb rl)) \<Longrightarrow>
    rl_cb rl' = cb_failure t cb \<or> rl_cb rl' = cb_success cb \<Longrightarrow> rl_inv rl'"
  using cb_allow_consults [of now rl]
  by (auto simp: rl_inv_def cb_failure_def cb_success_def transition_def Let_def split: cb_state.splits if_splits)

lemma rl_inv_step [gw_inv]: "rl_inv (fst s) \<Longrightarrow> rl_inv (fst (rl_step fb eval e s))"
proof (induction fb eval e s rule: rl_step.induct)
  case (1 fb eval ce now key s)
  obtain rl r where s: "s = (rl, r)" by fastforce
  obtain res rl' r' where a: "rl_Allow fb eval ce now key (rl, r) = (res, rl', r')" by (metis prod_cases3)
  have "rl_inv rl'"
  proof (cases "consults now rl")
    case True
    let ?t = "snd (fst (eval ce now key r))" and ?cb = "snd (cb_allow now (rl_cb rl))"
    have "rl_cb rl' = cb_failure ?t ?cb \<or> rl_cb rl' = cb_success ?cb"
      using rl_Allow_cb [OF a] True by (cases "fst (fst (eval ce now key r))") simp_all
    then show ?thesis using 1 s True rl_inv_cb [of rl now ?cb rl' ?t] by simp
  next
    case False
    then have "rl_cb rl' = rl_cb rl" using rl_Allow_cb [OF a] cb_allow_rejects by (auto simp: consults_def)
    then show ?thesis using 1 s by (simp add: rl_inv_def)
  qed
  then show ?case using a s by simp
qed (simp add: rl_inv_def)

lemma rl_inv_run: "rl_inv (fst s) \<Longrightarrow> rl_inv (fst (fold (rl_step fb eval) es s))"
  by (induction es arbitrary: s) (simp_all add: rl_inv_step)

lemma rl_inv_new: "rl_inv (newRedisLimiter addr windowMs limit l)"
  by (simp add: rl_inv_def newRedisLimiter_def new_cb_def with_defaults_def Let_def)

text \<open>
  C25: Take the calls of a Redis limiter one after another, each with its report before the next
  begins. Once the breaker has opened, Redis is lost: from then on the
  limiter's calls of Redis are some failures and at most one success, after which it never
  consults Redis again and every gateway enforces its own in-memory limit for ever. The
  recovery goroutine changes nothing, since the breaker needs two successes and admits one
  probe.
\<close>

theorem redis_never_recovers:
  fixes fb :: "'l allow_fn"
  assumes "s = fold (rl_step fb eval) es (newRedisLimiter addr windowMs limit l, r)"
    and "cb_st (rl_cb (fst s)) = StateOpen"
  shows "\<exists>n. redis_outcomes fb eval es' s = replicate n False
    \<or> redis_outcomes fb eval es' s = replicate n False @ [True]"
proof -
  have "rl_inv (fst s)" unfolding assms(1) by (intro rl_inv_run) (simp add: rl_inv_new)
  then show ?thesis using assms(2) by (intro open_outcomes) (simp_all add: rl_inv_def)
qed

text \<open>A call that consults Redis under a context that is already done fails at once.\<close>

definition eval_honours_ctx :: "'r eval_fn \<Rightarrow> bool" where
  "eval_honours_ctx eval \<longleftrightarrow> (\<forall>e now key r. eval (Some e) now key r = ((None, now), r))"

lemma rl_Allow_cancelled:
  assumes "eval_honours_ctx eval" and "\<not> rl_fallbackMode rl" and "cb_st (rl_cb rl) = StateClosed"
  shows "rl_cb (fst (rl_step fb eval (RAllow (Some e) now key) (rl, r))) = cb_failure now (rl_cb rl)"
    and "\<not> rl_fallbackMode (fst (rl_step fb eval (RAllow (Some e) now key) (rl, r)))"
    and "snd (rl_step fb eval (RAllow (Some e) now key) (rl, r)) = r"
  using assms
  by (auto simp: rl_Allow_def Let_def cb_allow_def eval_honours_ctx_def rl_to_fallback_def split: prod.splits)

lemma cancelled_run:
  assumes "eval_honours_ctx eval"
  shows "\<not> rl_fallbackMode rl \<Longrightarrow> cb_st (rl_cb rl) = StateClosed \<Longrightarrow>
    cb_fails (rl_cb rl) + int (length cs) = failure_threshold (cb_cfg (rl_cb rl)) \<Longrightarrow> cs \<noteq> [] \<Longrightarrow>
    cb_st (rl_cb (fst (fold (rl_step fb eval) (map (\<lambda>(e, now, key). RAllow (Some e) now key) cs) (rl, r)))) = StateOpen"
proof (induction cs arbitrary: rl r)
  case (Cons c cs)
  obtain e now key where c: "c = (e, now, key)" by (metis prod_cases3)
  obtain rl' r' where st: "rl_step fb eval (RAllow (Some e) now key) (rl, r) = (rl', r')" by fastforce
  have s: "rl_cb rl' = cb_failure now (rl_cb rl)" "\<not> rl_fallbackMode rl'"
    using rl_Allow_cancelled [OF assms Cons.prems(1,2), of fb e now key r] st by simp_all
  show ?case
  proof (cases cs)
    case Nil
    then show ?thesis using Cons.prems s c st by (simp add: cb_failure_def transition_def Let_def)
  next
    case (Cons d ds)
    then have "cb_fails (rl_cb rl) + 1 < failure_threshold (cb_cfg (rl_cb rl))" using Cons.prems(3) by simp
    then have f: "cb_st (rl_cb rl') = StateClosed" "cb_fails (rl_cb rl') = cb_fails (rl_cb rl) + 1"
      "cb_cfg (rl_cb rl') = cb_cfg (rl_cb rl)"
      using Cons.prems(2) s by (simp_all add: cb_failure_def Let_def)
    then show ?thesis using Cons.IH [of rl' r'] Cons.prems(3) s(2) Cons c st by simp
  qed
qed simp

text \<open>
  Five clients that disconnect before the check runs open the breaker of a fresh
  limiter: a cancelled request counts as a Redis failure.
\<close>

theorem cancelled_clients_open_breaker:
  fixes fb :: "'l allow_fn"
  assumes "eval_honours_ctx eval" and "length cs = 5"
  shows "cb_st (rl_cb (fst (fold (rl_step fb eval) (map (\<lambda>(e, now, key). RAllow (Some e) now key) cs)
    (newRedisLimiter addr windowMs limit l, r)))) = StateOpen"
proof (rule cancelled_run [OF assms(1)])
  show "cb_fails (rl_cb (newRedisLimiter addr windowMs limit l)) + int (length cs)
      = failure_threshold (cb_cfg (rl_cb (newRedisLimiter addr windowMs limit l)))"
    using assms(2) by (simp add: newRedisLimiter_def new_cb_def with_defaults_def Let_def)
  show "cs \<noteq> []" using assms(2) by auto
qed (simp_all add: newRedisLimiter_def new_cb_def)

text \<open>An \<open>evalFn\<close> for the witnesses: the script on the small store, two seconds into a day.\<close>

definition small_eval :: "small_redis eval_fn" where
  "small_eval ce now key r =
     (case ce of Some e \<Rightarrow> ((None, now), r)
      | None \<Rightarrow> (let (reply, r') = luaSlidingWindow small_ops (2, 0) key 1000 5 r in ((Some reply, now), r')))"

lemma small_eval_honours_ctx: "eval_honours_ctx small_eval"
  by (simp add: eval_honours_ctx_def small_eval_def)

theorem cancelled_clients_open_breaker_witness:
  "cb_st (rl_cb (fst (fold (rl_step tb_Allow small_eval)
      (map (\<lambda>(e, now, key). RAllow (Some e) now key) (replicate 5 (Canceled, 7, ''k'')))
      (newRedisLimiter ''r:6379'' 1000 5 (tb_New (Fin 1) (Fin 5)), small_empty)))) = StateOpen"
  by (rule cancelled_clients_open_breaker [OF small_eval_honours_ctx]) simp

theorem redis_never_recovers_witness:
  "\<exists>n. redis_outcomes tb_Allow small_eval [RWake (40 * second), RAllow None (41 * second) ''k'', RAllow None (90 * second) ''k'']
      (fold (rl_step tb_Allow small_eval) (map (\<lambda>(e, now, key). RAllow (Some e) now key) (replicate 5 (Canceled, 7, ''k'')))
        (newRedisLimiter ''r:6379'' 1000 5 (tb_New (Fin 1) (Fin 5)), small_empty)) = replicate n False
    \<or> redis_outcomes tb_Allow small_eval [RWake (40 * second), RAllow None (41 * second) ''k'', RAllow None (90 * second) ''k'']
      (fold (rl_step tb_Allow small_eval) (map (\<lambda>(e, now, key). RAllow (Some e) now key) (replicate 5 (Canceled, 7, ''k'')))
        (newRedisLimiter ''r:6379'' 1000 5 (tb_New (Fin 1) (Fin 5)), small_empty)) = replicate n False @ [True]"
proof (rule redis_never_recovers [OF refl])
  have "0 < length (replicate 5 (Canceled, 7::int, ''k''))" by simp
  then show "cb_st (rl_cb (fst (fold (rl_step tb_Allow small_eval)
      (map (\<lambda>(e, now, key). RAllow (Some e) now key) (replicate 5 (Canceled, 7, ''k'')))
      (newRedisLimiter ''r:6379'' 1000 5 (tb_New (Fin 1) (Fin 5)), small_empty)))) = StateOpen"
    by (intro cancelled_run [OF small_eval_honours_ctx])
      (simp_all add: newRedisLimiter_def new_cb_def with_defaults_def Let_def)
qed

subsection \<open>The quota the factory configures\<close>

abbreviation redis_addr :: "RedisConfig \<Rightarrow> string" where
  "redis_addr rc \<equiv> (if rc_Addr rc = [] then ''localhost:6379'' else rc_Addr rc)"

lemma quota_float:
  assumes "2 \<le> n" and "n \<le> 2 ^ 30"
  shows "\<exists>p. f_mul (f_div (Fin (of_int n)) (Fin 60)) (f_of_int 60) = Fin p \<and> of_int n - 1 < p \<and> p < of_int n + 1"
proof -
  let ?x = "real_of_int n"
  have x: "2 \<le> ?x" "?x \<le> 2 ^ 30"
    using assms of_int_le_iff [of 2 n, where ?'a = real] of_int_le_iff [of n "2 ^ 30", where ?'a = real]
    by (simp_all only: of_int_power of_int_numeral)
  have q: "round64 (?x / 60) = Fin (rnd (?x / 60))" "0 \<le> rnd (?x / 60)" "rnd (?x / 60) \<le> of_int (2 ^ 30)"
    using round_sum [of "?x / 60" "2 ^ 30"] x by auto
  have e1: "\<bar>rnd (?x / 60) - ?x / 60\<bar> \<le> 2 powi (30 - 54)" using x by (intro rnd_error_below) simp_all
  let ?y = "rnd (?x / 60) * 60"
  have y: "0 \<le> ?y" "?y \<le> of_int (2 ^ 36)" using q by simp_all
  have p: "round64 ?y = Fin (rnd ?y)" using round_sum [OF y] by simp
  have e2: "\<bar>rnd ?y - ?y\<bar> \<le> 2 powi (37 - 54)" using y by (intro rnd_error_below) simp_all
  have "(2::real) powi (30 - 54) = 1 / 16777216" "(2::real) powi (37 - 54) = 1 / 131072"
    by (simp_all add: power_int_minus)
  with e1 e2 have "?x - 1 < rnd ?y" "rnd ?y < ?x + 1" by linarith+
  then show ?thesis using q p by (simp add: f_of_int_small)
qed

lemma trunc_between:
  assumes "of_int n - 1 < p" and "p < of_int n + 1" and "1 \<le> n" and "n \<le> 2 ^ 30"
  shows "f_to_int64 (Fin p) = n \<or> f_to_int64 (Fin p) = n - 1"
proof -
  have "n - 1 \<le> \<lfloor>p\<rfloor>" "\<lfloor>p\<rfloor> \<le> n" using assms by linarith+
  then have "\<lfloor>p\<rfloor> = n \<or> \<lfloor>p\<rfloor> = n - 1" by linarith
  moreover have "0 \<le> p" using assms(1,3) by linarith
  moreover have "- (2 ^ 63) \<le> k \<and> k < 2 ^ 63" if "n - 1 \<le> k" "k \<le> n" for k
    using assms(3,4) that by simp
  ultimately show ?thesis
    using \<open>n - 1 \<le> \<lfloor>p\<rfloor>\<close> \<open>\<lfloor>p\<rfloor> \<le> n\<close> by (simp only: f_to_int64.simps Let_def if_True simp_thms)
qed

text \<open>
  A configured quota of \<open>n\<close> requests per minute makes a Redis limiter with a window of
  one minute and a limit of \<open>n\<close> or, where the quotient rounds down, \<open>n - 1\<close>, with the
  token bucket of the same rate as fallback.
\<close>

theorem factory_redis_quota:
  assumes "2 \<le> n" and "n \<le> 2 ^ 30" and "lc_Backend cfg = ''redis''"
    and "lc_RequestsPerMin cfg = Fin (of_int n)" and "lc_WindowSeconds cfg = 60 \<or> lc_WindowSeconds cfg \<le> 0"
  shows "\<exists>limit opts. (limit = n \<or> limit = n - 1)
    \<and> NewFromConfig cfg = Inr (RedisBacked opts (newRedisLimiter (redis_addr (lc_Redis cfg)) 60000 limit
        (tb_New (f_div (Fin (of_int n)) (Fin 60)) (if f_le (lc_Burst cfg) (Fin 0) then Fin 10 else lc_Burst cfg))))"
proof -
  obtain p where p: "f_mul (f_div (Fin (of_int n)) (Fin 60)) (f_of_int 60) = Fin p"
    "of_int n - 1 < p" "p < of_int n + 1"
    using quota_float [OF assms(1,2)] by blast
  have l: "f_to_int64 (Fin p) = n \<or> f_to_int64 (Fin p) = n - 1"
    using p assms(1,2) by (intro trunc_between) simp_all
  then have pos: "\<not> f_to_int64 (Fin p) \<le> 0" using assms(1) by linarith
  have secs: "(if lc_WindowSeconds cfg \<le> 0 then 60 else lc_WindowSeconds cfg) = 60" using assms(5) by auto
  show ?thesis
    using l by (intro exI [of _ "f_to_int64 (Fin p)"])
      (auto simp add: NewFromConfig_def Let_def assms(3,4) secs p(1) pos buildRedisLimiter_def redis_options_def
        simp del: f_to_int64.simps f_mul.simps f_div.simps)
qed

definition sample_cfg :: "int \<Rightarrow> LimiterConfig" where
  "sample_cfg n = \<lparr>lc_Backend = ''redis'', lc_Redis = \<lparr>rc_Addr = [], rc_Password = [], rc_DB = 0,
      rc_DialTimeout = 0, rc_ReadTimeout = 0, rc_WriteTimeout = 0, rc_PoolSize = 0, rc_MinIdleConns = 0\<rparr>,
     lc_RequestsPerMin = Fin (of_int n), lc_Burst = Fin 10, lc_WindowSeconds = 60, lc_FallbackPolicy = ''pass''\<rparr>"

theorem factory_redis_quota_witness:
  "\<exists>limit opts. (limit = 100 \<or> limit = 100 - 1)
    \<and> NewFromConfig (sample_cfg 100) = Inr (RedisBacked opts (newRedisLimiter (redis_addr (lc_Redis (sample_cfg 100))) 60000 limit
        (tb_New (f_div (Fin (of_int 100)) (Fin 60)) (if f_le (lc_Burst (sample_cfg 100)) (Fin 0) then Fin 10
          else lc_Burst (sample_cfg 100)))))"
  by (rule factory_redis_quota) (simp_all add: sample_cfg_def)

text \<open>
  A quota of 123 requests per minute is enforced as 122: \<open>123 / 60.0 * 60\<close> is below 123
  in binary64 and \<open>int64\<close> truncates.
\<close>

theorem quota_123_enforced_as_122:
  "\<exists>opts mem. NewFromConfig (sample_cfg 123) = Inr (RedisBacked opts (newRedisLimiter ''localhost:6379'' 60000 122 mem))"
proof -
  have e1: "expo (41 / 20) = 1" by (simp add: expo_def numeral_eq_Suc)
  have r1: "rnd (41 / 20) = of_int 4616189618054758 * 2 powi (- 51)"
    by (simp add: rnd_def rnd_pos_def quantum_def e1 rne_def Let_def power_int_minus)
  let ?y = "of_int 4616189618054758 * 2 powi (- 51) * (60::real)"
  have e2: "expo ?y = 6" by (simp add: expo_def numeral_eq_Suc power_int_minus)
  have r2: "rnd ?y = of_int 8655355533852671 * 2 powi (- 46)"
    by (simp only: rnd_def rnd_pos_def quantum_def e2) (simp add: rne_def Let_def power_int_minus)
  have "f_div (Fin 123) (Fin 60) = Fin (of_int 4616189618054758 * 2 powi (- 51))"
    by (simp add: round64_small r1)
  moreover have "f_mul (Fin (of_int 4616189618054758 * 2 powi (- 51))) (f_of_int 60) = Fin (of_int 8655355533852671 * 2 powi (- 46))"
  proof -
    have "round64 ?y = Fin (rnd ?y)" by (rule round64_small) (simp add: power_int_minus)
    then show ?thesis by (simp only: f_of_int_small f_mul.simps r2) (simp add: f_of_int_small r2)
  qed
  moreover have "f_to_int64 (Fin (of_int 8655355533852671 * 2 powi (- 46))) = 122"
    by (simp add: power_int_minus Let_def)
  ultimately have "f_to_int64 (f_mul (f_div (Fin 123) (Fin 60)) (f_of_int 60)) = 122" by (simp only:)
  then show ?thesis
    by (simp add: NewFromConfig_def sample_cfg_def Let_def buildRedisLimiter_def redis_options_def
        exI [of _ "tb_New (f_div (Fin 123) (Fin 60)) (Fin 10)"] del: f_to_int64.simps f_mul.simps f_div.simps)
qed

end
