(* ===== verification/Config.thy ===== *)
theory Config
  imports Gw_Prelude Go_Float
begin

section \<open>The configuration and its validation (\<open>internal/config\<close>)\<close>

text \<open>
  The typed configuration, \<open>Validate\<close>, and the loader that re-reads the file and fans the
  result out to subscribers. Reading the file and parsing YAML are parameters; so is
  \<open>regexp.Compile\<close>, which gives the compiled pattern's \<open>MatchString\<close>. An error message of
  \<open>Validate\<close> is a constructor that carries what the message prints.
\<close>

subsection \<open>The data\<close>

record TLSConfig =
  tls_Enabled :: bool
  tls_CertFile :: string
  tls_KeyFile :: string

record TimeoutConfig =
  to_ReadHeader :: duration
  to_Read :: duration
  to_Write :: duration
  to_Idle :: duration

record GatewayConfig =
  gc_Port :: int
  gc_TLS :: TLSConfig
  gc_Timeouts :: TimeoutConfig
  gc_GlobalTimeout :: duration
  gc_MaxConcurrent :: int

record TransportConfig =
  tc_MaxIdleConns :: int
  tc_MaxIdleConnsPerHost :: int
  tc_MaxConnsPerHost :: int
  tc_IdleConnTimeout :: duration
  tc_TLSHandshakeTimeout :: duration

record HealthCheckConfig =
  hck_Path :: string
  hck_Interval :: duration
  hck_Timeout :: duration
  hck_FailureThreshold :: int
  hck_SuccessThreshold :: int

record InstanceConfig =
  ic_ID :: string
  ic_Address :: string
  ic_Weight :: int

record SmartRoutingConfig =
  src_ExplorationRate :: f64
  src_MaxTolerableLatency :: duration
  src_MaxConcurrentRequest :: f64
  src_Latency :: f64
  src_Errors :: f64
  src_Load :: f64

record ServiceConfig =
  svc_Name :: string
  svc_LBStrategy :: string
  svc_SmartRouting :: SmartRoutingConfig
  svc_HealthCheck :: HealthCheckConfig
  svc_Instances :: "InstanceConfig list"
  svc_Transport :: TransportConfig

record PluginRef =
  pr_Name :: string
  pr_Order :: int
  pr_Config :: "string \<rightharpoonup> yval"

record RouteConfig =
  rc_ID :: string
  rc_Methods :: "string list"
  rc_Path :: string
  rc_MatchType :: string
  rc_StripPrefix :: bool
  rc_Service :: string
  rc_Timeout :: duration
  rc_MaxBodyBytes :: int
  rc_Plugins :: "PluginRef list"

record PluginDef =
  pd_Name :: string
  pd_Type :: string

record ExternalPluginConfig =
  ep_Name :: string
  ep_Address :: string
  ep_Timeout :: duration
  ep_OnError :: string
  ep_HealthPath :: string
  ep_HealthInterval :: duration

record config =
  cf_Gateway :: GatewayConfig
  cf_Services :: "ServiceConfig list"
  cf_Routes :: "RouteConfig list"
  cf_Plugins :: "PluginDef list"
  cf_ExternalPlugins :: "ExternalPluginConfig list"

subsection \<open>\<open>Validate\<close>\<close>

type_synonym regex_compiler = "string \<Rightarrow> (string \<Rightarrow> bool) option"

datatype config_error =
    PortRequired
  | ServiceNameRequired nat
  | DuplicateService string
  | UnsupportedLB string string
  | NoInstances string
  | PluginNameRequired nat
  | RouteIdRequired nat
  | DuplicateRouteId string
  | PathRequired nat string
  | InvalidMatchType nat string string
  | InvalidRegex nat string
  | UnknownService nat string string
  | EmptyPluginRef nat string
  | UnknownPlugin nat string string
  | SameOrder nat string string string int
  | TooManyRegex nat

abbreviation maxRegexRoutes :: nat where "maxRegexRoutes \<equiv> 20"

fun validate_services :: "nat \<Rightarrow> ServiceConfig list \<Rightarrow> string set \<Rightarrow> config_error list \<times> string set" where
  "validate_services i [] names = ([], names)"
| "validate_services i (svc # svcs) names =
     (if svc_Name svc = [] then
        (let (errs, names') = validate_services (Suc i) svcs names in (ServiceNameRequired i # errs, names'))
      else
        let e1 = (if svc_Name svc \<in> names then [DuplicateService (svc_Name svc)] else []);
            e2 = (if svc_LBStrategy svc \<in> {''round-robin'', ''random'', ''smart'', []} then []
                  else [UnsupportedLB (svc_Name svc) (svc_LBStrategy svc)]);
            e3 = (if svc_Instances svc = [] then [NoInstances (svc_Name svc)] else []);
            (errs, names') = validate_services (Suc i) svcs (insert (svc_Name svc) names)
        in (e1 @ e2 @ e3 @ errs, names'))"

fun validate_plugins :: "nat \<Rightarrow> PluginDef list \<Rightarrow> string set \<Rightarrow> config_error list \<times> string set" where
  "validate_plugins i [] names = ([], names)"
| "validate_plugins i (p # ps) names =
     (if pd_Name p = [] then
        (let (errs, names') = validate_plugins (Suc i) ps names in (PluginNameRequired i # errs, names'))
      else validate_plugins (Suc i) ps (insert (pd_Name p) names))"

text \<open>The plugin references of one route; \<open>seen\<close> is \<open>ordersSeen\<close>.\<close>

fun validate_refs :: "nat \<Rightarrow> string \<Rightarrow> string set \<Rightarrow> PluginRef list \<Rightarrow> (int \<rightharpoonup> string) \<Rightarrow> config_error list" where
  "validate_refs i rid names [] seen = []"
| "validate_refs i rid names (pr # prs) seen =
     (if pr_Name pr = [] then EmptyPluginRef i rid # validate_refs i rid names prs seen
      else
        let e1 = (if pr_Name pr \<in> names then [] else [UnknownPlugin i rid (pr_Name pr)]);
            e2 = (case seen (pr_Order pr) of
                    Some existing \<Rightarrow> [SameOrder i rid existing (pr_Name pr) (pr_Order pr)]
                  | None \<Rightarrow> [])
        in e1 @ e2 @ validate_refs i rid names prs (seen(pr_Order pr \<mapsto> pr_Name pr)))"

text \<open>The route loop: the errors, the routes with their defaults, and \<open>regexCount\<close>.\<close>

fun validate_routes ::
  "regex_compiler \<Rightarrow> string set \<Rightarrow> string set \<Rightarrow> nat \<Rightarrow> RouteConfig list \<Rightarrow> string set \<Rightarrow> nat
    \<Rightarrow> config_error list \<times> RouteConfig list \<times> nat" where
  "validate_routes rx services plugins i [] ids n = ([], [], n)"
| "validate_routes rx services plugins i (r # rs) ids n =
     (let (e1, ids') = (if rc_ID r = [] then ([RouteIdRequired i], ids)
                        else if rc_ID r \<in> ids then ([DuplicateRouteId (rc_ID r)], ids)
                        else ([], insert (rc_ID r) ids));
          e2 = (if rc_Path r = [] then [PathRequired i (rc_ID r)] else []);
          (e3, r') = (if rc_MatchType r = [] then ([], r\<lparr>rc_MatchType := ''prefix''\<rparr>)
                      else if rc_MatchType r \<notin> {''exact'', ''prefix'', ''regex''}
                      then ([InvalidMatchType i (rc_ID r) (rc_MatchType r)], r)
                      else ([], r));
          (e4, n') = (if rc_MatchType r = ''regex''
                      then (if rx (rc_Path r) = None then [InvalidRegex i (rc_ID r)] else [], Suc n)
                      else ([], n));
          e5 = (if rc_Service r \<in> services then [] else [UnknownService i (rc_ID r) (rc_Service r)]);
          e6 = validate_refs i (rc_ID r) plugins (rc_Plugins r) Map.empty;
          (errs, rs', n'') = validate_routes rx services plugins (Suc i) rs ids' n'
      in (e1 @ e2 @ e3 @ e4 @ e5 @ e6 @ errs, r' # rs', n''))"

definition Validate :: "regex_compiler \<Rightarrow> config \<Rightarrow> config_error list \<times> config" where
  "Validate rx cfg =
     (let e0 = (if gc_Port (cf_Gateway cfg) = 0 then [PortRequired] else []);
          gw = (if gc_MaxConcurrent (cf_Gateway cfg) = 0 then (cf_Gateway cfg)\<lparr>gc_MaxConcurrent := 1000\<rparr>
                else cf_Gateway cfg);
          (e1, serviceNames) = validate_services 0 (cf_Services cfg) {};
          (e2, pluginNames) = validate_plugins 0 (cf_Plugins cfg) {};
          (e3, routes, regexCount) = validate_routes rx serviceNames pluginNames 0 (cf_Routes cfg) {} 0;
          e4 = (if regexCount > maxRegexRoutes then [TooManyRegex regexCount] else [])
      in (e0 @ e1 @ e2 @ e3 @ e4, cfg\<lparr>cf_Gateway := gw, cf_Routes := routes\<rparr>))"

subsection \<open>The loader\<close>

text \<open>
  A subscriber is a buffered channel. \<open>source\<close> is what \<open>os.ReadFile\<close> and
  \<open>yaml.Unmarshal\<close> give at the time of a load.
\<close>

record config_chan =
  ch_cap :: nat
  ch_buf :: "config list"

record loader =
  ld_current :: config
  ld_subscribers :: "config_chan list"

datatype load_error = ReadFailed | ParseFailed | Invalid "config_error list"

datatype config_source = NoFile | BadYaml | Parsed config

definition loadAndValidate :: "regex_compiler \<Rightarrow> config_source \<Rightarrow> load_error + config" where
  "loadAndValidate rx src =
     (case src of
        NoFile \<Rightarrow> Inl ReadFailed
      | BadYaml \<Rightarrow> Inl ParseFailed
      | Parsed cfg \<Rightarrow> (let (errs, cfg') = Validate rx cfg in if errs = [] then Inr cfg' else Inl (Invalid errs)))"

definition NewLoader :: "regex_compiler \<Rightarrow> config_source \<Rightarrow> load_error + loader" where
  "NewLoader rx src =
     (case loadAndValidate rx src of
        Inl e \<Rightarrow> Inl e
      | Inr cfg \<Rightarrow> Inr \<lparr>ld_current = cfg, ld_subscribers = []\<rparr>)"

text \<open>The atomic load of \<open>Current\<close>.\<close>

definition Current :: "loader \<Rightarrow> config" where
  [simp]: "Current l = ld_current l"

definition Subscribe :: "config_chan \<Rightarrow> loader \<Rightarrow> loader" where
  "Subscribe ch l = l\<lparr>ld_subscribers := ld_subscribers l @ [ch]\<rparr>"

definition chan_offer :: "config \<Rightarrow> config_chan \<Rightarrow> config_chan" where
  "chan_offer cfg ch = (if length (ch_buf ch) < ch_cap ch then ch\<lparr>ch_buf := ch_buf ch @ [cfg]\<rparr> else ch)"

definition fanOut :: "config \<Rightarrow> loader \<Rightarrow> loader" where
  "fanOut cfg l = l\<lparr>ld_subscribers := map (chan_offer cfg) (ld_subscribers l)\<rparr>"

definition ForceReload :: "regex_compiler \<Rightarrow> config_source \<Rightarrow> loader \<Rightarrow> (load_error + config) \<times> loader" where
  "ForceReload rx src l =
     (case loadAndValidate rx src of
        Inl e \<Rightarrow> (Inl e, l)
      | Inr cfg \<Rightarrow> (Inr cfg, fanOut cfg (l\<lparr>ld_current := cfg\<rparr>)))"

text \<open>
  The goroutine \<open>watch\<close> once its watcher is set up. \<open>wt_timers\<close> holds the timers of the
  Go runtime that were started by \<open>AfterFunc\<close> and have neither run nor been stopped, each with
  its number and its deadline; the variable \<open>debounceTimer\<close> is the number of the last one
  started. The runtime may try to run timer \<open>k\<close> at any time (\<open>TimerFires now k src\<close>, where
  \<open>src\<close> is what the file then contains); nothing happens before its deadline or when it is no
  longer pending.
\<close>

datatype fs_event = FsWrite | FsCreate | FsOther

datatype watch_event = FileEvent fs_event gotime | EventsClosed | WatchError | ErrorsClosed
  | TimerFires gotime nat config_source

record watcher =
  wt_running :: bool
  wt_debounceTimer :: "nat option"
  wt_timers :: "(nat \<times> gotime) list"
  wt_started :: nat

definition new_watcher :: watcher where
  "new_watcher = \<lparr>wt_running = True, wt_debounceTimer = None, wt_timers = [], wt_started = 0\<rparr>"

abbreviation reloadDebounce :: duration where "reloadDebounce \<equiv> 200 * millisecond"

definition timer_Stop :: "nat \<Rightarrow> watcher \<Rightarrow> watcher" where
  "timer_Stop k w = w\<lparr>wt_timers := filter (\<lambda>t. fst t \<noteq> k) (wt_timers w)\<rparr>"

definition timer_AfterFunc :: "gotime \<Rightarrow> duration \<Rightarrow> watcher \<Rightarrow> nat \<times> watcher" where
  "timer_AfterFunc now d w =
     (wt_started w, w\<lparr>wt_timers := wt_timers w @ [(wt_started w, now + d)], wt_started := Suc (wt_started w)\<rparr>)"

fun watch_step :: "regex_compiler \<Rightarrow> watch_event \<Rightarrow> watcher \<times> loader \<Rightarrow> watcher \<times> loader" where
  "watch_step rx (FileEvent ev now) (w, l) =
     (if wt_running w \<and> ev \<in> {FsWrite, FsCreate}
      then let w1 = (case wt_debounceTimer w of None \<Rightarrow> w | Some k \<Rightarrow> timer_Stop k w);
               (k, w2) = timer_AfterFunc now reloadDebounce w1
           in (w2\<lparr>wt_debounceTimer := Some k\<rparr>, l)
      else (w, l))"
| "watch_step rx EventsClosed (w, l) = (w\<lparr>wt_running := False\<rparr>, l)"
| "watch_step rx ErrorsClosed (w, l) = (w\<lparr>wt_running := False\<rparr>, l)"
| "watch_step rx WatchError (w, l) = (w, l)"
| "watch_step rx (TimerFires now k src) (w, l) =
     (if \<exists>t \<in> set (wt_timers w). fst t = k \<and> snd t \<le> now
      then (timer_Stop k w,
          (case loadAndValidate rx src of
             Inl e \<Rightarrow> l
           | Inr cfg \<Rightarrow> fanOut cfg (l\<lparr>ld_current := cfg\<rparr>)))
      else (w, l))"

subsection \<open>What an accepted configuration satisfies\<close>

definition route_ok :: "regex_compiler \<Rightarrow> string set \<Rightarrow> string set \<Rightarrow> RouteConfig \<Rightarrow> bool" where
  "route_ok rx services plugins r \<longleftrightarrow> rc_ID r \<noteq> [] \<and> rc_Path r \<noteq> []
     \<and> rc_MatchType r \<in> {[], ''exact'', ''prefix'', ''regex''}
     \<and> (rc_MatchType r = ''regex'' \<longrightarrow> rx (rc_Path r) \<noteq> None)
     \<and> rc_Service r \<in> services
     \<and> (\<forall>pr \<in> set (rc_Plugins r). pr_Name pr \<noteq> [] \<and> pr_Name pr \<in> plugins)
     \<and> distinct (map pr_Order (rc_Plugins r))"

definition service_ok :: "ServiceConfig \<Rightarrow> bool" where
  "service_ok svc \<longleftrightarrow> svc_Name svc \<noteq> [] \<and> svc_LBStrategy svc \<in> {''round-robin'', ''random'', ''smart'', []}
     \<and> svc_Instances svc \<noteq> []"

definition valid_config :: "regex_compiler \<Rightarrow> config \<Rightarrow> bool" where
  "valid_config rx cfg \<longleftrightarrow> gc_Port (cf_Gateway cfg) \<noteq> 0
     \<and> (\<forall>svc \<in> set (cf_Services cfg). service_ok svc) \<and> distinct (map svc_Name (cf_Services cfg))
     \<and> (\<forall>p \<in> set (cf_Plugins cfg). pd_Name p \<noteq> [])
     \<and> (\<forall>r \<in> set (cf_Routes cfg). route_ok rx (svc_Name ` set (cf_Services cfg)) (pd_Name ` set (cf_Plugins cfg)) r)
     \<and> distinct (map rc_ID (cf_Routes cfg))
     \<and> length (filter (\<lambda>r. rc_MatchType r = ''regex'') (cf_Routes cfg)) \<le> maxRegexRoutes"

lemma validate_services_names:
  "snd (validate_services i svcs names) = names \<union> (svc_Name ` set svcs - {[]})"
  by (induction i svcs names rule: validate_services.induct) (auto simp: Let_def split: prod.splits)

lemma validate_services_ok:
  "fst (validate_services i svcs names) = [] \<longleftrightarrow>
    (\<forall>svc \<in> set svcs. service_ok svc) \<and> distinct (map svc_Name svcs) \<and> svc_Name ` set svcs \<inter> names = {}"
proof (induction i svcs names rule: validate_services.induct)
  case (2 i svc svcs names)
  show ?case
  proof (cases "svc_Name svc = []")
    case True
    then show ?thesis by (simp add: service_ok_def split: prod.split)
  next
    case False
    then show ?thesis using 2(2) [OF False refl refl refl]
      by (auto simp: service_ok_def Let_def split: prod.splits)
  qed
qed simp

lemma validate_plugins_names:
  "snd (validate_plugins i ps names) = names \<union> (pd_Name ` set ps - {[]})"
  by (induction i ps names rule: validate_plugins.induct) (auto split: prod.splits)

lemma validate_plugins_ok: "fst (validate_plugins i ps names) = [] \<longleftrightarrow> (\<forall>p \<in> set ps. pd_Name p \<noteq> [])"
  by (induction i ps names rule: validate_plugins.induct) (auto split: prod.splits)

lemma validate_refs_ok:
  "validate_refs i rid names prs seen = [] \<longleftrightarrow>
    (\<forall>pr \<in> set prs. pr_Name pr \<noteq> [] \<and> pr_Name pr \<in> names) \<and> distinct (map pr_Order prs)
      \<and> pr_Order ` set prs \<inter> dom seen = {}"
proof (induction prs arbitrary: seen)
  case (Cons pr prs)
  show ?case using Cons.IH [of "seen(pr_Order pr \<mapsto> pr_Name pr)"]
    by (cases "seen (pr_Order pr)") (auto simp del: fun_upd_apply)
qed simp

abbreviation default_match :: "RouteConfig \<Rightarrow> RouteConfig" where
  "default_match r \<equiv> (if rc_MatchType r = [] then r\<lparr>rc_MatchType := ''prefix''\<rparr> else r)"

definition route_errors :: "regex_compiler \<Rightarrow> string set \<Rightarrow> string set \<Rightarrow> nat \<Rightarrow> RouteConfig \<Rightarrow> string set \<Rightarrow> config_error list" where
  "route_errors rx services plugins i r ids =
     (if rc_ID r = [] then [RouteIdRequired i] else if rc_ID r \<in> ids then [DuplicateRouteId (rc_ID r)] else [])
     @ (if rc_Path r = [] then [PathRequired i (rc_ID r)] else [])
     @ (if rc_MatchType r \<in> {[], ''exact'', ''prefix'', ''regex''} then [] else [InvalidMatchType i (rc_ID r) (rc_MatchType r)])
     @ (if rc_MatchType r = ''regex'' \<and> rx (rc_Path r) = None then [InvalidRegex i (rc_ID r)] else [])
     @ (if rc_Service r \<in> services then [] else [UnknownService i (rc_ID r) (rc_Service r)])
     @ validate_refs i (rc_ID r) plugins (rc_Plugins r) Map.empty"

lemma route_errors_Nil: "route_errors rx services plugins i r ids = [] \<longleftrightarrow> route_ok rx services plugins r \<and> rc_ID r \<notin> ids"
  by (simp add: route_errors_def route_ok_def validate_refs_ok)

lemma validate_routes_Cons:
  "validate_routes rx services plugins i (r # rs) ids n =
    (let (errs, rs', n') = validate_routes rx services plugins (Suc i) rs
           (if rc_ID r = [] \<or> rc_ID r \<in> ids then ids else insert (rc_ID r) ids)
           (if rc_MatchType r = ''regex'' then Suc n else n)
     in (route_errors rx services plugins i r ids @ errs, default_match r # rs', n'))"
  by (cases "rc_ID r = []"; cases "rc_ID r \<in> ids"; cases "rc_MatchType r = ''regex''")
    (simp_all add: route_errors_def Let_def split: prod.split)

declare validate_routes.simps(2) [simp del]

lemma validate_routes_cases:
  "validate_routes rx services plugins i (r # rs) ids n = (errs, rs', n'') \<Longrightarrow>
   \<exists>errs1 rs1. validate_routes rx services plugins (Suc i) rs
       (if rc_ID r = [] \<or> rc_ID r \<in> ids then ids else insert (rc_ID r) ids)
       (if rc_MatchType r = ''regex'' then Suc n else n) = (errs1, rs1, n'')
     \<and> rs' = default_match r # rs1
     \<and> (errs = [] \<longleftrightarrow> errs1 = [] \<and> route_ok rx services plugins r \<and> rc_ID r \<notin> ids)"
  unfolding validate_routes_Cons Let_def using route_errors_Nil [of rx services plugins i r ids]
  by (cases "validate_routes rx services plugins (Suc i) rs
       (if rc_ID r = [] \<or> rc_ID r \<in> ids then ids else insert (rc_ID r) ids)
       (if rc_MatchType r = ''regex'' then Suc n else n)") auto

lemma validate_routes_result:
  "validate_routes rx services plugins i rs ids n = (errs, rs', n') \<Longrightarrow>
    rs' = map default_match rs \<and> n' = n + length (filter (\<lambda>r. rc_MatchType r = ''regex'') rs)"
proof (induction rs arbitrary: i ids n errs rs')
  case (Cons r rs)
  obtain errs1 rs1 where 1: "validate_routes rx services plugins (Suc i) rs
       (if rc_ID r = [] \<or> rc_ID r \<in> ids then ids else insert (rc_ID r) ids)
       (if rc_MatchType r = ''regex'' then Suc n else n) = (errs1, rs1, n')" and e: "rs' = default_match r # rs1"
    using validate_routes_cases [OF Cons.prems] by blast
  show ?case using Cons.IH [OF 1] e by simp
qed simp

lemma validate_routes_ok:
  "validate_routes rx services plugins i rs ids n = (errs, rs', n') \<Longrightarrow>
    errs = [] \<longleftrightarrow> (\<forall>r \<in> set rs. route_ok rx services plugins r) \<and> distinct (map rc_ID rs) \<and> rc_ID ` set rs \<inter> ids = {}"
proof (induction rs arbitrary: i ids n errs rs')
  case (Cons r rs)
  obtain errs1 rs1 where 1: "validate_routes rx services plugins (Suc i) rs
       (if rc_ID r = [] \<or> rc_ID r \<in> ids then ids else insert (rc_ID r) ids)
       (if rc_MatchType r = ''regex'' then Suc n else n) = (errs1, rs1, n')"
    and e: "errs = [] \<longleftrightarrow> errs1 = [] \<and> route_ok rx services plugins r \<and> rc_ID r \<notin> ids"
    using validate_routes_cases [OF Cons.prems] by blast
  show ?case
  proof (cases "route_ok rx services plugins r \<and> rc_ID r \<notin> ids")
    case True
    then have "rc_ID r \<noteq> []" by (simp add: route_ok_def)
    then show ?thesis using e Cons.IH [OF 1] True by auto
  next
    case False
    then show ?thesis using e by auto
  qed
qed simp

lemma valid_config_iff: "fst (Validate rx cfg) = [] \<longleftrightarrow> valid_config rx cfg"
proof -
  obtain e1 names where s: "validate_services 0 (cf_Services cfg) {} = (e1, names)" by fastforce
  obtain e2 pnames where p: "validate_plugins 0 (cf_Plugins cfg) {} = (e2, pnames)" by fastforce
  obtain e3 rs n where r: "validate_routes rx names pnames 0 (cf_Routes cfg) {} 0 = (e3, rs, n)"
    by (metis prod_cases3)
  have names: "names = svc_Name ` set (cf_Services cfg) - {[]}"
    using validate_services_names [of 0 "cf_Services cfg" "{}"] s by simp
  have pnames: "pnames = pd_Name ` set (cf_Plugins cfg) - {[]}"
    using validate_plugins_names [of 0 "cf_Plugins cfg" "{}"] p by simp
  have s_ok: "e1 = [] \<longleftrightarrow> (\<forall>svc \<in> set (cf_Services cfg). service_ok svc) \<and> distinct (map svc_Name (cf_Services cfg))"
    using validate_services_ok [of 0 "cf_Services cfg" "{}"] s by simp
  have p_ok: "e2 = [] \<longleftrightarrow> (\<forall>p \<in> set (cf_Plugins cfg). pd_Name p \<noteq> [])"
    using validate_plugins_ok [of 0 "cf_Plugins cfg" "{}"] p by simp
  have "e1 = [] \<Longrightarrow> names = svc_Name ` set (cf_Services cfg)" "e2 = [] \<Longrightarrow> pnames = pd_Name ` set (cf_Plugins cfg)"
    using s_ok p_ok by (auto simp: names pnames service_ok_def)
  then show ?thesis
    using validate_routes_ok [OF r] validate_routes_result [OF r] s_ok p_ok
    by (auto simp: Validate_def valid_config_def s p r Let_def)
qed

text \<open>
  C20: \<open>Validate\<close> reports no error exactly for the configurations that satisfy its rules:
  named and unique services with a known strategy and an instance, named plugins, unique
  routes with a path, a known match type, a pattern that compiles, an existing service and
  declared plugins in distinct positions, and at most 20 regex routes.
\<close>

theorem Validate_exact: "fst (Validate rx cfg) = [] \<longleftrightarrow> valid_config rx cfg"
  by (rule valid_config_iff)

lemma validate_routes_default:
  "validate_routes rx services plugins i (map default_match rs) ids n = validate_routes rx services plugins i rs ids n"
proof (induction rs arbitrary: i ids n)
  case (Cons r rs)
  have "route_errors rx services plugins i (default_match r) ids = route_errors rx services plugins i r ids"
    by (simp add: route_errors_def)
  then show ?case using Cons.IH by (simp add: validate_routes_Cons)
qed simp

text \<open>
  Validation settles: the defaults it fills in (\<open>prefix\<close>, 1000 concurrent requests) give a
  configuration with the same verdict and nothing left to fill in.
\<close>

theorem Validate_idempotent: "Validate rx (snd (Validate rx cfg)) = Validate rx cfg"
proof -
  obtain e1 names where s: "validate_services 0 (cf_Services cfg) {} = (e1, names)" by fastforce
  obtain e2 pnames where p: "validate_plugins 0 (cf_Plugins cfg) {} = (e2, pnames)" by fastforce
  obtain e3 rs n where r: "validate_routes rx names pnames 0 (cf_Routes cfg) {} 0 = (e3, rs, n)"
    by (metis prod_cases3)
  have "rs = map default_match (cf_Routes cfg)" using validate_routes_result [OF r] by simp
  then have "validate_routes rx names pnames 0 rs {} 0 = (e3, rs, n)" using validate_routes_default r by simp
  then show ?thesis by (simp add: Validate_def s p r Let_def)
qed

lemma Validate_settles: "Validate rx cfg = ([], cfg') \<Longrightarrow> Validate rx cfg' = ([], cfg')"
proof -
  assume v: "Validate rx cfg = ([], cfg')"
  obtain e1 names where s: "validate_services 0 (cf_Services cfg) {} = (e1, names)" by fastforce
  obtain e2 pnames where p: "validate_plugins 0 (cf_Plugins cfg) {} = (e2, pnames)" by fastforce
  obtain e3 rs n where r: "validate_routes rx names pnames 0 (cf_Routes cfg) {} 0 = (e3, rs, n)"
    by (metis prod_cases3)
  have "rs = map default_match (cf_Routes cfg)" using validate_routes_result [OF r] by simp
  then have "validate_routes rx names pnames 0 rs {} 0 = (e3, rs, n)" using validate_routes_default r by simp
  then show ?thesis using v by (auto simp: Validate_def s p r Let_def split: if_splits)
qed

subsection \<open>The loader serves validated configurations only\<close>

text \<open>A history of the loader; \<open>Receive k\<close> is subscriber \<open>k\<close> taking a configuration.\<close>

datatype loader_event = Watch watch_event | Force config_source | NewSubscriber nat | Receive nat

fun loader_step :: "regex_compiler \<Rightarrow> loader_event \<Rightarrow> watcher \<times> loader \<Rightarrow> watcher \<times> loader" where
  "loader_step rx (Watch e) s = watch_step rx e s"
| "loader_step rx (Force src) (w, l) = (w, snd (ForceReload rx src l))"
| "loader_step rx (NewSubscriber cap) (w, l) = (w, Subscribe \<lparr>ch_cap = cap, ch_buf = []\<rparr> l)"
| "loader_step rx (Receive k) (w, l) =
     (w, if k < length (ld_subscribers l)
         then l\<lparr>ld_subscribers := (ld_subscribers l)[k := (ld_subscribers l ! k)\<lparr>ch_buf := tl (ch_buf (ld_subscribers l ! k))\<rparr>]\<rparr>
         else l)"

definition settled :: "regex_compiler \<Rightarrow> config \<Rightarrow> bool" where
  "settled rx cfg \<longleftrightarrow> Validate rx cfg = ([], cfg)"

definition loader_inv :: "regex_compiler \<Rightarrow> loader \<Rightarrow> bool" where
  "loader_inv rx l \<longleftrightarrow> settled rx (Current l)
     \<and> (\<forall>ch \<in> set (ld_subscribers l). \<forall>c \<in> set (ch_buf ch). settled rx c)"

lemma load_settled: "loadAndValidate rx src = Inr cfg \<Longrightarrow> settled rx cfg"
  by (auto simp: loadAndValidate_def settled_def Validate_settles split: config_source.splits prod.splits if_splits)

lemma fanOut_inv [gw_inv]: "loader_inv rx l \<Longrightarrow> settled rx cfg \<Longrightarrow> loader_inv rx (fanOut cfg (l\<lparr>ld_current := cfg\<rparr>))"
  by (auto simp: loader_inv_def fanOut_def chan_offer_def)

lemma loader_step_inv [gw_inv]: "loader_inv rx (snd s) \<Longrightarrow> loader_inv rx (snd (loader_step rx e s))"
proof (induction rx e s rule: loader_step.induct)
  case (1 rx e s)
  then show ?case
    by (induction rx e s rule: watch_step.induct)
      (auto simp: timer_AfterFunc_def Let_def split: option.split sum.split intro: fanOut_inv load_settled)
next
  case (2 rx src w l)
  then show ?case by (auto simp: ForceReload_def split: sum.split intro: fanOut_inv load_settled)
next
  case (3 rx cap w l)
  then show ?case by (auto simp: loader_inv_def Subscribe_def)
next
  case (4 rx k w l)
  have tl: "x \<in> set xs" if "x \<in> set (tl xs)" for x :: config and xs
    using that by (cases xs) auto
  have "\<forall>x \<in> set (ch_buf (ld_subscribers l ! k)). settled rx x" if "k < length (ld_subscribers l)"
    using 4 nth_mem [OF that] unfolding loader_inv_def snd_conv by blast
  with 4 show ?case
    by (auto simp: loader_inv_def dest!: subsetD [OF set_update_subset_insert] tl)
qed

lemma loader_run_inv: "loader_inv rx (snd s) \<Longrightarrow> loader_inv rx (snd (fold (loader_step rx) es s))"
  by (induction es arbitrary: s) (simp_all add: loader_step_inv)

text \<open>
  C21: Whatever happens to the file and to the watcher, a request for the current
  configuration and every configuration waiting for a subscriber has passed \<open>Validate\<close> and
  carries its defaults; a file that cannot be read, parsed or validated leaves the current
  configuration in place.
\<close>

theorem loader_only_valid:
  assumes "NewLoader rx src = Inr l0"
  shows "loader_inv rx (snd (fold (loader_step rx) es (w, l0)))"
  using assms
  by (intro loader_run_inv) (auto simp: NewLoader_def loader_inv_def split: sum.splits intro: load_settled)

text \<open>A small configuration for the witnesses.\<close>

definition sample_transport :: TransportConfig where
  "sample_transport = \<lparr>tc_MaxIdleConns = 0, tc_MaxIdleConnsPerHost = 0, tc_MaxConnsPerHost = 0,
     tc_IdleConnTimeout = 0, tc_TLSHandshakeTimeout = 0\<rparr>"

definition sample_service :: "string \<Rightarrow> string \<Rightarrow> ServiceConfig" where
  "sample_service name strategy =
     \<lparr>svc_Name = name, svc_LBStrategy = strategy,
      svc_SmartRouting = \<lparr>src_ExplorationRate = Fin 0, src_MaxTolerableLatency = 0, src_MaxConcurrentRequest = Fin 0,
        src_Latency = Fin 0, src_Errors = Fin 0, src_Load = Fin 0\<rparr>,
      svc_HealthCheck = \<lparr>hck_Path = [], hck_Interval = 0, hck_Timeout = 0, hck_FailureThreshold = 0, hck_SuccessThreshold = 0\<rparr>,
      svc_Instances = [\<lparr>ic_ID = ''i1'', ic_Address = ''h:1'', ic_Weight = 0\<rparr>], svc_Transport = sample_transport\<rparr>"

definition sample_route :: "string \<Rightarrow> string \<Rightarrow> string \<Rightarrow> RouteConfig" where
  "sample_route rid path service =
     \<lparr>rc_ID = rid, rc_Methods = [], rc_Path = path, rc_MatchType = [], rc_StripPrefix = False, rc_Service = service,
      rc_Timeout = 0, rc_MaxBodyBytes = 0, rc_Plugins = []\<rparr>"

definition sample_config :: "int \<Rightarrow> config" where
  "sample_config port =
     \<lparr>cf_Gateway = \<lparr>gc_Port = port, gc_TLS = \<lparr>tls_Enabled = False, tls_CertFile = [], tls_KeyFile = []\<rparr>,
        gc_Timeouts = \<lparr>to_ReadHeader = 0, to_Read = 0, to_Write = 0, to_Idle = 0\<rparr>, gc_GlobalTimeout = 0, gc_MaxConcurrent = 0\<rparr>,
      cf_Services = [sample_service ''s'' ''random''], cf_Routes = [sample_route ''r'' ''/'' ''s''], cf_Plugins = [],
      cf_ExternalPlugins = []\<rparr>"

lemma sample_loads:
  "port \<noteq> 0 \<Longrightarrow> \<exists>cfg. loadAndValidate rx (Parsed (sample_config port)) = Inr cfg"
  by (simp add: loadAndValidate_def Validate_def sample_config_def sample_service_def sample_route_def validate_routes.simps)

theorem loader_only_valid_witness:
  "\<exists>l0. NewLoader (\<lambda>_. None) (Parsed (sample_config 80)) = Inr l0
    \<and> loader_inv (\<lambda>_. None) (snd (fold (loader_step (\<lambda>_. None)) [Force BadYaml, Force (Parsed (sample_config 0))]
        (new_watcher, l0)))"
proof -
  obtain l0 where "NewLoader (\<lambda>_. None) (Parsed (sample_config 80)) = Inr l0"
    using sample_loads [of 80 "\<lambda>_. None"] by (auto simp: NewLoader_def)
  with loader_only_valid show ?thesis by blast
qed

subsection \<open>What a slow subscriber gets\<close>

text \<open>
  While a subscriber with the recommended channel of size one has not taken a
  configuration, further reloads are lost to it: after any number of successful reloads its
  channel holds the first of them, although \<open>Current\<close> is the last. It will apply a
  configuration that has already been replaced and nothing tells it so.
\<close>

theorem subscriber_left_with_oldest:
  assumes "list_all2 (\<lambda>src cfg. loadAndValidate rx src = Inr cfg) srcs cfgs" and "cfgs \<noteq> []"
    and "k < length (ld_subscribers l)" and "ld_subscribers l ! k = \<lparr>ch_cap = 1, ch_buf = []\<rparr>"
  shows "ch_buf (ld_subscribers (fold (\<lambda>src l. snd (ForceReload rx src l)) srcs l) ! k) = [hd cfgs]
    \<and> ld_current (fold (\<lambda>src l. snd (ForceReload rx src l)) srcs l) = last cfgs"
proof -
  have step: "k < length (ld_subscribers (snd (ForceReload rx src l)))
      \<and> ld_subscribers (snd (ForceReload rx src l)) ! k = chan_offer cfg (ld_subscribers l ! k)
      \<and> ld_current (snd (ForceReload rx src l)) = cfg"
    if "loadAndValidate rx src = Inr cfg" "k < length (ld_subscribers l)" for src cfg l
    using that by (simp add: ForceReload_def fanOut_def)
  have full: "ch_buf (ld_subscribers (fold (\<lambda>src l. snd (ForceReload rx src l)) srcs l) ! k) = [c]
      \<and> ld_current (fold (\<lambda>src l. snd (ForceReload rx src l)) srcs l) = last (ld_current l # cfgs)"
    if "list_all2 (\<lambda>src cfg. loadAndValidate rx src = Inr cfg) srcs cfgs"
      "k < length (ld_subscribers l)" "ld_subscribers l ! k = \<lparr>ch_cap = 1, ch_buf = [c]\<rparr>" for srcs cfgs l c
    using that
  proof (induction arbitrary: l rule: list_all2_induct)
    case (Cons src srcs cfg cfgs)
    then show ?case using step [OF Cons(1), of l] by (simp add: chan_offer_def)
  qed simp
  obtain src srcs' cfg cfgs' where eq: "srcs = src # srcs'" "cfgs = cfg # cfgs'"
    and l: "loadAndValidate rx src = Inr cfg" "list_all2 (\<lambda>src cfg. loadAndValidate rx src = Inr cfg) srcs' cfgs'"
    using assms(1,2) by (cases cfgs) (auto simp: list_all2_Cons2)
  have "ld_subscribers (snd (ForceReload rx src l)) ! k = \<lparr>ch_cap = 1, ch_buf = [cfg]\<rparr>"
    using step [OF l(1) assms(3)] assms(4) by (simp add: chan_offer_def)
  then show "ch_buf (ld_subscribers (fold (\<lambda>src l. snd (ForceReload rx src l)) srcs l) ! k) = [hd cfgs]
    \<and> ld_current (fold (\<lambda>src l. snd (ForceReload rx src l)) srcs l) = last cfgs"
    using full [OF l(2), of "snd (ForceReload rx src l)" cfg] step [OF l(1) assms(3)] by (simp_all add: eq)
qed

theorem subscriber_left_with_oldest_witness:
  "\<exists>c1 c2 l. loadAndValidate (\<lambda>_. None) (Parsed (sample_config 80)) = Inr c1
    \<and> loadAndValidate (\<lambda>_. None) (Parsed (sample_config 81)) = Inr c2
    \<and> ch_buf (ld_subscribers (fold (\<lambda>src l. snd (ForceReload (\<lambda>_. None) src l))
        [Parsed (sample_config 80), Parsed (sample_config 81)] l) ! 0) = [c1]"
proof -
  obtain c1 c2 where c: "loadAndValidate (\<lambda>_. None) (Parsed (sample_config 80)) = Inr c1"
    "loadAndValidate (\<lambda>_. None) (Parsed (sample_config 81)) = Inr c2"
    using sample_loads [of 80 "\<lambda>_. None"] sample_loads [of 81 "\<lambda>_. None"] by auto
  then have "ch_buf (ld_subscribers (fold (\<lambda>src l. snd (ForceReload (\<lambda>_. None) src l))
        [Parsed (sample_config 80), Parsed (sample_config 81)]
        \<lparr>ld_current = c1, ld_subscribers = [\<lparr>ch_cap = 1, ch_buf = []\<rparr>]\<rparr>) ! 0) = [hd [c1, c2]]
      \<and> ld_current (fold (\<lambda>src l. snd (ForceReload (\<lambda>_. None) src l))
        [Parsed (sample_config 80), Parsed (sample_config 81)]
        \<lparr>ld_current = c1, ld_subscribers = [\<lparr>ch_cap = 1, ch_buf = []\<rparr>]\<rparr>) = last [c1, c2]"
    by (intro subscriber_left_with_oldest) simp_all
  with c show ?thesis by (metis list.sel(1))
qed

subsection \<open>A burst of file events\<close>

text \<open>
  The events of a burst whose last write was at \<open>t\<close>: each further write or create event comes
  less than 200 ms after the one before, and the runtime may try any timer at any time in
  between. \<open>last_write\<close> is the time of the last write.
\<close>

fun write_burst :: "gotime \<Rightarrow> watch_event list \<Rightarrow> bool" where
  "write_burst t [] = True"
| "write_burst t (FileEvent ev now # es) \<longleftrightarrow> ev \<in> {FsWrite, FsCreate} \<and> now < t + 200 * millisecond \<and> write_burst now es"
| "write_burst t (TimerFires now k src # es) \<longleftrightarrow> now < t + 200 * millisecond \<and> write_burst t es"
| "write_burst t (_ # es) = False"

fun last_write :: "gotime \<Rightarrow> watch_event list \<Rightarrow> gotime" where
  "last_write t [] = t"
| "last_write t (FileEvent ev now # es) = last_write now es"
| "last_write t (_ # es) = last_write t es"

text \<open>The state after a write at \<open>t\<close>: one timer is pending, the one the variable names.\<close>

definition armed :: "gotime \<Rightarrow> watcher \<Rightarrow> bool" where
  "armed t w \<longleftrightarrow> wt_running w \<and> (\<exists>k. wt_debounceTimer w = Some k \<and> wt_timers w = [(k, t + 200 * millisecond)])"

lemma write_arms:
  assumes "wt_running w" and "wt_timers w = [] \<or> armed t' w" and "ev \<in> {FsWrite, FsCreate}"
  shows "\<exists>w'. watch_step rx (FileEvent ev now) (w, l) = (w', l) \<and> armed now w'"
  using assms by (cases "wt_debounceTimer w") (auto simp: armed_def timer_AfterFunc_def timer_Stop_def)

lemma early_timer: "armed t w \<Longrightarrow> now < t + 200 * millisecond \<Longrightarrow> watch_step rx (TimerFires now k src) (w, l) = (w, l)"
  by (auto simp: armed_def)

lemma burst_arms: "write_burst t es \<Longrightarrow> armed t w \<Longrightarrow> \<exists>w'. fold (watch_step rx) es (w, l) = (w', l) \<and> armed (last_write t es) w'"
proof (induction t es arbitrary: w rule: write_burst.induct)
  case (2 t ev now es)
  have "wt_running w" using 2(3) by (simp add: armed_def)
  then obtain w1 where w1: "watch_step rx (FileEvent ev now) (w, l) = (w1, l)" "armed now w1"
    using write_arms 2(2,3) by (metis write_burst.simps(2))
  then show ?case using 2(1) [OF _ w1(2)] 2(2) by simp
next
  case (3 t now k src es)
  then have "watch_step rx (TimerFires now k src) (w, l) = (w, l)" using early_timer by simp
  then show ?case using 3 by simp
qed auto

lemma idle_timers: "wt_timers w = [] \<Longrightarrow> \<forall>e \<in> set es. \<exists>now k src. e = TimerFires now k src \<Longrightarrow> fold (watch_step rx) es (w, l) = (w, l)"
  by (induction es) auto

text \<open>
  C39: An editor's burst of write and create events causes one reload. Start with no timer
  pending, and let each event come less than 200 ms after the one before: whatever timers the
  runtime tries meanwhile, nothing is reloaded up to 200 ms after the last event of the burst;
  then exactly one timer reloads, with the effect of one forced reload; and no timer does
  anything after that.
\<close>

theorem burst_reloads_once:
  assumes "wt_running w" and "wt_timers w = []" and "ev = FsWrite \<or> ev = FsCreate" and "write_burst t es"
  shows "\<exists>w' k. fold (watch_step rx) (FileEvent ev t # es) (w, l) = (w', l)
    \<and> (\<forall>now j src. watch_step rx (TimerFires now j src) (w', l) =
          (if j = k \<and> last_write t es + 200 * millisecond \<le> now then (w'\<lparr>wt_timers := []\<rparr>, snd (ForceReload rx src l)) else (w', l)))
    \<and> (\<forall>fs l'. (\<forall>e \<in> set fs. \<exists>now j src. e = TimerFires now j src) \<longrightarrow>
          fold (watch_step rx) fs (w'\<lparr>wt_timers := []\<rparr>, l') = (w'\<lparr>wt_timers := []\<rparr>, l'))"
proof -
  obtain w0 where w0: "watch_step rx (FileEvent ev t) (w, l) = (w0, l)" "armed t w0"
    using write_arms [of w t ev rx t l] assms(1-3) by auto
  from burst_arms [OF assms(4) w0(2)] obtain w'
    where w': "fold (watch_step rx) es (w0, l) = (w', l)" "armed (last_write t es) w'" by blast
  from w'(2) obtain k where k: "wt_timers w' = [(k, last_write t es + 200 * millisecond)]" by (auto simp: armed_def)
  have "watch_step rx (TimerFires now j src) (w', l) =
      (if j = k \<and> last_write t es + 200 * millisecond \<le> now then (w'\<lparr>wt_timers := []\<rparr>, snd (ForceReload rx src l)) else (w', l))"
    for now j src by (auto simp: k timer_Stop_def ForceReload_def split: sum.split)
  moreover have "fold (watch_step rx) (FileEvent ev t # es) (w, l) = (w', l)" using w0(1) w'(1) by simp
  ultimately show ?thesis using idle_timers by (intro exI [of _ w'] exI [of _ k]) simp
qed

theorem burst_reloads_once_witness:
  "let src = Parsed (sample_config 80); l = \<lparr>ld_current = sample_config 79, ld_subscribers = []\<rparr> in
    \<exists>w' k. fold (watch_step (\<lambda>_. None)) [FileEvent FsCreate 0, TimerFires (100 * millisecond) 0 src, FileEvent FsWrite (150 * millisecond),
        TimerFires (210 * millisecond) 0 src] (new_watcher, l)
        = (w', l)
      \<and> watch_step (\<lambda>_. None) (TimerFires (350 * millisecond) k src) (w', l) = (w'\<lparr>wt_timers := []\<rparr>, snd (ForceReload (\<lambda>_. None) src l))"
proof -
  let ?l = "\<lparr>ld_current = sample_config 79, ld_subscribers = []\<rparr>" and ?src = "Parsed (sample_config 80)"
  let ?es = "[TimerFires (100 * millisecond) 0 ?src, FileEvent FsWrite (150 * millisecond), TimerFires (210 * millisecond) 0 ?src]"
  have run: "wt_running new_watcher" "wt_timers new_watcher = []" "FsCreate = FsWrite \<or> FsCreate = FsCreate" "write_burst 0 ?es"
    by (simp_all add: new_watcher_def)
  from burst_reloads_once [OF run, of "\<lambda>_. None" ?l] obtain w' k where
    1: "fold (watch_step (\<lambda>_. None)) (FileEvent FsCreate 0 # ?es) (new_watcher, ?l) = (w', ?l)"
    and 2: "\<And>now j src. watch_step (\<lambda>_. None) (TimerFires now j src) (w', ?l) =
          (if j = k \<and> last_write 0 ?es + 200 * millisecond \<le> now then (w'\<lparr>wt_timers := []\<rparr>, snd (ForceReload (\<lambda>_. None) src ?l)) else (w', ?l))"
    by blast
  have "last_write 0 ?es + 200 * millisecond \<le> 350 * millisecond" by simp
  then show ?thesis unfolding Let_def using 1 2 [of "350 * millisecond" k ?src] by (intro exI [of _ w'] exI [of _ k]) simp
qed

end
