(* ===== verification/Registry.thy ===== *)
theory Registry
  imports Gw_Prelude
begin

section \<open>The service registry and its health checks (\<open>internal/registry\<close>)\<close>

text \<open>
  The registry maps a service name to a \<open>*ServiceEntry\<close>, an entry holds a slice of
  \<open>*Instance\<close>, and the health-check goroutines hold pointers to entries of their own.
  Who sees an instance's health depends on which pointer they hold, so instances and
  entries live in a heap and are referred to by number. Every method runs under the
  mutex of its object and is one atomic step.
\<close>

subsection \<open>Instances\<close>

datatype health_status = StatusHealthy | StatusUnhealthy | StatusStarting

record Instance =
  inst_ID :: string
  inst_Address :: string
  inst_Weight :: int
  inst_status :: health_status
  inst_fails :: int
  inst_oks :: int
  inst_lastChecked :: gotime

definition IsHealthy :: "Instance \<Rightarrow> bool" where
  "IsHealthy i \<longleftrightarrow> inst_status i \<noteq> StatusUnhealthy"

definition inst_RecordSuccess :: "int \<Rightarrow> Instance \<Rightarrow> bool \<times> Instance" where
  "inst_RecordSuccess successThreshold i =
     (let i1 = i\<lparr>inst_fails := 0, inst_oks := inst_oks i + 1\<rparr>
      in if inst_status i1 = StatusUnhealthy \<and> inst_oks i1 \<ge> successThreshold
         then (True, i1\<lparr>inst_status := StatusHealthy, inst_oks := 0\<rparr>)
         else (False, i1))"

definition inst_RecordFailure :: "int \<Rightarrow> Instance \<Rightarrow> bool \<times> Instance" where
  "inst_RecordFailure failThreshold i =
     (let i1 = i\<lparr>inst_oks := 0, inst_fails := inst_fails i + 1\<rparr>
      in if inst_status i1 \<noteq> StatusUnhealthy \<and> inst_fails i1 \<ge> failThreshold
         then (True, i1\<lparr>inst_status := StatusUnhealthy, inst_fails := 0\<rparr>)
         else (False, i1))"

declare IsHealthy_def [gw_ops] inst_RecordSuccess_def [gw_ops] inst_RecordFailure_def [gw_ops]
  Let_def [gw_ops]

subsection \<open>Entries, the heap and the registry\<close>

record HealthCheckCfg =
  hcc_Path :: string
  hcc_Interval :: duration
  hcc_Timeout :: duration
  hcc_FailureThreshold :: int
  hcc_SuccessThreshold :: int

record ServiceEntry =
  se_Name :: string
  se_LBStrategy :: string
  se_HealthCheck :: HealthCheckCfg
  se_Instances :: "nat list"

record gw_heap =
  h_inst :: "nat \<Rightarrow> Instance"
  h_inst_next :: nat
  h_entry :: "nat \<Rightarrow> ServiceEntry"
  h_entry_next :: nat

text \<open>The composite literals \<open>&Instance{..}\<close> and \<open>&ServiceEntry{..}\<close>.\<close>

definition alloc_inst :: "Instance \<Rightarrow> gw_heap \<Rightarrow> nat \<times> gw_heap" where
  "alloc_inst i h = (h_inst_next h,
     h\<lparr>h_inst := (h_inst h)(h_inst_next h := i), h_inst_next := Suc (h_inst_next h)\<rparr>)"

definition alloc_entry :: "ServiceEntry \<Rightarrow> gw_heap \<Rightarrow> nat \<times> gw_heap" where
  "alloc_entry e h = (h_entry_next h,
     h\<lparr>h_entry := (h_entry h)(h_entry_next h := e), h_entry_next := Suc (h_entry_next h)\<rparr>)"

definition HealthyInstances :: "gw_heap \<Rightarrow> nat \<Rightarrow> nat list" where
  "HealthyInstances h s = filter (\<lambda>r. IsHealthy (h_inst h r)) (se_Instances (h_entry h s))"

type_synonym registry = "string \<rightharpoonup> nat"

definition new_registry :: registry where
  "new_registry = Map.empty"

definition Register :: "gw_heap \<Rightarrow> nat \<Rightarrow> registry \<Rightarrow> registry" where
  "Register h entry r = r(se_Name (h_entry h entry) \<mapsto> entry)"

definition Lookup :: "registry \<Rightarrow> string \<Rightarrow> nat option" where
  "Lookup r name = r name"

definition ServiceNames :: "registry \<Rightarrow> string set" where
  "ServiceNames r = dom r"

subsection \<open>The health checker\<close>

text \<open>
  Goroutine \<open>g\<close> is the \<open>g\<close>-th element of \<open>hc_gos\<close>: the entry it was started with and
  whether its context was cancelled. \<open>hc_cancels\<close> is the \<open>cancels\<close> map.
\<close>

record checker_goroutine =
  ck_svc :: nat
  ck_cancelled :: bool

record health_checker =
  hc_cancels :: "string \<rightharpoonup> nat"
  hc_gos :: "checker_goroutine list"

definition new_health_checker :: health_checker where
  "new_health_checker = \<lparr>hc_cancels = Map.empty, hc_gos = []\<rparr>"

definition StartForService :: "gw_heap \<Rightarrow> nat \<Rightarrow> health_checker \<Rightarrow> health_checker" where
  "StartForService h svc hc =
     (case hc_cancels hc (se_Name (h_entry h svc)) of
        Some _ \<Rightarrow> hc
      | None \<Rightarrow> hc\<lparr>hc_cancels := (hc_cancels hc)(se_Name (h_entry h svc) \<mapsto> length (hc_gos hc)),
                   hc_gos := hc_gos hc @ [\<lparr>ck_svc = svc, ck_cancelled = False\<rparr>]\<rparr>)"

definition StopForService :: "string \<Rightarrow> health_checker \<Rightarrow> health_checker" where
  "StopForService name hc =
     (case hc_cancels hc name of
        None \<Rightarrow> hc
      | Some g \<Rightarrow> hc\<lparr>hc_cancels := (hc_cancels hc)(name := None),
                     hc_gos := (hc_gos hc)[g := (hc_gos hc ! g)\<lparr>ck_cancelled := True\<rparr>]\<rparr>)"

text \<open>\<open>StartAll\<close> ranges over the services map, in an order \<open>services\<close> the runtime picks.\<close>

definition StartAll :: "gw_heap \<Rightarrow> nat list \<Rightarrow> health_checker \<Rightarrow> health_checker" where
  "StartAll h services hc = fold (StartForService h) services hc"

text \<open>The configuration a goroutine runs with: zero values replaced by defaults.\<close>

definition effective_cfg :: "HealthCheckCfg \<Rightarrow> HealthCheckCfg" where
  "effective_cfg cfg =
     (let c1 = (if hcc_Interval cfg = 0 then cfg\<lparr>hcc_Interval := 10 * second\<rparr> else cfg);
          c2 = (if hcc_Timeout c1 = 0 then c1\<lparr>hcc_Timeout := 3 * second\<rparr> else c1);
          c3 = (if hcc_FailureThreshold c2 = 0 then c2\<lparr>hcc_FailureThreshold := 3\<rparr> else c2)
      in if hcc_SuccessThreshold c3 = 0 then c3\<lparr>hcc_SuccessThreshold := 2\<rparr> else c3)"

definition health_url :: "HealthCheckCfg \<Rightarrow> Instance \<Rightarrow> string" where
  "health_url cfg inst =
     (let path = (if hcc_Path cfg = [] then ''/health'' else hcc_Path cfg)
      in ''http://'' @ inst_Address inst @ path)"

text \<open>
  The outcome of the HTTP call: the URL does not parse, so \<open>NewRequestWithContext\<close>
  returns a nil request (its error is dropped) and \<open>client.Do\<close> panics; the call
  fails; or a status code comes back. A panic in the goroutine ends the process: \<open>None\<close>.
\<close>

datatype probe = BadURL | CallError | Status int

definition checkInstance :: "HealthCheckCfg \<Rightarrow> nat \<Rightarrow> probe \<Rightarrow> gw_heap \<Rightarrow> gw_heap option" where
  "checkInstance cfg r outcome h =
     (let fail = Some (h\<lparr>h_inst := (h_inst h)
            (r := snd (inst_RecordFailure (hcc_FailureThreshold cfg) (h_inst h r)))\<rparr>)
      in case outcome of
           BadURL \<Rightarrow> None
         | CallError \<Rightarrow> fail
         | Status code \<Rightarrow>
             (if code \<ge> 300 then fail
              else Some (h\<lparr>h_inst := (h_inst h)
                (r := snd (inst_RecordSuccess (hcc_SuccessThreshold cfg) (h_inst h r)))\<rparr>)))"

text \<open>
  One tick of a goroutine checks the instances its entry lists now; the checks run
  concurrently, \<open>order\<close> is the order in which they finish, \<open>probes\<close> what each found.
\<close>

fun check_each :: "HealthCheckCfg \<Rightarrow> (nat \<Rightarrow> probe) \<Rightarrow> nat list \<Rightarrow> gw_heap \<Rightarrow> gw_heap option" where
  "check_each cfg probes [] h = Some h"
| "check_each cfg probes (r # rs) h =
     (case checkInstance cfg r (probes r) h of
        None \<Rightarrow> None
      | Some h' \<Rightarrow> check_each cfg probes rs h')"

definition tick :: "nat \<Rightarrow> nat list \<Rightarrow> (nat \<Rightarrow> probe) \<Rightarrow> gw_heap \<Rightarrow> gw_heap option" where
  "tick svc order probes h =
     check_each (effective_cfg (se_HealthCheck (h_entry h svc))) probes order h"

text \<open>
  The running system: any goroutine may tick, a service may be started or stopped. A goroutine
  whose context was cancelled may tick as well, and as often as it likes. That is more than the
  code does: there the \<open>select\<close> may take a tick that is due instead of the cancellation, and the
  checks it spawned may end later, but the goroutine returns before long. What holds in all
  reachable states here holds in those of the code.
\<close>

inductive hc_step :: "gw_heap \<times> health_checker \<Rightarrow> gw_heap \<times> health_checker \<Rightarrow> bool" where
  ticked: "c \<in> set (hc_gos hc) \<Longrightarrow> mset order = mset (se_Instances (h_entry h (ck_svc c)))
    \<Longrightarrow> tick (ck_svc c) order probes h = Some h' \<Longrightarrow> hc_step (h, hc) (h', hc)"
| started: "hc_step (h, hc) (h, StartForService h svc hc)"
| stopped: "hc_step (h, hc) (h, StopForService name hc)"

inductive_cases hc_stepE: "hc_step (h, hc) s"

subsection \<open>Health changes after consecutive outcomes\<close>

text \<open>One check of instance \<open>r\<close>, read as a step that does nothing where the code panics.\<close>

definition probe_step :: "HealthCheckCfg \<Rightarrow> nat \<Rightarrow> probe \<Rightarrow> gw_heap \<Rightarrow> gw_heap" where
  "probe_step cfg r p h = (case checkInstance cfg r p h of None \<Rightarrow> h | Some h' \<Rightarrow> h')"

fun probe_failed :: "probe \<Rightarrow> bool" where
  "probe_failed (Status code) = (code \<ge> 300)"
| "probe_failed CallError = True"
| "probe_failed BadURL = False"

definition probe_passed :: "probe \<Rightarrow> bool" where
  "probe_passed p \<longleftrightarrow> p \<noteq> BadURL \<and> \<not> probe_failed p"

lemma probe_step_simps:
  "probe_failed p \<Longrightarrow> probe_step cfg r p h
     = h\<lparr>h_inst := (h_inst h)(r := snd (inst_RecordFailure (hcc_FailureThreshold cfg) (h_inst h r)))\<rparr>"
  "probe_passed p \<Longrightarrow> probe_step cfg r p h
     = h\<lparr>h_inst := (h_inst h)(r := snd (inst_RecordSuccess (hcc_SuccessThreshold cfg) (h_inst h r)))\<rparr>"
  "probe_step cfg r BadURL h = h"
  by (cases p; simp add: probe_step_def checkInstance_def probe_passed_def Let_def)+

lemma probe_cases: "probe_failed p \<or> probe_passed p \<or> p = BadURL"
  by (auto simp: probe_passed_def)

interpretation down: run_trigger "probe_step cfg r" "\<lambda>h. IsHealthy (h_inst h r)"
    "\<lambda>h. inst_fails (h_inst h r)" "\<lambda>h. hcc_FailureThreshold cfg" "\<lambda>p. p \<noteq> BadURL" probe_failed for cfg r
proof unfold_locales
  fix p and h :: gw_heap
  show "probe_failed p \<Longrightarrow> p \<noteq> BadURL" by auto
  assume "IsHealthy (h_inst h r)" "p \<noteq> BadURL" "\<not> probe_failed p"
  then show "IsHealthy (h_inst (probe_step cfg r p h) r) \<and> inst_fails (h_inst (probe_step cfg r p h) r) = 0"
    by (simp add: probe_step_simps(2) probe_passed_def gw_ops)
qed (simp_all add: probe_step_simps gw_ops)

interpretation up: run_trigger "probe_step cfg r" "\<lambda>h. \<not> IsHealthy (h_inst h r)"
    "\<lambda>h. inst_oks (h_inst h r)" "\<lambda>h. hcc_SuccessThreshold cfg" "\<lambda>p. p \<noteq> BadURL" probe_passed for cfg r
proof unfold_locales
  fix p and h :: gw_heap
  show "probe_passed p \<Longrightarrow> p \<noteq> BadURL" by (simp add: probe_passed_def)
  assume "\<not> IsHealthy (h_inst h r)" "p \<noteq> BadURL" "\<not> probe_passed p"
  then show "\<not> IsHealthy (h_inst (probe_step cfg r p h) r) \<and> inst_oks (h_inst (probe_step cfg r p h) r) = 0"
    using probe_cases [of p] by (auto simp: probe_step_simps(1) gw_ops)
qed (simp_all add: probe_step_simps gw_ops)

text \<open>
  C13: Health checks flip an instance with hysteresis. A healthy instance with a clean
  record is marked unhealthy at some point of a sequence of checks exactly when the
  completed checks contain \<open>FailureThreshold\<close> consecutive failures, and an unhealthy one
  recovers exactly when they contain \<open>SuccessThreshold\<close> consecutive successes.
\<close>

theorem health_hysteresis:
  assumes "0 < hcc_FailureThreshold cfg" and "0 < hcc_SuccessThreshold cfg"
  shows "(IsHealthy (h_inst h r) \<and> inst_fails (h_inst h r) = 0 \<longrightarrow>
      (\<exists>k. \<not> IsHealthy (h_inst (fold (probe_step cfg r) (take k ps) h) r))
      = has_run probe_failed (nat (hcc_FailureThreshold cfg)) (filter (\<lambda>p. p \<noteq> BadURL) ps))
    \<and> (\<not> IsHealthy (h_inst h r) \<and> inst_oks (h_inst h r) = 0 \<longrightarrow>
      (\<exists>k. IsHealthy (h_inst (fold (probe_step cfg r) (take k ps) h) r))
      = has_run probe_passed (nat (hcc_SuccessThreshold cfg)) (filter (\<lambda>p. p \<noteq> BadURL) ps))"
  using down.triggers_iff_run [of h r cfg ps] up.triggers_iff_run [of h r cfg ps] assms
  by simp

definition sample_heap :: gw_heap where
  "sample_heap =
     \<lparr>h_inst = (\<lambda>_. \<lparr>inst_ID = ''a'', inst_Address = ''h:1'', inst_Weight = 0, inst_status = StatusHealthy,
        inst_fails = 0, inst_oks = 0, inst_lastChecked = 0\<rparr>), h_inst_next = 1,
      h_entry = (\<lambda>_. \<lparr>se_Name = ''svc'', se_LBStrategy = [], se_HealthCheck =
        \<lparr>hcc_Path = [], hcc_Interval = 0, hcc_Timeout = 0, hcc_FailureThreshold = 2, hcc_SuccessThreshold = 1\<rparr>,
        se_Instances = [0]\<rparr>), h_entry_next = 1\<rparr>"

theorem health_hysteresis_witness:
  "IsHealthy (h_inst sample_heap 0) \<and> inst_fails (h_inst sample_heap 0) = 0
   \<and> (\<exists>k. \<not> IsHealthy (h_inst (fold (probe_step (se_HealthCheck (h_entry sample_heap 0)) 0)
         (take k [CallError, BadURL, Status 503]) sample_heap) 0))"
proof -
  let ?cfg = "se_HealthCheck (h_entry sample_heap 0)"
  have "has_run probe_failed 2 (filter (\<lambda>p. p \<noteq> BadURL) [CallError, BadURL, Status 503])"
    unfolding has_run_def by (rule exI [of _ "[]"], rule exI [of _ "[CallError, Status 503]"], rule exI [of _ "[]"]) simp
  moreover have "IsHealthy (h_inst sample_heap 0)" "inst_fails (h_inst sample_heap 0) = 0"
    "hcc_FailureThreshold ?cfg = 2" "hcc_SuccessThreshold ?cfg = 1"
    by (simp_all add: sample_heap_def IsHealthy_def)
  ultimately show ?thesis
    using health_hysteresis [of ?cfg sample_heap 0 "[CallError, BadURL, Status 503]"] by simp
qed

subsection \<open>One live goroutine per service\<close>

abbreviation svc_name :: "gw_heap \<Rightarrow> checker_goroutine \<Rightarrow> string" where
  "svc_name h c \<equiv> se_Name (h_entry h (ck_svc c))"

definition live :: "gw_heap \<Rightarrow> health_checker \<Rightarrow> string \<Rightarrow> nat \<Rightarrow> bool" where
  "live h hc name g \<longleftrightarrow>
     g < length (hc_gos hc) \<and> \<not> ck_cancelled (hc_gos hc ! g) \<and> svc_name h (hc_gos hc ! g) = name"

definition hc_inv :: "gw_heap \<Rightarrow> health_checker \<Rightarrow> bool" where
  "hc_inv h hc \<longleftrightarrow> (\<forall>name g. hc_cancels hc name = Some g \<longleftrightarrow> live h hc name g)"

lemma hc_inv_new: "hc_inv h new_health_checker"
  by (simp add: hc_inv_def new_health_checker_def live_def)

lemma live_iff: "hc_inv h hc \<Longrightarrow> live h hc name g \<longleftrightarrow> hc_cancels hc name = Some g"
  by (simp add: hc_inv_def)

lemma hc_invI: "(\<And>name g. live h hc name g \<longleftrightarrow> hc_cancels hc name = Some g) \<Longrightarrow> hc_inv h hc"
  by (simp add: hc_inv_def)

lemma live_start: "hc_cancels hc (se_Name (h_entry h svc)) = None \<Longrightarrow>
    live h (StartForService h svc hc) name g
      \<longleftrightarrow> live h hc name g \<or> g = length (hc_gos hc) \<and> name = se_Name (h_entry h svc)"
  by (auto simp: live_def StartForService_def nth_append)

lemma cancels_start: "hc_cancels hc (se_Name (h_entry h svc)) = None \<Longrightarrow>
    hc_cancels (StartForService h svc hc) = (hc_cancels hc)(se_Name (h_entry h svc) \<mapsto> length (hc_gos hc))"
  by (simp add: StartForService_def)

lemma hc_inv_start [gw_inv]: "hc_inv h hc \<Longrightarrow> hc_inv h (StartForService h svc hc)"
proof (cases "hc_cancels hc (se_Name (h_entry h svc))")
  case None
  assume inv: "hc_inv h hc"
  show ?thesis
  proof (rule hc_invI)
    fix name g
    have "live h hc name g \<Longrightarrow> g \<noteq> length (hc_gos hc)" by (simp add: live_def)
    then show "live h (StartForService h svc hc) name g
        \<longleftrightarrow> hc_cancels (StartForService h svc hc) name = Some g"
      using None by (auto simp: live_start [OF None] live_iff [OF inv] cancels_start [OF None])
  qed
qed (simp add: StartForService_def)

lemma live_stop: "hc_cancels hc n = Some k \<Longrightarrow>
    live h (StopForService n hc) name g \<longleftrightarrow> live h hc name g \<and> g \<noteq> k"
  by (cases "g = k") (auto simp: live_def StopForService_def nth_list_update)

lemma cancels_stop [simp]: "hc_cancels (StopForService n hc) = (hc_cancels hc)(n := None)"
  by (auto simp: StopForService_def split: option.splits)

lemma hc_inv_stop [gw_inv]: "hc_inv h hc \<Longrightarrow> hc_inv h (StopForService n hc)"
proof (cases "hc_cancels hc n")
  case (Some k)
  assume inv: "hc_inv h hc"
  have only: "m = n" if "hc_cancels hc m = Some k" for m
  proof -
    have "live h hc m k" "live h hc n k" using that Some by (simp_all add: live_iff [OF inv])
    then show ?thesis by (simp add: live_def)
  qed
  show ?thesis
  proof (rule hc_invI)
    fix name g
    show "live h (StopForService n hc) name g \<longleftrightarrow> hc_cancels (StopForService n hc) name = Some g"
      unfolding live_stop [OF Some] live_iff [OF inv] cancels_stop
      using only [of name] Some by (cases "name = n") (simp, simp, blast)
  qed
qed (simp add: StopForService_def)

lemma checkInstance_entry: "checkInstance cfg r p h = Some h' \<Longrightarrow> h_entry h' = h_entry h"
  by (auto simp: checkInstance_def Let_def split: probe.splits if_splits)

lemma check_each_entry: "check_each cfg probes rs h = Some h' \<Longrightarrow> h_entry h' = h_entry h"
proof (induction rs arbitrary: h)
  case (Cons r rs)
  then obtain h1 where "checkInstance cfg r (probes r) h = Some h1" "check_each cfg probes rs h1 = Some h'"
    by (auto split: option.splits)
  with Cons.IH show ?case by (metis checkInstance_entry)
qed simp

lemma tick_entry: "tick svc order probes h = Some h' \<Longrightarrow> h_entry h' = h_entry h"
  by (auto simp: tick_def check_each_entry)

lemma hc_inv_cong: "h_entry h' = h_entry h \<Longrightarrow> hc_inv h' hc = hc_inv h hc"
  by (simp add: hc_inv_def live_def)

lemma hc_inv_step [gw_inv]:
  assumes "hc_step (h, hc) (h', hc')" and "hc_inv h hc"
  shows "hc_inv h' hc'"
  using assms(1)
proof (rule hc_stepE)
  fix c order probes h''
  assume "(h', hc') = (h'', hc)" "tick (ck_svc c) order probes h = Some h''"
  then show ?thesis using hc_inv_cong [OF tick_entry] assms(2) by blast
qed (use assms(2) hc_inv_start hc_inv_stop in auto)

lemma hc_inv_reach: "hc_step\<^sup>*\<^sup>* (h, hc) (h', hc') \<Longrightarrow> hc_inv h hc \<Longrightarrow> hc_inv h' hc'"
  by (induction rule: rtranclp_induct2) (use hc_inv_step in blast)+

text \<open>
  C27: In every state the health checker can reach by starts, stops and ticks, no two
  live goroutines check the same service, and stopping a service leaves none alive for
  it, so no goroutine outlives its service.
\<close>

theorem one_live_checker:
  assumes "hc_step\<^sup>*\<^sup>* (h, new_health_checker) (h', hc)"
  shows "distinct (map (svc_name h') (filter (\<lambda>c. \<not> ck_cancelled c) (hc_gos hc)))
    \<and> (\<forall>c \<in> set (hc_gos (StopForService name hc)). svc_name h' c = name \<longrightarrow> ck_cancelled c)"
proof -
  have inv: "hc_inv h' hc" using hc_inv_reach [OF assms hc_inv_new] .
  have "g = g'" if "live h' hc n g" "live h' hc n g'" for n g g'
    using inv that unfolding hc_inv_def by (metis option.inject)
  then have "distinct (map (svc_name h') (filter (\<lambda>c. \<not> ck_cancelled c) (hc_gos hc)))"
    by (intro distinct_map_filterI) (auto simp: live_def)
  moreover have "ck_cancelled c" if "c \<in> set (hc_gos (StopForService name hc))" "svc_name h' c = name" for c
  proof (rule ccontr)
    assume "\<not> ck_cancelled c"
    with that have "\<exists>g. live h' (StopForService name hc) name g"
      unfolding live_def in_set_conv_nth by blast
    then show False using live_iff [OF hc_inv_stop [OF inv, of name]] by simp
  qed
  ultimately show ?thesis by blast
qed

theorem one_live_checker_witness:
  "hc_step\<^sup>*\<^sup>* (sample_heap, new_health_checker) (sample_heap, StartForService sample_heap 0 new_health_checker)
   \<and> length (filter (\<lambda>c. \<not> ck_cancelled c) (hc_gos (StartForService sample_heap 0 new_health_checker))) = 1
   \<and> distinct (map (svc_name sample_heap)
       (filter (\<lambda>c. \<not> ck_cancelled c) (hc_gos (StartForService sample_heap 0 new_health_checker))))"
proof -
  have "hc_step\<^sup>*\<^sup>* (sample_heap, new_health_checker) (sample_heap, StartForService sample_heap 0 new_health_checker)"
    by (intro r_into_rtranclp started)
  then show ?thesis
    using one_live_checker by (simp add: StartForService_def new_health_checker_def)
qed

end
