(* ===== verification/Load_Balancer.thy ===== *)
theory Load_Balancer
  imports Registry "HOL-Library.Word" "HOL-Library.Sublist"
begin

section \<open>Load balancing (\<open>internal/loadbalancer\<close>)\<close>

text \<open>
  A balancer gets the instances (pointers, so numbers here), whether each is healthy
  when it looks, and \<open>isSkipped\<close>. The proxy passes an \<open>isSkipped\<close> that calls
  \<open>Allow\<close> on a circuit breaker, which may change the breaker: it is a function that
  threads a state \<open>'s\<close>. Random draws come from outside: one record holds the
  \<open>rand.Float64\<close> draws of a call and the \<open>rand.Intn\<close> function it uses.
\<close>

datatype lb_error = ErrNoHealthyInstances

type_synonym 's skipper = "(nat \<Rightarrow> 's \<Rightarrow> bool \<times> 's) option"

record draws =
  dr_explore :: real
  dr_target :: real
  dr_intn :: "nat \<Rightarrow> nat"

definition fair_draws :: "draws \<Rightarrow> bool" where
  "fair_draws d \<longleftrightarrow> 0 \<le> dr_explore d \<and> dr_explore d < 1 \<and> 0 \<le> dr_target d \<and> dr_target d < 1
     \<and> (\<forall>n > 0. dr_intn d n < n)"

text \<open>\<open>IsHealthy\<close> is asked first; \<open>isSkipped\<close> only of healthy instances, in order.\<close>

fun filterEligible :: "(nat \<Rightarrow> bool) \<Rightarrow> 's skipper \<Rightarrow> nat list \<Rightarrow> 's \<Rightarrow> nat list \<times> 's" where
  "filterEligible healthy isSkipped [] s = ([], s)"
| "filterEligible healthy isSkipped (i # is) s =
     (if \<not> healthy i then filterEligible healthy isSkipped is s
      else case isSkipped of
             None \<Rightarrow> (let (el, s') = filterEligible healthy isSkipped is s in (i # el, s'))
           | Some skip \<Rightarrow>
               (let (skipped, s1) = skip i s;
                    (el, s') = filterEligible healthy isSkipped is s1
                in (if skipped then el else i # el, s')))"

text \<open>
  \<open>RoundRobin\<close>: the counter is a \<open>uint64\<close> bumped by an atomic add that returns the
  new value; the index is computed in \<open>uint64\<close> arithmetic.
\<close>

record round_robin =
  rr_counter :: "64 word"

definition NewRoundRobin :: round_robin where
  "NewRoundRobin = \<lparr>rr_counter = 0\<rparr>"

definition rr_Next ::
  "(nat \<Rightarrow> bool) \<Rightarrow> 's skipper \<Rightarrow> nat list \<Rightarrow> draws \<Rightarrow> round_robin \<Rightarrow> 's
    \<Rightarrow> (lb_error + nat \<times> unit) \<times> round_robin \<times> 's" where
  "rr_Next healthy isSkipped instances d rr s =
     (let (eligible, s1) = filterEligible healthy isSkipped instances s
      in if eligible = [] then (Inl ErrNoHealthyInstances, rr, s1)
         else let n = rr_counter rr + 1;
                  selected = eligible ! unat ((n - 1) mod of_nat (length eligible))
              in (Inr (selected, ()), rr\<lparr>rr_counter := n\<rparr>, s1))"

text \<open>\<open>Random\<close> keeps no state.\<close>

definition random_Next ::
  "(nat \<Rightarrow> bool) \<Rightarrow> 's skipper \<Rightarrow> nat list \<Rightarrow> draws \<Rightarrow> unit \<Rightarrow> 's
    \<Rightarrow> (lb_error + nat \<times> unit) \<times> unit \<times> 's" where
  "random_Next healthy isSkipped instances d rb s =
     (let (eligible, s1) = filterEligible healthy isSkipped instances s
      in if eligible = [] then (Inl ErrNoHealthyInstances, rb, s1)
         else (Inr (eligible ! dr_intn d (length eligible), ()), rb, s1))"

subsection \<open>The eligible instances\<close>

lemma eligible_subseq:
  "filterEligible healthy sk is s = (el, s') \<Longrightarrow> subseq el (filter healthy is)"
  by (induction healthy sk "is" s arbitrary: el s' rule: filterEligible.induct)
    (auto split: if_splits option.splits prod.splits)

lemma eligible_subset:
  "filterEligible healthy sk is s = (el, s') \<Longrightarrow> set el \<subseteq> {i \<in> set is. healthy i}"
proof
  fix i
  assume e: "filterEligible healthy sk is s = (el, s')" and "i \<in> set el"
  then obtain j where "j \<in> set (filter healthy is)" "i = j"
    using list_emb_set [OF eligible_subseq [OF e]] by blast
  then show "i \<in> {i \<in> set is. healthy i}" by simp
qed

lemma eligible_length:
  "filterEligible healthy sk is s = (el, s') \<Longrightarrow> length el \<le> length is"
  using list_emb_length [OF eligible_subseq] length_filter_le [of healthy "is"] by (metis order_trans)

lemma eligible_no_skipper: "filterEligible healthy None is s = (filter healthy is, s)"
  by (induction "is") simp_all

text \<open>A skipper whose answers do not depend on its state selects by a fixed test.\<close>

lemma eligible_stable_skipper:
  "(\<And>i s. fst (skip i s) = p i) \<Longrightarrow>
    fst (filterEligible healthy (Some skip) is s) = filter (\<lambda>i. healthy i \<and> \<not> p i) is"
  by (induction "is" arbitrary: s) (auto simp: split_beta)

text \<open>Every healthy instance is asked, whichever is chosen afterwards.\<close>

lemma eligible_asks_all:
  "snd (filterEligible healthy (Some skip) is s) = fold (\<lambda>i s. snd (skip i s)) (filter healthy is) s"
  by (induction "is" arbitrary: s) (auto simp: split_beta)

subsection \<open>The \<open>LoadBalancer\<close> interface\<close>

text \<open>
  What the proxy relies on: an error exactly when no instance is eligible, otherwise
  one of the eligible instances, and the skipper consulted as \<open>filterEligible\<close> does.
\<close>

locale load_balancer =
  fixes lb_next :: "(nat \<Rightarrow> bool) \<Rightarrow> 's skipper \<Rightarrow> nat list \<Rightarrow> draws \<Rightarrow> 'lb \<Rightarrow> 's
      \<Rightarrow> (lb_error + nat \<times> 'd) \<times> 'lb \<times> 's"
  assumes next_none: "filterEligible healthy sk is s = ([], s')
      \<Longrightarrow> lb_next healthy sk is d lb s = (Inl ErrNoHealthyInstances, lb, s')"
    and next_some: "fair_draws d \<Longrightarrow> length is < 2 ^ 63 \<Longrightarrow> filterEligible healthy sk is s = (el, s') \<Longrightarrow> el \<noteq> []
      \<Longrightarrow> \<exists>i c lb'. i \<in> set el \<and> lb_next healthy sk is d lb s = (Inr (i, c), lb', s')"
begin

lemma next_error_iff:
  "fair_draws d \<Longrightarrow> length is < 2 ^ 63 \<Longrightarrow> isl (fst (lb_next healthy sk is d lb s))
    \<longleftrightarrow> fst (filterEligible healthy sk is s) = []"
  by (cases "filterEligible healthy sk is s")
    (metis (no_types, lifting) fst_conv isl_def next_none next_some sum.disc(2))

lemma next_picks:
  "fair_draws d \<Longrightarrow> length is < 2 ^ 63 \<Longrightarrow> lb_next healthy sk is d lb s = (Inr (i, c), lb', s')
    \<Longrightarrow> i \<in> set (fst (filterEligible healthy sk is s)) \<and> healthy i \<and> i \<in> set is"
proof -
  assume d: "fair_draws d" "length is < 2 ^ 63" and n: "lb_next healthy sk is d lb s = (Inr (i, c), lb', s')"
  obtain el s1 where e: "filterEligible healthy sk is s = (el, s1)" by fastforce
  have "el \<noteq> []" using n next_none e by auto
  then have "i \<in> set el" using next_some [OF d e, of lb] n by auto
  then show ?thesis using e eligible_subset [OF e] by auto
qed

lemma next_outcome:
  "fair_draws d \<Longrightarrow> length is < 2 ^ 63 \<Longrightarrow>
    (case fst (lb_next healthy sk is d lb s) of
       Inl e \<Rightarrow> fst (filterEligible healthy sk is s) = []
     | Inr (i, c) \<Rightarrow> i \<in> set (fst (filterEligible healthy sk is s)) \<and> healthy i \<and> i \<in> set is)"
  using next_error_iff [of d "is" healthy sk lb s] next_picks [of d "is" healthy sk lb s]
  by (cases "lb_next healthy sk is d lb s") (auto split: sum.splits)

lemma next_skipper_state:
  "fair_draws d \<Longrightarrow> length is < 2 ^ 63 \<Longrightarrow> snd (snd (lb_next healthy sk is d lb s)) = snd (filterEligible healthy sk is s)"
  by (cases "filterEligible healthy sk is s")
    (metis next_none next_some snd_conv)

end

lemma word_index_less:
  assumes "n \<noteq> 0" and "n < 2 ^ 64"
  shows "unat ((w :: 64 word) mod of_nat n) = unat w mod n"
  using assms by (simp add: unat_mod unat_of_nat)

subsection \<open>Round robin and random keep the contract\<close>

interpretation rr: load_balancer rr_Next
proof unfold_locales
  fix healthy :: "nat \<Rightarrow> bool" and sk :: "'s skipper" and "is" el d s s' and lb :: round_robin
  assume d: "fair_draws d" "length is < 2 ^ 63"
    and e: "filterEligible healthy sk is s = (el, s')" "el \<noteq> []"
  have "unat (rr_counter lb mod of_nat (length el)) < length el"
    using e(2) eligible_length [OF e(1)] d(2) by (simp add: word_index_less)
  then show "\<exists>i c lb'. i \<in> set el \<and> rr_Next healthy sk is d lb s = (Inr (i, c), lb', s')"
    using e by (auto simp: rr_Next_def)
qed (simp add: rr_Next_def)

interpretation rnd: load_balancer random_Next
proof unfold_locales
  fix healthy :: "nat \<Rightarrow> bool" and sk :: "'s skipper" and "is" el d s s' and lb :: unit
  assume d: "fair_draws d" and e: "filterEligible healthy sk is s = (el, s')" "el \<noteq> []"
  have "dr_intn d (length el) < length el" using d e(2) by (simp add: fair_draws_def)
  then show "\<exists>i c lb'. i \<in> set el \<and> random_Next healthy sk is d lb s = (Inr (i, c), lb', s')"
    using e by (auto simp: random_Next_def)
qed (simp add: random_Next_def)

subsection \<open>Fairness of round robin\<close>

text \<open>The instances \<open>m\<close> successive calls return, with no skipper.\<close>

fun rr_picks :: "(nat \<Rightarrow> bool) \<Rightarrow> nat list \<Rightarrow> draws \<Rightarrow> nat \<Rightarrow> round_robin \<Rightarrow> nat list" where
  "rr_picks healthy is d 0 rr = []"
| "rr_picks healthy is d (Suc m) rr =
     (case rr_Next healthy (None :: unit skipper) is d rr () of
        (Inl _, rr', _) \<Rightarrow> rr_picks healthy is d m rr'
      | (Inr (i, _), rr', _) \<Rightarrow> i # rr_picks healthy is d m rr')"

lemma rr_picks_eq:
  assumes "el = filter healthy is" and "el \<noteq> []" and "length is < 2 ^ 63"
  shows "unat (rr_counter rr) + m < 2 ^ 64 \<Longrightarrow>
    rr_picks healthy is d m rr
      = map (\<lambda>k. el ! (k mod length el)) [unat (rr_counter rr)..<unat (rr_counter rr) + m]"
proof (induction m arbitrary: rr)
  case (Suc m)
  have len: "length el < 2 ^ 64"
    using le_less_trans [OF length_filter_le [of healthy "is"] assms(3)] assms(1) by simp
  have c: "unat (rr_counter rr + 1) = Suc (unat (rr_counter rr))"
    using Suc.prems by (simp add: unat_word_ariths)
  have "rr_picks healthy is d (Suc m) rr
      = el ! (unat (rr_counter rr) mod length el)
        # rr_picks healthy is d m (rr\<lparr>rr_counter := rr_counter rr + 1\<rparr>)"
    using assms len by (simp add: rr_Next_def eligible_no_skipper word_index_less)
  also have "rr_picks healthy is d m (rr\<lparr>rr_counter := rr_counter rr + 1\<rparr>)
      = map (\<lambda>k. el ! (k mod length el)) [Suc (unat (rr_counter rr))..<unat (rr_counter rr) + Suc m]"
    using Suc.IH [of "rr\<lparr>rr_counter := rr_counter rr + 1\<rparr>"] Suc.prems c by simp
  finally show ?case by (simp add: upt_conv_Cons del: upt_Suc)
qed simp

lemma count_residue_block: "r < n \<Longrightarrow> length (filter (\<lambda>k. k mod n = r) [a..<a + n]) = 1"
proof (induction a)
  case 0
  then have "filter (\<lambda>k. k mod n = r) [0..<n] = filter (\<lambda>k. k = r) [0..<n]" by (intro filter_cong) auto
  moreover have "{k. k = r} \<inter> set [0..<n] = {r}" using 0 by auto
  ultimately show ?case by (simp add: distinct_length_filter)
next
  case (Suc a)
  then have "[a..<a + n] = a # [Suc a..<a + n]" "[Suc a..<Suc a + n] = [Suc a..<a + n] @ [a + n]"
    by (auto simp: upt_conv_Cons)
  with Suc show ?case by (auto split: if_splits)
qed

lemma count_residue: "r < n \<Longrightarrow> length (filter (\<lambda>k. k mod n = r) [a..<a + q * n]) = q"
proof (induction q)
  case (Suc q)
  have "[a..<a + Suc q * n] = [a..<a + q * n] @ [a + q * n..<a + q * n + n]"
    using upt_add_eq_append [of a "a + q * n" n] by (simp add: algebra_simps)
  with Suc count_residue_block [of r n "a + q * n"] show ?case by simp
qed simp

lemma count_residue_run:
  assumes "r < n"
  shows "m div n \<le> length (filter (\<lambda>k. k mod n = r) [a..<a + m])"
    and "length (filter (\<lambda>k. k mod n = r) [a..<a + m]) \<le> (m + n - 1) div n"
proof -
  let ?count = "\<lambda>b c. length (filter (\<lambda>k. k mod n = r) [b..<c])"
  define q s where "q = m div n" and "s = m mod n"
  have m: "m = q * n + s" and s: "s < n" using assms by (simp_all add: q_def s_def)
  have split: "?count b (b + (i + j)) = ?count b (b + i) + ?count (b + i) (b + i + j)" for b i j
    using upt_add_eq_append [of b "b + i" j] by (simp add: add.assoc)
  have whole: "?count a (a + m) = q + ?count (a + q * n) (a + q * n + s)"
    using split [of a "q * n" s] count_residue [OF assms, of a q] unfolding m by simp
  show "m div n \<le> ?count a (a + m)" using whole by (simp add: q_def)
  show "?count a (a + m) \<le> (m + n - 1) div n"
  proof (cases "s = 0")
    case True
    have "m + n - 1 = (n - 1) + q * n" using assms by (simp add: m True)
    then have "(m + n - 1) div n = q" using assms by (simp only: div_mult_self1) simp
    then show ?thesis using whole True by simp
  next
    case False
    have "?count (a + q * n) (a + q * n + (s + (n - s))) = 1" using count_residue_block [OF assms, of "a + q * n"] s by simp
    then have "?count (a + q * n) (a + q * n + s) \<le> 1" using split [of "a + q * n" s "n - s"] by simp
    moreover have "(m + n - 1) div n = Suc q"
    proof -
      have "m + n - 1 = (s - 1) + Suc q * n" using False by (simp add: m)
      then show ?thesis using s False by (simp only: div_mult_self1) simp
    qed
    ultimately show ?thesis using whole by simp
  qed
qed

text \<open>
  C11: Round robin is fair: while the healthy instances stay the same, no breaker skips one and
  the 64-bit counter does not wrap, a run of \<open>m\<close> calls returns the healthy instances in turn, from
  the place the counter stands at, so that each of the \<open>n\<close> healthy instances is returned
  \<open>m / n\<close> times, rounded down or up: exactly \<open>q\<close> times in \<open>q * n\<close> calls, and never two calls
  more than another.
\<close>

theorem round_robin_fair:
  assumes "el = filter healthy is" and "el \<noteq> []" and "distinct is" and "length is < 2 ^ 63" and "unat (rr_counter rr) + m < 2 ^ 64"
  shows "rr_picks healthy is d m rr = map (\<lambda>k. el ! ((unat (rr_counter rr) + k) mod length el)) [0..<m]
    \<and> (\<forall>i \<in> set el. m div length el \<le> count_list (rr_picks healthy is d m rr) i
        \<and> count_list (rr_picks healthy is d m rr) i \<le> (m + length el - 1) div length el)"
proof -
  let ?c = "unat (rr_counter rr)" and ?n = "length el"
  have picks: "rr_picks healthy is d m rr = map (\<lambda>k. el ! (k mod ?n)) [?c..<?c + m]"
    by (intro rr_picks_eq assms)
  have "[?c..<?c + m] = map (\<lambda>k. ?c + k) [0..<m]" using map_add_upt [of ?c m] by (simp add: add.commute)
  then have turn: "rr_picks healthy is d m rr = map (\<lambda>k. el ! ((?c + k) mod ?n)) [0..<m]"
    unfolding picks by (simp add: comp_def)
  have "m div ?n \<le> count_list (rr_picks healthy is d m rr) i
      \<and> count_list (rr_picks healthy is d m rr) i \<le> (m + ?n - 1) div ?n" if i: "i \<in> set el" for i
  proof -
    from i obtain r where r: "r < ?n" "i = el ! r" by (auto simp: in_set_conv_nth)
    have "distinct el" using assms(1,3) by simp
    then have same: "el ! (k mod ?n) = i \<longleftrightarrow> k mod ?n = r" for k
      using r nth_eq_iff_index_eq [of el "k mod ?n" r] by (metis mod_less_divisor not_less_zero gr_zeroI)
    have "count_list (rr_picks healthy is d m rr) i = length (filter (\<lambda>k. k mod ?n = r) [?c..<?c + m])"
      by (simp add: picks count_list_eq_length_filter filter_map comp_def same eq_commute [of i])
    then show ?thesis using count_residue_run [OF r(1), where a = ?c and m = m] by (simp only:)
  qed
  with turn show ?thesis by blast
qed

text \<open>
  The error case and the safety of all strategies: whatever \<open>isSkipped\<close> does, round
  robin and random return an instance only if it is in the given slice, healthy and not
  skipped, and report \<open>ErrNoHealthyInstances\<close> exactly when no instance is eligible.
\<close>

theorem strategies_pick_eligible:
  fixes sk :: "'s skipper"
  assumes "fair_draws d" and "length xs < 2 ^ 63"
  shows "(case fst (rr_Next healthy sk xs d rr s) of
            Inl e \<Rightarrow> fst (filterEligible healthy sk xs s) = []
          | Inr (i, c) \<Rightarrow> i \<in> set (fst (filterEligible healthy sk xs s)) \<and> healthy i \<and> i \<in> set xs)
       \<and> (case fst (random_Next healthy sk xs d u s) of
            Inl e \<Rightarrow> fst (filterEligible healthy sk xs s) = []
          | Inr (i, c) \<Rightarrow> i \<in> set (fst (filterEligible healthy sk xs s)) \<and> healthy i \<and> i \<in> set xs)"
  using rr.next_outcome [OF assms, where healthy = healthy and sk = sk and lb = rr and s = s]
    rnd.next_outcome [OF assms, where healthy = healthy and sk = sk and lb = u and s = s] by blast

definition first_draw :: draws where
  "first_draw = \<lparr>dr_explore = 1/2, dr_target = 0, dr_intn = (\<lambda>_. 0)\<rparr>"

lemma fair_first_draw: "fair_draws first_draw"
  by (simp add: fair_draws_def first_draw_def)

theorem strategies_pick_eligible_witness:
  "fair_draws first_draw
   \<and> fst (filterEligible (\<lambda>i. i \<noteq> 1) None [1, 2, 3] ()) = [2, 3]
   \<and> (\<exists>i \<in> {2, 3}. fst (rr_Next (\<lambda>i. i \<noteq> 1) None [1, 2, 3] first_draw NewRoundRobin ()) = Inr (i, ()))"
proof -
  have el: "fst (filterEligible (\<lambda>i. i \<noteq> 1) None [1, 2, 3] ()) = [2, 3]" by simp
  show ?thesis
    using strategies_pick_eligible [OF fair_first_draw, where healthy = "\<lambda>i. i \<noteq> 1" and sk = None
        and xs = "[1, 2, 3]" and rr = NewRoundRobin and s = "()" and u = "()"] el
    by (auto simp: fair_first_draw split: sum.splits)
qed

theorem round_robin_fair_witness:
  "rr_picks (\<lambda>i. i \<noteq> 1) [1, 2, 3] first_draw 5 NewRoundRobin = [2, 3, 2, 3, 2]
   \<and> (let n = count_list (rr_picks (\<lambda>i. i \<noteq> 1) [1, 2, 3] first_draw 5 NewRoundRobin) 3 in 2 \<le> n \<and> n \<le> 3)"
proof -
  have el: "[2, 3] = filter (\<lambda>i. i \<noteq> 1) [1, 2, 3 :: nat]" and c: "unat (rr_counter NewRoundRobin) = 0"
    by (simp_all add: NewRoundRobin_def)
  have "map (\<lambda>k. [2, 3] ! ((0 + k) mod length [2, 3 :: nat])) [0..<5] = [2, 3, 2, 3, 2 :: nat]"
    "(5 :: nat) div length [2, 3 :: nat] = 2" "((5 :: nat) + length [2, 3 :: nat] - 1) div length [2, 3 :: nat] = 3" by code_simp+
  then show ?thesis using round_robin_fair [OF el, where rr = NewRoundRobin and m = 5 and d = first_draw, unfolded c]
    by (simp add: Let_def)
qed

end
