(* ===== verification/Go_Http.thy ===== *)
theory Go_Http
  imports Go_Float
begin

section \<open>What the gateway uses of \<open>net/http\<close>\<close>

text \<open>
  Headers, requests and the server's \<open>ResponseWriter\<close> of Go 1.22, as far as the gateway's
  code depends on them. A header is a map from canonical keys to value lists. The writer
  keeps the handler's header map apart from what has been sent: \<open>WriteHeader\<close> takes a
  snapshot, and later changes of the map no longer reach the client. The bytes the server
  adds by itself (\<open>Date\<close>, sniffed content types, chunking) are left out.

  A write beyond the \<open>Content-Length\<close> of the sent header is refused. The gateway's own replies
  declare none, so their writes are \<open>rw_Write\<close>; the proxy copies the header of the upstream, and
  its writes are \<open>rw_Copy\<close>, with that check. (\<open>net/http\<close> also drops a \<open>Content-Length\<close> that is no
  number; a parsed upstream reply has none.)
\<close>

subsection \<open>Calls that may panic\<close>

datatype 'a go = Ret 'a | Panic

fun go_bind :: "'a go \<Rightarrow> ('a \<Rightarrow> 'b go) \<Rightarrow> 'b go" where
  "go_bind (Ret a) f = f a"
| "go_bind Panic f = Panic"

subsection \<open>Headers\<close>

type_synonym header = "string \<rightharpoonup> string list"

definition up :: "char \<Rightarrow> char" where
  "up c = (let n = of_char c :: nat in if 97 \<le> n \<and> n \<le> 122 then char_of (n - 32) else c)"

definition low :: "char \<Rightarrow> char" where
  "low c = (let n = of_char c :: nat in if 65 \<le> n \<and> n \<le> 90 then char_of (n + 32) else c)"

text \<open>The characters of a header field name.\<close>

definition token_char :: "char \<Rightarrow> bool" where
  "token_char c \<longleftrightarrow> (let n = of_char c :: nat in (48 \<le> n \<and> n \<le> 57) \<or> (65 \<le> n \<and> n \<le> 90) \<or> (97 \<le> n \<and> n \<le> 122))
     \<or> c \<in> set ''!#$%&*+-.^_`|~'' \<or> c = CHR 0x27"

fun canon :: "bool \<Rightarrow> string \<Rightarrow> string" where
  "canon upper [] = []"
| "canon upper (c # cs) = (if upper then up c else low c) # canon (c = CHR ''-'') cs"

text \<open>\<open>textproto.CanonicalMIMEHeaderKey\<close>: a key with another character is left alone.\<close>

definition CanonicalHeaderKey :: "string \<Rightarrow> string" where
  "CanonicalHeaderKey s = (if list_all token_char s then canon True s else s)"

definition h_Get :: "header \<Rightarrow> string \<Rightarrow> string" where
  "h_Get h k = (case h (CanonicalHeaderKey k) of Some (v # vs) \<Rightarrow> v | _ \<Rightarrow> [])"

definition h_Set :: "string \<Rightarrow> string \<Rightarrow> header \<Rightarrow> header" where
  "h_Set k v h = h(CanonicalHeaderKey k \<mapsto> [v])"

definition h_Add :: "string \<Rightarrow> string \<Rightarrow> header \<Rightarrow> header" where
  "h_Add k v h = h(CanonicalHeaderKey k \<mapsto> (case h (CanonicalHeaderKey k) of Some vs \<Rightarrow> vs | None \<Rightarrow> []) @ [v])"

definition h_Del :: "string \<Rightarrow> header \<Rightarrow> header" where
  "h_Del k h = h(CanonicalHeaderKey k := None)"

subsection \<open>The response writer\<close>

record response_writer =
  rw_header :: header
  rw_sent :: "(int \<times> header) option"
  rw_body :: string
  rw_written :: nat

definition new_rw :: response_writer where
  "new_rw = \<lparr>rw_header = Map.empty, rw_sent = None, rw_body = [], rw_written = 0\<rparr>"

definition rw_map :: "(header \<Rightarrow> header) \<Rightarrow> response_writer \<Rightarrow> response_writer" where
  "rw_map f w = w\<lparr>rw_header := f (rw_header w)\<rparr>"

text \<open>
  \<open>WriteHeader\<close>: a second call is ignored with a log line, a code outside 100--999 panics,
  and an informational code other than 101 is not the final header.
\<close>

definition WriteHeader :: "int \<Rightarrow> response_writer \<Rightarrow> response_writer go" where
  "WriteHeader code w =
     (if rw_sent w \<noteq> None then Ret w
      else if code < 100 \<or> code > 999 then Panic
      else if code \<ge> 100 \<and> code \<le> 199 \<and> code \<noteq> 101 then Ret w
      else Ret (w\<lparr>rw_sent := Some (code, rw_header w)\<rparr>))"

definition bodyAllowed :: "int \<Rightarrow> bool" where
  "bodyAllowed code \<longleftrightarrow> \<not> (100 \<le> code \<and> code \<le> 199) \<and> code \<noteq> 204 \<and> code \<noteq> 304"

text \<open>\<open>rw_written\<close> counts the bytes offered to \<open>Write\<close>, the refused ones included.\<close>

definition rw_Write :: "string \<Rightarrow> response_writer \<Rightarrow> response_writer" where
  "rw_Write s w =
     (let w1 = (if rw_sent w = None then w\<lparr>rw_sent := Some (200, rw_header w)\<rparr> else w)
      in case rw_sent w1 of
           Some (code, h) \<Rightarrow> (if bodyAllowed code then w1\<lparr>rw_body := rw_body w1 @ s, rw_written := rw_written w1 + length s\<rparr> else w1)
         | None \<Rightarrow> w1)"

text \<open>
  The length that a header declares: \<open>strconv.ParseInt\<close> of its \<open>Content-Length\<close>, if that is not
  negative.
\<close>

definition parse_length :: "string \<Rightarrow> nat option" where
  "parse_length s =
     (let digits = (case s of c # cs \<Rightarrow> if c = CHR ''+'' then cs else s | [] \<Rightarrow> [])
      in if digits \<noteq> [] \<and> list_all (\<lambda>c. 48 \<le> (of_char c :: nat) \<and> (of_char c :: nat) \<le> 57) digits \<and> undec digits < 2 ^ 63
         then Some (undec digits) else None)"

definition declared_length :: "header \<Rightarrow> nat option" where
  "declared_length h = (if h_Get h ''Content-Length'' = [] then None else parse_length (h_Get h ''Content-Length''))"

text \<open>
  \<open>io.Copy\<close> of a body that is not empty. A write that would exceed the declared length is
  refused (\<open>ErrContentLength\<close>) and ends the copy. The body is written as a whole: the chunks
  \<open>io.Copy\<close> makes of it matter only for a body that is cut off before its declared length.
\<close>

definition rw_Copy :: "string \<Rightarrow> response_writer \<Rightarrow> response_writer" where
  "rw_Copy s w =
     (let w1 = (if rw_sent w = None then w\<lparr>rw_sent := Some (200, rw_header w)\<rparr> else w)
      in case rw_sent w1 of
           Some (code, h) \<Rightarrow>
             (case declared_length h of
                Some n \<Rightarrow> (if bodyAllowed code \<and> n < rw_written w1 + length s
                           then w1\<lparr>rw_written := rw_written w1 + length s\<rparr> else rw_Write s w1)
              | None \<Rightarrow> rw_Write s w1)
         | None \<Rightarrow> w1)"

text \<open>What the client receives when the handler returns.\<close>

definition response :: "response_writer \<Rightarrow> int \<times> header \<times> string" where
  "response w = (case rw_sent w of
     Some (code, h) \<Rightarrow> (code, h, rw_body w)
   | None \<Rightarrow> (200, rw_header w, rw_body w))"

text \<open>\<open>http.Error\<close>.\<close>

definition http_Error :: "string \<Rightarrow> int \<Rightarrow> response_writer \<Rightarrow> response_writer go" where
  "http_Error msg code w =
     go_bind (WriteHeader code (rw_map (\<lambda>h. h_Set ''X-Content-Type-Options'' ''nosniff''
                (h_Set ''Content-Type'' ''text/plain; charset=utf-8'' h)) w))
       (\<lambda>w1. Ret (rw_Write (msg @ [CHR 0x0A]) w1))"

subsection \<open>The request\<close>

text \<open>
  The request-scoped metadata of \<open>pkg/gwctx\<close> hangs off the request's context; an address
  is the text of the client's IP, \<open>None\<close> for one that does not parse.
\<close>

datatype CircuitState = CircuitClosed | CircuitOpen | CircuitHalfOpen

record GatewayContext =
  gw_RequestID :: string
  gw_TraceID :: string
  gw_ClientIP :: "string option"
  gw_StartTime :: gotime
  gw_RouteID :: string
  gw_AuthClaims :: "(string \<rightharpoonup> yval) option"
  gw_UserID :: string
  gw_CircuitState :: CircuitState
  gw_SelectedInstance :: string
  gw_ServiceName :: string
  gw_RetryCount :: int
  gw_FailureReason :: string

record request =
  rq_Method :: string
  rq_Path :: string
  rq_RawQuery :: string
  rq_Header :: header
  rq_Host :: string
  rq_RemoteAddr :: string
  rq_TLS :: bool
  rq_Ctx :: "GatewayContext option"
  rq_Deadline :: "gotime option"

text \<open>\<open>gwctx.From\<close> and writes through the pointer it returns.\<close>

definition gwctx_From :: "'a request_scheme \<Rightarrow> GatewayContext option" where
  "gwctx_From r = rq_Ctx r"

definition gwctx_MustFrom :: "'a request_scheme \<Rightarrow> GatewayContext go" where
  "gwctx_MustFrom r = (case gwctx_From r of Some g \<Rightarrow> Ret g | None \<Rightarrow> Panic)"

definition NewContext :: "GatewayContext \<Rightarrow> 'a request_scheme \<Rightarrow> 'a request_scheme" where
  "NewContext g r = r\<lparr>rq_Ctx := Some g\<rparr>"

definition upd_ctx :: "(GatewayContext \<Rightarrow> GatewayContext) \<Rightarrow> 'a request_scheme \<Rightarrow> 'a request_scheme" where
  "upd_ctx f r = r\<lparr>rq_Ctx := map_option f (rq_Ctx r)\<rparr>"

subsection \<open>\<open>net.SplitHostPort\<close>\<close>

text \<open>The host and the port of \<open>host:port\<close> or \<open>[host]:port\<close>, \<open>None\<close> for an error.\<close>

definition before_last_colon :: "string \<Rightarrow> (string \<times> string) option" where
  "before_last_colon s =
     (if CHR '':'' \<in> set s
      then Some (rev (tl (dropWhile (\<lambda>c. c \<noteq> CHR '':'') (rev s))), rev (takeWhile (\<lambda>c. c \<noteq> CHR '':'') (rev s)))
      else None)"

definition SplitHostPort :: "string \<Rightarrow> (string \<times> string) option" where
  "SplitHostPort hp =
     (case before_last_colon hp of
        None \<Rightarrow> None
      | Some (front, port) \<Rightarrow>
          (case hp of
             [] \<Rightarrow> None
           | c # cs \<Rightarrow>
               if c = CHR ''['' then
                 (if CHR '']'' \<notin> set hp then None
                  else let host = takeWhile (\<lambda>x. x \<noteq> CHR '']'') cs
                       in if length host + 2 = length hp then None
                          else if length host + 2 = length front
                          then (if CHR ''['' \<in> set (drop 1 hp) \<or> CHR '']'' \<in> set (drop (length host + 2) hp) then None
                                else Some (host, port))
                          else None)
               else (if CHR '':'' \<in> set front \<or> CHR ''['' \<in> set hp \<or> CHR '']'' \<in> set hp then None
                     else Some (front, port))))"

subsection \<open>Lemmas\<close>

lemma h_Get_Set [simp]: "CanonicalHeaderKey k = CanonicalHeaderKey k' \<Longrightarrow> h_Get (h_Set k v h) k' = v"
  by (simp add: h_Get_def h_Set_def)

lemma h_Get_Set_other [simp]: "CanonicalHeaderKey k \<noteq> CanonicalHeaderKey k' \<Longrightarrow> h_Get (h_Set k v h) k' = h_Get h k'"
  by (simp add: h_Get_def h_Set_def)

lemma go_bind_Ret_iff [simp]: "go_bind m f = Ret b \<longleftrightarrow> (\<exists>a. m = Ret a \<and> f a = Ret b)"
  by (cases m) auto

lemma go_bind_Panic_iff [simp]: "go_bind m f = Panic \<longleftrightarrow> m = Panic \<or> (\<exists>a. m = Ret a \<and> f a = Panic)"
  by (cases m) auto

lemma sent_WriteHeader: "rw_sent w \<noteq> None \<Longrightarrow> WriteHeader code w = Ret w"
  by (simp add: WriteHeader_def)

lemma sent_response_map [simp]: "rw_sent w \<noteq> None \<Longrightarrow> response (rw_map f w) = response w"
  by (auto simp: response_def rw_map_def split: option.split)

lemma rw_sent_map [simp]: "rw_sent (rw_map f w) = rw_sent w"
  by (simp add: rw_map_def)

lemma valid_WriteHeader:
  "rw_sent w = None \<Longrightarrow> 200 \<le> code \<Longrightarrow> code \<le> 999 \<Longrightarrow> WriteHeader code w = Ret (w\<lparr>rw_sent := Some (code, rw_header w)\<rparr>)"
  by (simp add: WriteHeader_def)

end
