(* ===== verification/Observability.thy ===== *)
theory Observability
  imports Go_Http
begin

section \<open>Metrics and the logger (\<open>internal/observability\<close>)\<close>

text \<open>
  The instruments of the gateway as the table \<open>NewMetrics\<close> registers, and the updates the
  components make. The Prometheus client is a parameter: \<open>register\<close> is what the \<open>promauto\<close>
  factory does with one declaration. A decimal constant of the source is kept as the exact
  number here; only its order matters.
\<close>

subsection \<open>The instruments\<close>

datatype instrument =
    RequestsTotal | RequestDuration | UpstreamDuration | UpstreamErrors | PluginExecutions
    | ActiveRequests | LoadShed | CircuitBreakerState | CircuitBreakerTransitions | RetriesTotal
    | RetrySuccess | RateLimitHits | ConfigReloads | ConfigReloadFailures | ConfigReloadDuration
    | RuntimeVersion | RateLimitFallbacks | RateLimitRedisLatency | RateLimitRejected
    | RateLimitCircuitState | ExternalPluginLatency | ExternalPluginErrors | ExternalPluginHealth
    | SmartLBInstanceScore | SmartLBRoutingDecision

datatype metric_kind = CounterVec | HistogramVec | GaugeVec | Counter | Gauge

record metric_opts =
  mo_Kind :: metric_kind
  mo_Name :: string
  mo_Help :: string
  mo_Buckets :: "real list"
  mo_Labels :: "string list"

definition latencyBuckets :: "real list" where
  "latencyBuckets = [1/200, 1/100, 1/40, 1/20, 1/10, 1/4, 1/2, 1, 5/2, 5, 10]"

text \<open>The struct literal of \<open>NewMetrics\<close>, field by field; \<open>defBuckets\<close> is \<open>prometheus.DefBuckets\<close>.\<close>

definition metric_table :: "real list \<Rightarrow> (instrument \<times> metric_opts) list" where
  "metric_table defBuckets =
    [(RequestsTotal, \<lparr>mo_Kind = CounterVec, mo_Name = ''gateway_requests_total'',
       mo_Help = ''Total inbound requests handled by the gateway.'',
       mo_Buckets = [], mo_Labels = [''route'', ''method'', ''status'']\<rparr>),
     (RequestDuration, \<lparr>mo_Kind = HistogramVec, mo_Name = ''gateway_request_duration_seconds'',
       mo_Help = ''End-to-end request latency including upstream and plugin time.'',
       mo_Buckets = latencyBuckets, mo_Labels = [''route'', ''method'', ''status'']\<rparr>),
     (UpstreamDuration, \<lparr>mo_Kind = HistogramVec, mo_Name = ''gateway_upstream_request_duration_seconds'',
       mo_Help = ''Upstream-only request latency (excludes plugin overhead).'',
       mo_Buckets = latencyBuckets, mo_Labels = [''service'', ''instance'']\<rparr>),
     (UpstreamErrors, \<lparr>mo_Kind = CounterVec, mo_Name = ''gateway_upstream_errors_total'',
       mo_Help = ''Total upstream errors by type (connection_error, 502, 503, 504).'',
       mo_Buckets = [], mo_Labels = [''service'', ''instance'', ''error_type'']\<rparr>),
     (PluginExecutions, \<lparr>mo_Kind = CounterVec, mo_Name = ''gateway_plugin_executions_total'',
       mo_Help = ''Plugin execution outcomes (success, abort, error).'',
       mo_Buckets = [], mo_Labels = [''plugin'', ''result'']\<rparr>),
     (ActiveRequests, \<lparr>mo_Kind = GaugeVec, mo_Name = ''gateway_active_requests'',
       mo_Help = ''Current number of in-flight requests.'',
       mo_Buckets = [], mo_Labels = []\<rparr>),
     (LoadShed, \<lparr>mo_Kind = Counter, mo_Name = ''gateway_load_shed_total'',
       mo_Help = ''Total requests rejected by the load shedding semaphore.'',
       mo_Buckets = [], mo_Labels = []\<rparr>),
     (CircuitBreakerState, \<lparr>mo_Kind = GaugeVec, mo_Name = ''gateway_circuit_breaker_state'',
       mo_Help = ''Current circuit breaker state: 0=closed, 1=half_open, 2=open.'',
       mo_Buckets = [], mo_Labels = [''service'', ''instance'']\<rparr>),
     (CircuitBreakerTransitions, \<lparr>mo_Kind = CounterVec, mo_Name = ''gateway_circuit_breaker_transitions_total'',
       mo_Help = ''Total circuit breaker state transitions.'',
       mo_Buckets = [], mo_Labels = [''service'', ''instance'', ''from'', ''to'']\<rparr>),
     (RetriesTotal, \<lparr>mo_Kind = CounterVec, mo_Name = ''gateway_retries_total'',
       mo_Help = ''Total retry attempts by reason (connection_error, upstream_502, etc.).'',
       mo_Buckets = [], mo_Labels = [''route'', ''service'', ''reason'']\<rparr>),
     (RetrySuccess, \<lparr>mo_Kind = CounterVec, mo_Name = ''gateway_retry_success_total'',
       mo_Help = ''Retries that ultimately produced a successful upstream response.'',
       mo_Buckets = [], mo_Labels = [''route'', ''service'']\<rparr>),
     (RateLimitHits, \<lparr>mo_Kind = CounterVec, mo_Name = ''gateway_rate_limit_hits_total'',
       mo_Help = ''Total requests rejected by rate limiting.'',
       mo_Buckets = [], mo_Labels = [''route'', ''strategy'']\<rparr>),
     (ConfigReloads, \<lparr>mo_Kind = CounterVec, mo_Name = ''gateway_config_reload_total'',
       mo_Help = ''Config reload outcomes.'',
       mo_Buckets = [], mo_Labels = [''result'']\<rparr>),
     (ConfigReloadFailures, \<lparr>mo_Kind = Counter, mo_Name = ''gateway_config_reload_failures_total'',
       mo_Help = ''Total failed config reloads (runtime rebuild error).'',
       mo_Buckets = [], mo_Labels = []\<rparr>),
     (ConfigReloadDuration, \<lparr>mo_Kind = HistogramVec, mo_Name = ''gateway_config_reload_duration_seconds'',
       mo_Help = ''Time taken to read, parse, and validate the config file.'',
       mo_Buckets = defBuckets, mo_Labels = [''result'']\<rparr>),
     (RuntimeVersion, \<lparr>mo_Kind = Gauge, mo_Name = ''gateway_runtime_version'',
       mo_Help = ''Monotonically increasing version of the active GatewayRuntime.'',
       mo_Buckets = [], mo_Labels = []\<rparr>),
     (RateLimitFallbacks, \<lparr>mo_Kind = Counter, mo_Name = ''gateway_ratelimit_redis_fallbacks_total'',
       mo_Help = ''Times the Redis rate limiter fell back to in-memory.'',
       mo_Buckets = [], mo_Labels = []\<rparr>),
     (RateLimitRedisLatency, \<lparr>mo_Kind = HistogramVec, mo_Name = ''gateway_ratelimit_redis_latency_seconds'',
       mo_Help = ''Latency of Redis rate limit Lua script calls.'',
       mo_Buckets = [1/1000, 1/200, 1/100, 1/40, 1/20, 1/10], mo_Labels = [''route'']\<rparr>),
     (RateLimitRejected, \<lparr>mo_Kind = CounterVec, mo_Name = ''gateway_ratelimit_rejected_total'',
       mo_Help = ''Requests rejected by rate limiting by backend.'',
       mo_Buckets = [], mo_Labels = [''backend'', ''route'']\<rparr>),
     (RateLimitCircuitState, \<lparr>mo_Kind = GaugeVec, mo_Name = ''gateway_ratelimit_redis_circuit_state'',
       mo_Help = ''Redis rate limiter circuit breaker state: 0=closed, 1=half_open, 2=open.'',
       mo_Buckets = [], mo_Labels = [''addr'']\<rparr>),
     (ExternalPluginLatency, \<lparr>mo_Kind = HistogramVec, mo_Name = ''gateway_external_plugin_latency_seconds'',
       mo_Help = ''Latency of external plugin HTTP calls.'',
       mo_Buckets = [1/1000, 1/200, 1/100, 1/40, 1/20, 1/10, 1/4, 1/2], mo_Labels = [''plugin'']\<rparr>),
     (ExternalPluginErrors, \<lparr>mo_Kind = CounterVec, mo_Name = ''gateway_external_plugin_errors_total'',
       mo_Help = ''External plugin call errors by reason.'',
       mo_Buckets = [], mo_Labels = [''plugin'', ''reason'']\<rparr>),
     (ExternalPluginHealth, \<lparr>mo_Kind = GaugeVec, mo_Name = ''gateway_external_plugin_health_status'',
       mo_Help = ''External plugin health: 1=healthy, 0=unhealthy.'',
       mo_Buckets = [], mo_Labels = [''plugin'']\<rparr>),
     (SmartLBInstanceScore, \<lparr>mo_Kind = GaugeVec, mo_Name = ''gateway_smart_lb_instance_score'',
       mo_Help = ''Real-time AI normalized score [0..1] of a load balancer instance'',
       mo_Buckets = [], mo_Labels = [''service'', ''instance'']\<rparr>),
     (SmartLBRoutingDecision, \<lparr>mo_Kind = CounterVec, mo_Name = ''gateway_smart_lb_routing_decisions_total'',
       mo_Help = ''Count of routing decisions by type (explored or exploited)'',
       mo_Buckets = [], mo_Labels = [''service'', ''instance'', ''type'']\<rparr>)]"

fun register_all :: "(metric_opts \<Rightarrow> 'r \<Rightarrow> 'r go) \<Rightarrow> (instrument \<times> metric_opts) list \<Rightarrow> 'r \<Rightarrow> 'r go" where
  "register_all register [] reg = Ret reg"
| "register_all register ((ins, opts) # rest) reg = go_bind (register opts reg) (register_all register rest)"

definition NewMetrics :: "(metric_opts \<Rightarrow> 'r \<Rightarrow> 'r go) \<Rightarrow> real list \<Rightarrow> 'r \<Rightarrow> 'r go" where
  "NewMetrics register defBuckets reg = register_all register (metric_table defBuckets) reg"

subsection \<open>Updates\<close>

datatype metric_op = OpInc | OpSet f64 | OpObserve f64

text \<open>The instrument, the arguments of \<open>WithLabelValues\<close> (none for a plain one), and the method.\<close>

datatype metric_update = Update instrument "string list" metric_op

fun op_allowed :: "metric_kind \<Rightarrow> metric_op \<Rightarrow> bool" where
  "op_allowed CounterVec OpInc = True"
| "op_allowed Counter OpInc = True"
| "op_allowed GaugeVec (OpSet v) = True"
| "op_allowed Gauge (OpSet v) = True"
| "op_allowed HistogramVec (OpObserve v) = True"
| "op_allowed _ _ = False"

text \<open>
  \<open>WithLabelValues\<close> panics unless it gets one value per declared label; the method must be
  one the instrument has.
\<close>

fun well_typed :: "metric_update \<Rightarrow> bool" where
  "well_typed (Update ins labels op) =
     (case map_of (metric_table []) ins of
        None \<Rightarrow> False
      | Some opts \<Rightarrow> op_allowed (mo_Kind opts) op \<and> length labels = length (mo_Labels opts))"

text \<open>
  What a step does to the metrics of a component, \<open>None\<close> for a nil pointer: it only appends,
  and only updates that the instruments accept.
\<close>

definition emits_typed :: "metric_update list option \<Rightarrow> metric_update list option \<Rightarrow> bool" where
  "emits_typed before after \<longleftrightarrow>
     (case before of None \<Rightarrow> after = None | Some ms \<Rightarrow> (\<exists>new. after = Some (ms @ new) \<and> list_all well_typed new))"

declare well_typed.simps [simp del]

lemma emits_typed_refl [simp, intro]: "emits_typed ms ms"
  by (auto simp: emits_typed_def split: option.split)

lemma emits_typed_append: "well_typed u \<Longrightarrow> emits_typed (Some ms) (Some (ms @ [u]))"
  by (simp add: emits_typed_def)

lemma emits_typed_map [simp]: "well_typed u \<Longrightarrow> emits_typed ms (map_option (\<lambda>ms. ms @ [u]) ms)"
  by (auto simp: emits_typed_def split: option.split)

lemma emits_typed_trans [trans]: "emits_typed a b \<Longrightarrow> emits_typed b c \<Longrightarrow> emits_typed a c"
  by (auto simp: emits_typed_def split: option.splits)

lemma updates_typed [simp]:
  "well_typed (Update ExternalPluginErrors [name, reason] OpInc)"
  "well_typed (Update ExternalPluginLatency [name] (OpObserve v))"
  "well_typed (Update ExternalPluginHealth [name] (OpSet v))"
  "well_typed (Update SmartLBInstanceScore [service, inst] (OpSet v))"
  "well_typed (Update SmartLBRoutingDecision [service, inst, kind] OpInc)"
  "well_typed (Update RuntimeVersion [] (OpSet v))"
  "well_typed (Update ConfigReloads [result] OpInc)"
  "well_typed (Update ConfigReloadFailures [] OpInc)"
  by (simp_all add: well_typed.simps metric_table_def)

subsection \<open>The logger\<close>

text \<open>\<open>parse\<close> is zap's \<open>Level.UnmarshalText\<close>; levels are zap's numbers, \<open>InfoLevel\<close> is 0. The encoders are named.\<close>

record logger_config =
  lg_Level :: int
  lg_Development :: bool
  lg_Encoding :: string
  lg_OutputPaths :: "string list"
  lg_ErrorOutputPaths :: "string list"
  lg_Keys :: "(string \<times> string) list"
  lg_Encoders :: "(string \<times> string) list"

definition NewLogger :: "(string \<Rightarrow> int option) \<Rightarrow> string \<Rightarrow> logger_config" where
  "NewLogger parse level =
     \<lparr>lg_Level = (case parse level of Some l \<Rightarrow> l | None \<Rightarrow> 0), lg_Development = False, lg_Encoding = ''json'',
      lg_OutputPaths = [''stdout''], lg_ErrorOutputPaths = [''stderr''],
      lg_Keys = [(''TimeKey'', ''ts''), (''LevelKey'', ''level''), (''NameKey'', ''logger''), (''CallerKey'', ''caller''),
        (''MessageKey'', ''msg''), (''StacktraceKey'', ''stacktrace'')],
      lg_Encoders = [(''LineEnding'', ''DefaultLineEnding''), (''EncodeLevel'', ''LowercaseLevelEncoder''),
        (''EncodeTime'', ''RFC3339NanoTimeEncoder''), (''EncodeDuration'', ''MillisDurationEncoder''),
        (''EncodeCaller'', ''ShortCallerEncoder'')]\<rparr>"

subsection \<open>What the Prometheus client documents\<close>

definition name_char :: "char \<Rightarrow> bool" where
  "name_char c = (let n = of_char c :: nat in (97 \<le> n \<and> n \<le> 122) \<or> (65 \<le> n \<and> n \<le> 90) \<or> n = 95)"

definition digit_char :: "char \<Rightarrow> bool" where
  "digit_char c = (let n = of_char c :: nat in 48 \<le> n \<and> n \<le> 57)"

definition plain_name :: "string \<Rightarrow> bool" where
  "plain_name s = (s \<noteq> [] \<and> name_char (hd s) \<and> list_all (\<lambda>c. name_char c \<or> digit_char c) s)"

text \<open>
  A declaration no rule of the client is against: a plain name and plain, distinct labels that
  are not reserved, and increasing buckets. (A name may also have colons, which none here has.)
\<close>

definition well_formed :: "metric_opts \<Rightarrow> bool" where
  "well_formed opts = (plain_name (mo_Name opts) \<and> list_all (\<lambda>l. plain_name l \<and> take 2 l \<noteq> ''__'' \<and> l \<noteq> ''le'') (mo_Labels opts)
     \<and> distinct (mo_Labels opts) \<and> sorted_wrt (<) (mo_Buckets opts))"

text \<open>
  \<open>MustRegister\<close> of a well-formed declaration panics exactly when the registry already has a
  metric of that name.
\<close>

definition prom_ok :: "(metric_opts \<Rightarrow> 'r \<Rightarrow> 'r go) \<Rightarrow> ('r \<Rightarrow> string set) \<Rightarrow> bool" where
  "prom_ok register names \<longleftrightarrow> (\<forall>opts reg. well_formed opts \<longrightarrow>
     (if mo_Name opts \<in> names reg then register opts reg = Panic
      else \<exists>reg'. register opts reg = Ret reg' \<and> names reg' = insert (mo_Name opts) (names reg)))"

lemma register_all_ok:
  "prom_ok register names \<Longrightarrow> list_all (\<lambda>(i, opts). well_formed opts) table \<Longrightarrow>
   distinct (map (\<lambda>(i, opts). mo_Name opts) table) \<Longrightarrow> names reg \<inter> (\<lambda>(i, opts). mo_Name opts) ` set table = {} \<Longrightarrow>
   \<exists>reg'. register_all register table reg = Ret reg' \<and> names reg' = names reg \<union> (\<lambda>(i, opts). mo_Name opts) ` set table"
proof (induction table arbitrary: reg)
  case (Cons e table)
  obtain i opts where e: "e = (i, opts)" by fastforce
  obtain reg1 where reg1: "register opts reg = Ret reg1" "names reg1 = insert (mo_Name opts) (names reg)"
    using Cons.prems(1) [unfolded prom_ok_def, rule_format, of opts reg] Cons.prems(2,4) by (auto simp: e)
  have "names reg1 \<inter> (\<lambda>(i, opts). mo_Name opts) ` set table = {}"
    using Cons.prems(3,4) by (auto simp: reg1(2) e image_iff)
  from Cons.IH [OF Cons.prems(1) _ _ this] Cons.prems(2,3) show ?case by (auto simp: reg1 e)
qed simp

lemma register_all_again:
  "prom_ok register names \<Longrightarrow> well_formed opts \<Longrightarrow> mo_Name opts \<in> names reg \<Longrightarrow>
    register_all register ((i, opts) # table) reg = Panic"
  by (simp add: prom_ok_def)

subsection \<open>The table\<close>

lemma table_names: "distinct (map (\<lambda>(i, opts). mo_Name opts) (metric_table defBuckets))"
  by (simp add: metric_table_def)

lemma plain_chars: "name_char (CHR ''_'') \<and> list_all name_char ''abcdefghijklmnopqrstuvwxyz''"
  by code_simp

lemma table_wf: "sorted_wrt (<) defBuckets \<Longrightarrow> list_all (\<lambda>(i, opts). well_formed opts) (metric_table defBuckets)"
  using plain_chars by (simp add: metric_table_def well_formed_def latencyBuckets_def plain_name_def)

lemma table_covers: "map_of (metric_table defBuckets) i \<noteq> None"
  by (cases i) (simp_all add: metric_table_def)

definition metric_names :: "string set" where
  "metric_names = (\<lambda>(i, opts). mo_Name opts) ` set (metric_table [])"

lemma metric_names_any: "(\<lambda>(i, opts). mo_Name opts) ` set (metric_table defBuckets) = metric_names"
  by (simp add: metric_names_def metric_table_def)

text \<open>
  On a registry that has none of its names, \<open>NewMetrics\<close> registers the 25 instruments, one
  for every field of \<open>Metrics\<close>, and cannot panic; called again on the same registry it
  panics at once.
\<close>

theorem NewMetrics_once:
  assumes "prom_ok register names" and "sorted_wrt (<) defBuckets" and "names reg \<inter> metric_names = {}"
  shows "\<exists>reg'. NewMetrics register defBuckets reg = Ret reg' \<and> names reg' = names reg \<union> metric_names
    \<and> NewMetrics register defBuckets reg' = Panic \<and> (\<forall>i. map_of (metric_table defBuckets) i \<noteq> None) \<and> card metric_names = 25"
proof -
  obtain reg' where r: "NewMetrics register defBuckets reg = Ret reg'" "names reg' = names reg \<union> metric_names"
    using register_all_ok [OF assms(1) table_wf [OF assms(2)] table_names, of reg] assms(3)
    by (auto simp: NewMetrics_def metric_names_any)
  obtain i opts table where t: "metric_table defBuckets = (i, opts) # table" by (simp add: metric_table_def)
  then have "mo_Name opts \<in> metric_names" by (force simp: metric_names_any [of defBuckets, symmetric])
  then have "NewMetrics register defBuckets reg' = Panic"
    using register_all_again [OF assms(1), of opts reg' i table] table_wf [OF assms(2)] r(2) by (simp add: NewMetrics_def t)
  moreover have "card metric_names = 25"
    using distinct_card [OF table_names [of "[]"]] by (simp add: metric_names_def image_set metric_table_def)
  ultimately show ?thesis using r table_covers by blast
qed

text \<open>A registry that keeps the names.\<close>

definition name_register :: "metric_opts \<Rightarrow> string set \<Rightarrow> string set go" where
  "name_register opts reg = (if \<not> well_formed opts \<or> mo_Name opts \<in> reg then Panic else Ret (insert (mo_Name opts) reg))"

theorem NewMetrics_once_witness:
  "\<exists>reg. NewMetrics name_register [1/2, 1] {} = Ret reg \<and> NewMetrics name_register [1/2, 1] reg = Panic"
  using NewMetrics_once [of name_register "\<lambda>reg. reg" "[1/2, 1]" "{}"]
  by (auto simp: prom_ok_def name_register_def)

end
