(* ===== verification/Smart_Balancer.thy ===== *)
theory Smart_Balancer
  imports Load_Balancer Observability
begin

section \<open>The adaptive balancer (\<open>internal/loadbalancer/smart\<close>)\<close>

text \<open>
  \<open>Balancer\<close> keeps one \<open>InstanceState\<close> per instance ID and selects by a roulette wheel
  over scores computed from it. The atomics store the bit patterns of the floats, and
  reading them back is the identity, so the model stores the floats. An
  \<open>InstanceState\<close> is created once per ID and never replaced, so the pointer a \<open>done\<close>
  callback holds is named by the ID. The calls to the metrics are kept as a list,
  \<open>None\<close> for a nil \<open>*Metrics\<close>.
\<close>

subsection \<open>Telemetry of one instance\<close>

record InstanceState =
  is_inflight :: int
  is_ewmaLatency :: f64
  is_ewmaErrorRate :: f64

definition NewInstanceState :: InstanceState where
  "NewInstanceState = \<lparr>is_inflight = 0, is_ewmaLatency = Fin 50, is_ewmaErrorRate = Fin 0\<rparr>"

definition RecordStart :: "InstanceState \<Rightarrow> InstanceState" where
  "RecordStart s = s\<lparr>is_inflight := is_inflight s + 1\<rparr>"

text \<open>\<open>alpha * new + (1.0 - alpha) * old\<close>, in the order the code rounds.\<close>

definition ewma :: "f64 \<Rightarrow> f64 \<Rightarrow> f64 \<Rightarrow> f64" where
  "ewma alpha new old = f_add (f_mul alpha new) (f_mul (f_sub (Fin 1) alpha) old)"

definition Record :: "duration \<Rightarrow> bool \<Rightarrow> f64 \<Rightarrow> f64 \<Rightarrow> InstanceState \<Rightarrow> InstanceState" where
  "Record latency isErr latAlpha errAlpha s =
     (let s1 = s\<lparr>is_inflight := is_inflight s - 1\<rparr>;
          latMs = f_of_int (go_div latency millisecond);
          newLat = ewma latAlpha latMs (is_ewmaLatency s1);
          s2 = s1\<lparr>is_ewmaLatency := newLat\<rparr>;
          errVal = (if isErr then Fin 1 else Fin 0);
          newErr = ewma errAlpha errVal (is_ewmaErrorRate s2)
      in s2\<lparr>is_ewmaErrorRate := newErr\<rparr>)"

subsection \<open>The balancer\<close>

record Weights =
  w_Latency :: f64
  w_Errors :: f64
  w_Load :: f64

record smart_config =
  sc_Weights :: Weights
  sc_MaxTolerableLatency :: f64
  sc_MaxConcurrentRequest :: f64
  sc_ExplorationRate :: f64
  sc_LatencyAlpha :: f64
  sc_ErrorAlpha :: f64

text \<open>A decimal constant of the source is the exact rational rounded once.\<close>

definition DefaultConfig :: smart_config where
  "DefaultConfig =
     \<lparr>sc_Weights = \<lparr>w_Latency = round64 (3/10), w_Errors = round64 (5/10), w_Load = round64 (2/10)\<rparr>,
      sc_MaxTolerableLatency = Fin 1000, sc_MaxConcurrentRequest = Fin 200,
      sc_ExplorationRate = round64 (1/10), sc_LatencyAlpha = round64 (1/10),
      sc_ErrorAlpha = round64 (2/10)\<rparr>"

record smart_balancer =
  sb_cfg :: smart_config
  sb_states :: "string \<rightharpoonup> InstanceState"
  sb_metrics :: "metric_update list option"
  sb_service :: string

definition smart_New :: "smart_config \<Rightarrow> string list \<Rightarrow> bool \<Rightarrow> string \<Rightarrow> smart_balancer" where
  "smart_New cfg ids withMetrics service =
     \<lparr>sb_cfg = cfg, sb_states = fold (\<lambda>iid m. m(iid \<mapsto> NewInstanceState)) ids Map.empty,
      sb_metrics = (if withMetrics then Some [] else None), sb_service = service\<rparr>"

definition emit :: "metric_update \<Rightarrow> smart_balancer \<Rightarrow> smart_balancer" where
  "emit m sb = sb\<lparr>sb_metrics := map_option (\<lambda>ms. ms @ [m]) (sb_metrics sb)\<rparr>"

definition getState :: "string \<Rightarrow> smart_balancer \<Rightarrow> InstanceState \<times> smart_balancer" where
  "getState iid sb =
     (case sb_states sb iid of
        Some s \<Rightarrow> (s, sb)
      | None \<Rightarrow> (NewInstanceState, sb\<lparr>sb_states := (sb_states sb)(iid \<mapsto> NewInstanceState)\<rparr>))"

text \<open>A feature score: \<open>1.0 - x\<close>, not below zero.\<close>

definition clamped :: "f64 \<Rightarrow> f64" where
  "clamped x = (let s = f_sub (Fin 1) x in if f_lt s (Fin 0) then Fin 0 else s)"

abbreviation min_score :: f64 where "min_score \<equiv> round64 (1/100)"

definition inst_score :: "smart_config \<Rightarrow> InstanceState \<Rightarrow> f64" where
  "inst_score cfg st =
     (let latScore = clamped (f_div (is_ewmaLatency st) (sc_MaxTolerableLatency cfg));
          errScore = clamped (is_ewmaErrorRate st);
          loadScore = clamped (f_div (f_of_int (is_inflight st)) (sc_MaxConcurrentRequest cfg));
          score = f_add (f_add (f_mul (w_Latency (sc_Weights cfg)) latScore)
                               (f_mul (w_Errors (sc_Weights cfg)) errScore))
                        (f_mul (w_Load (sc_Weights cfg)) loadScore)
      in if f_le score min_score then min_score else score)"

text \<open>The scoring loop: the scores, their running total and the balancer.\<close>

fun score_all :: "(nat \<Rightarrow> string) \<Rightarrow> nat list \<Rightarrow> f64 \<Rightarrow> smart_balancer \<Rightarrow> f64 list \<times> f64 \<times> smart_balancer" where
  "score_all idof [] tot sb = ([], tot, sb)"
| "score_all idof (i # is) tot sb =
     (let (st, sb1) = getState (idof i) sb;
          score = inst_score (sb_cfg sb1) st;
          sb2 = emit (Update SmartLBInstanceScore [sb_service sb1, idof i] (OpSet score)) sb1;
          (scores, tot', sb') = score_all idof is (f_add tot score) sb2
      in (score # scores, tot', sb'))"

text \<open>The roulette loop: the first instance whose accumulated score reaches the target.\<close>

fun roulette :: "f64 \<Rightarrow> f64 \<Rightarrow> nat list \<Rightarrow> f64 list \<Rightarrow> nat option" where
  "roulette target accum (i # is) (s # ss) =
     (let accum' = f_add accum s
      in if f_ge accum' target then Some i else roulette target accum' is ss)"
| "roulette target accum _ _ = None"

definition start_request :: "string \<Rightarrow> smart_balancer \<Rightarrow> smart_balancer" where
  "start_request iid sb =
     (let (st, sb1) = getState iid sb
      in sb1\<lparr>sb_states := (sb_states sb1)(iid \<mapsto> RecordStart st)\<rparr>)"

text \<open>\<open>Next\<close>; the callback it returns is named by the instance ID it will record for.\<close>

definition smart_Next ::
  "(nat \<Rightarrow> string) \<Rightarrow> (nat \<Rightarrow> bool) \<Rightarrow> 's skipper \<Rightarrow> nat list \<Rightarrow> draws \<Rightarrow> smart_balancer \<Rightarrow> 's
    \<Rightarrow> (lb_error + nat \<times> string) \<times> smart_balancer \<times> 's" where
  "smart_Next idof healthy isSkipped instances d sb s =
     (let (eligible, s1) = filterEligible healthy isSkipped instances s
      in if eligible = [] then (Inl ErrNoHealthyInstances, sb, s1)
         else if f_lt (Fin (dr_explore d)) (sc_ExplorationRate (sb_cfg sb)) \<or> length eligible = 1
         then (let selected = eligible ! dr_intn d (length eligible);
                   sb1 = emit (Update SmartLBRoutingDecision [sb_service sb, idof selected, ''explored''] OpInc) sb
               in (Inr (selected, idof selected), start_request (idof selected) sb1, s1))
         else (let (scores, totalScore, sb1) = score_all idof eligible (Fin 0) sb;
                   target = f_mul (Fin (dr_target d)) totalScore;
                   selected = (case roulette target (Fin 0) eligible scores of
                                 Some i \<Rightarrow> i
                               | None \<Rightarrow> last eligible);
                   sb2 = emit (Update SmartLBRoutingDecision [sb_service sb1, idof selected, ''exploited''] OpInc) sb1
               in (Inr (selected, idof selected), start_request (idof selected) sb2, s1)))"

text \<open>The \<open>done\<close> callback.\<close>

definition smart_done :: "string \<Rightarrow> duration \<Rightarrow> bool \<Rightarrow> smart_balancer \<Rightarrow> smart_balancer" where
  "smart_done iid lat err sb =
     sb\<lparr>sb_states := (sb_states sb)(iid := map_option
       (Record lat err (sc_LatencyAlpha (sb_cfg sb)) (sc_ErrorAlpha (sb_cfg sb))) (sb_states sb iid))\<rparr>"

subsection \<open>The balancer keeps the \<open>LoadBalancer\<close> contract\<close>

lemma length_scores: "score_all idof is tot sb = (scores, tot', sb') \<Longrightarrow> length scores = length is"
  by (induction idof "is" tot sb arbitrary: scores rule: score_all.induct)
    (auto simp: Let_def split: prod.splits)

lemma roulette_mem: "roulette target accum is ss = Some i \<Longrightarrow> i \<in> set is"
  by (induction target accum "is" ss rule: roulette.induct) (auto simp: Let_def split: if_splits)

interpretation smart: load_balancer "smart_Next idof" for idof
proof unfold_locales
  fix healthy :: "nat \<Rightarrow> bool" and sk :: "'s skipper" and "is" d s el s' and lb :: smart_balancer
  assume d: "fair_draws d" and e: "filterEligible healthy sk is s = (el, s')" "el \<noteq> []"
  obtain scores tot sb1 where sc: "score_all idof el (Fin 0) lb = (scores, tot, sb1)" by (metis prod_cases3)
  let ?r = "roulette (f_mul (Fin (dr_target d)) tot) (Fin 0) el scores"
  let ?j = "case ?r of Some i \<Rightarrow> i | None \<Rightarrow> last el"
  have j: "?j \<in> set el" using e(2) roulette_mem by (auto split: option.split)
  have "dr_intn d (length el) < length el" using d e(2) by (simp add: fair_draws_def)
  then have i: "el ! dr_intn d (length el) \<in> set el" by simp
  show "\<exists>i c lb'. i \<in> set el \<and> smart_Next idof healthy sk is d lb s = (Inr (i, c), lb', s')"
  proof (cases "f_lt (Fin (dr_explore d)) (sc_ExplorationRate (sb_cfg lb)) \<or> length el = 1")
    case True
    then show ?thesis using e i by (simp add: smart_Next_def Let_def)
  next
    case False
    then show ?thesis using e j unfolding smart_Next_def e(1) sc Let_def prod.case if_not_P [OF False]
      by auto
  qed
qed (simp add: smart_Next_def)

subsection \<open>The error rate stays a rate\<close>

definition unit_f :: "f64 \<Rightarrow> bool" where
  "unit_f f \<longleftrightarrow> (\<exists>r. f = Fin r \<and> repr r \<and> 0 \<le> r \<and> r \<le> 1)"

lemma unit_small: "0 \<le> x \<Longrightarrow> x \<le> 1 \<Longrightarrow> \<bar>x\<bar> \<le> (2::real) powi 1000"
  by simp

lemma unit_f_round: "0 \<le> x \<Longrightarrow> x \<le> 1 \<Longrightarrow> round64 x = Fin (rnd x) \<and> repr (rnd x) \<and> 0 \<le> rnd x \<and> rnd x \<le> 1"
  using rnd_unit [of x] round64_small [OF unit_small, of x] repr_rnd [of x] by simp

text \<open>\<open>1 - a\<close> is rounded by at most \<open>2^-54\<close>, which the addition rounds away again.\<close>

lemma expo_unit: "1 \<le> x \<Longrightarrow> x < 2 \<Longrightarrow> expo x = 0"
  by (simp add: expo_def numeral_eq_Suc)

lemma rne_near: "0 \<le> r \<Longrightarrow> r < 1/2 \<Longrightarrow> rne (of_int k + r) = k"
proof -
  assume r: "0 \<le> r" "r < 1/2"
  then have "\<lfloor>of_int k + r\<rfloor> = k" by (intro floor_unique) simp_all
  with r show ?thesis by (simp add: rne_def)
qed

lemma rnd_just_above_one: "rnd (1 + 2 powi (- 54)) = 1"
proof -
  let ?x = "1 + 2 powi (- 54) :: real"
  have q: "quantum ?x = - 52" by (simp add: quantum_def expo_unit power_int_minus)
  have "?x / 2 powi (- 52) = of_int (2 ^ 52) + 1 / 4" by (simp add: power_int_minus)
  then have "rne (?x / 2 powi (- 52)) = 2 ^ 52" by (simp only: rne_near)
  then have "rnd_pos ?x = of_int (2 ^ 52) * 2 powi (- 52)" by (simp only: rnd_pos_def q)
  then show ?thesis by (simp add: rnd_def power_int_minus)
qed

lemma rnd_complement_sum:
  assumes "repr a" and "0 \<le> a" and "a \<le> 1"
  shows "rnd (a + rnd (1 - a)) \<le> 1"
proof (cases "a = 0")
  case False
  have "\<bar>rnd (1 - a) - (1 - a)\<bar> \<le> 2 powi (0 - 54)"
    using assms False by (intro rnd_error_below) auto
  then have "a + rnd (1 - a) \<le> 1 + 2 powi (0 - 54)" by linarith
  then have "a + rnd (1 - a) \<le> 1 + 2 powi (- 54)" by simp
  then have "rnd (a + rnd (1 - a)) \<le> rnd (1 + 2 powi (- 54))" by (rule rnd_mono)
  then show ?thesis by (simp only: rnd_just_above_one)
qed simp


lemma ewma_unit:
  assumes "unit_f a" and "unit_f x" and "unit_f y"
  shows "unit_f (ewma a x y)"
proof -
  obtain ra rx ry where f: "a = Fin ra" "x = Fin rx" "y = Fin ry"
    and r: "repr ra" "0 \<le> ra" "ra \<le> 1" "repr rx" "0 \<le> rx" "rx \<le> 1" "repr ry" "0 \<le> ry" "ry \<le> 1"
    using assms by (auto simp: unit_f_def)
  let ?c = "rnd (1 - ra)"
  have c: "round64 (1 - ra) = Fin ?c" "repr ?c" "0 \<le> ?c" "?c \<le> 1"
    using unit_f_round [of "1 - ra"] r by auto
  have "0 \<le> ra * rx" "ra * rx \<le> 1" "0 \<le> ?c * ry" "?c * ry \<le> 1"
    using r c by (simp_all add: mult_le_one)
  then have m: "round64 (ra * rx) = Fin (rnd (ra * rx))" "0 \<le> rnd (ra * rx)"
    "round64 (?c * ry) = Fin (rnd (?c * ry))" "0 \<le> rnd (?c * ry)"
    using unit_f_round by blast+
  have "rnd (ra * rx) \<le> ra" using r by (intro rnd_le) (auto simp: mult_left_le)
  moreover have "rnd (?c * ry) \<le> ?c" using r c by (intro rnd_le) (auto simp: mult_left_le)
  ultimately have sum: "rnd (ra * rx) + rnd (?c * ry) \<le> ra + ?c" by simp
  let ?s = "rnd (ra * rx) + rnd (?c * ry)"
  have "rnd ?s \<le> 1"
    using rnd_mono [OF sum] rnd_complement_sum [of ra] r by simp
  moreover have "0 \<le> rnd ?s" using m by (simp add: rnd_nonneg)
  moreover have "\<bar>?s\<bar> \<le> 2 powi 1000" using sum m c r by simp
  ultimately show ?thesis
    using f c m round64_small [of ?s] repr_rnd [of ?s] by (simp add: ewma_def f_sub_def unit_f_def)
qed

text \<open>
  The error rate an instance is scored by is always a number in \<open>[0, 1]\<close>, rounding
  included: whatever calls are recorded, with any \<open>ErrorAlpha\<close> in \<open>[0, 1]\<close>, so the clamp of
  the error score in \<open>Next\<close> never acts.
\<close>

theorem error_rate_unit:
  assumes "unit_f errAlpha"
  shows "unit_f (is_ewmaErrorRate
    (fold (\<lambda>(lat, isErr, latAlpha). Record lat isErr latAlpha errAlpha) calls NewInstanceState))"
proof -
  have "unit_f (is_ewmaErrorRate (fold (\<lambda>(lat, isErr, latAlpha). Record lat isErr latAlpha errAlpha) calls st))"
    if "unit_f (is_ewmaErrorRate st)" for st
    using that
  proof (induction calls arbitrary: st)
    case (Cons c calls)
    obtain lat isErr latAlpha where c: "c = (lat, isErr, latAlpha)" by (metis prod_cases3)
    have "unit_f (if isErr then Fin 1 else Fin 0)" by (simp add: unit_f_def)
    then have "unit_f (is_ewmaErrorRate (Record lat isErr latAlpha errAlpha st))"
      using Cons.prems assms by (simp add: Record_def Let_def ewma_unit)
    then show ?case using Cons.IH c by simp
  qed simp
  then show ?thesis by (simp add: NewInstanceState_def unit_f_def)
qed

theorem error_rate_unit_witness:
  "unit_f (round64 (2/10))
   \<and> unit_f (is_ewmaErrorRate (fold (\<lambda>(lat, isErr, latAlpha). Record lat isErr latAlpha (round64 (2/10)))
       [(5000000, True, Fin 1), (7000000, False, Fin 1)] NewInstanceState))"
proof -
  have "unit_f (round64 (2/10))" using unit_f_round [of "2/10"] by (simp add: unit_f_def)
  then show ?thesis using error_rate_unit by blast
qed

subsection \<open>Scores\<close>

fun val :: "f64 \<Rightarrow> real" where
  "val (Fin r) = r"
| "val _ = 0"

lemma unit_f_val: "unit_f f \<longleftrightarrow> f = Fin (val f) \<and> repr (val f) \<and> 0 \<le> val f \<and> val f \<le> 1"
  by (cases f) (auto simp: unit_f_def)

lemma unit_f_Fin: "unit_f f \<Longrightarrow> \<exists>r. f = Fin r \<and> repr r \<and> 0 \<le> r \<and> r \<le> 1"
  by (simp add: unit_f_def)

text \<open>Configurations and telemetry the balancer is meant for.\<close>

definition sane_limit :: "f64 \<Rightarrow> bool" where
  "sane_limit f \<longleftrightarrow> (\<exists>m. f = Fin m \<and> 1 \<le> m \<and> m \<le> 2 ^ 100)"

definition sane_cfg :: "smart_config \<Rightarrow> bool" where
  "sane_cfg cfg \<longleftrightarrow> unit_f (w_Latency (sc_Weights cfg)) \<and> unit_f (w_Errors (sc_Weights cfg))
     \<and> unit_f (w_Load (sc_Weights cfg)) \<and> sane_limit (sc_MaxTolerableLatency cfg)
     \<and> sane_limit (sc_MaxConcurrentRequest cfg)"

definition sane_state :: "InstanceState \<Rightarrow> bool" where
  "sane_state st \<longleftrightarrow> (\<exists>l. is_ewmaLatency st = Fin l \<and> 0 \<le> l \<and> l \<le> 2 ^ 100)
     \<and> unit_f (is_ewmaErrorRate st) \<and> 0 \<le> is_inflight st \<and> is_inflight st \<le> 2 ^ 53"

lemma clamped_unit:
  assumes "0 \<le> x" and "x \<le> 2 ^ 200"
  shows "unit_f (clamped (Fin x))" and "clamped (Fin x) = Fin (max 0 (rnd (1 - x)))"
proof -
  have "\<bar>1 - x\<bar> \<le> 2 ^ 200" using assms by (simp add: abs_le_iff)
  also have "\<dots> \<le> (2::real) powi 1000" by simp
  finally have b: "\<bar>1 - x\<bar> \<le> (2::real) powi 1000" .
  then have r: "round64 (1 - x) = Fin (rnd (1 - x))" by (rule round64_small)
  then show eq: "clamped (Fin x) = Fin (max 0 (rnd (1 - x)))"
    by (auto simp: clamped_def f_sub_def Let_def)
  have "repr (rnd (1 - x))" by (rule repr_rnd, rule order_trans [OF b]) simp
  moreover have "rnd (1 - x) \<le> 1" using rnd_mono [of "1 - x" 1] assms by simp
  ultimately show "unit_f (clamped (Fin x))" unfolding eq unit_f_def by (auto simp: max_def)
qed

lemma ratio_round:
  assumes "0 \<le> l" and "l \<le> 2 ^ 100" and "sane_limit cap"
  shows "\<exists>m. cap = Fin m \<and> 1 \<le> m \<and> f_div (Fin l) cap = Fin (rnd (l / m)) \<and> 0 \<le> rnd (l / m) \<and> rnd (l / m) \<le> 2 ^ 200"
proof -
  obtain m where m: "cap = Fin m" "1 \<le> m" using assms(3) by (auto simp: sane_limit_def)
  have q: "0 \<le> l / m" "l / m \<le> 2 ^ 100"
    using assms m frac_le [of l l 1 m] by auto
  then have "\<bar>l / m\<bar> \<le> (2::real) powi 1000" by simp
  then have "f_div (Fin l) cap = Fin (rnd (l / m))" using m round64_small by simp
  moreover have "rnd (l / m) \<le> 2 ^ 100"
    using q by (intro rnd_le reprI [of 1 100]) simp_all
  ultimately show ?thesis using m rnd_nonneg [OF q(1)] by (auto intro: order_trans)
qed


text \<open>The weighted sum of three feature scores, with the code's roundings.\<close>

definition weigh :: "Weights \<Rightarrow> real \<Rightarrow> real \<Rightarrow> real \<Rightarrow> real" where
  "weigh w a b c = rnd (rnd (rnd (val (w_Latency w) * a) + rnd (val (w_Errors w) * b)) + rnd (val (w_Load w) * c))"

lemma product_unit:
  "unit_f w \<Longrightarrow> 0 \<le> a \<Longrightarrow> a \<le> 1 \<Longrightarrow>
    f_mul w (Fin a) = Fin (rnd (val w * a)) \<and> 0 \<le> rnd (val w * a) \<and> rnd (val w * a) \<le> 1"
proof -
  assume w: "unit_f w" and a: "0 \<le> a" "a \<le> 1"
  then obtain r where r: "w = Fin r" "0 \<le> r" "r \<le> 1" by (auto simp: unit_f_def)
  then have "0 \<le> r * a" "r * a \<le> 1" using a by (simp_all add: mult_le_one)
  then show ?thesis using r unit_f_round by simp
qed

lemma weighted_sum:
  assumes "unit_f (w_Latency w)" and "unit_f (w_Errors w)" and "unit_f (w_Load w)"
    and "0 \<le> a" "a \<le> 1" and "0 \<le> b" "b \<le> 1" and "0 \<le> c" "c \<le> 1"
  shows "f_add (f_add (f_mul (w_Latency w) (Fin a)) (f_mul (w_Errors w) (Fin b))) (f_mul (w_Load w) (Fin c))
      = Fin (weigh w a b c)" and "0 \<le> weigh w a b c" and "weigh w a b c \<le> 3" and "repr (weigh w a b c)"
proof -
  let ?p = "rnd (val (w_Latency w) * a)" and ?q = "rnd (val (w_Errors w) * b)" and ?r = "rnd (val (w_Load w) * c)"
  have p: "f_mul (w_Latency w) (Fin a) = Fin ?p" "0 \<le> ?p" "?p \<le> 1"
    and q: "f_mul (w_Errors w) (Fin b) = Fin ?q" "0 \<le> ?q" "?q \<le> 1"
    and r: "f_mul (w_Load w) (Fin c) = Fin ?r" "0 \<le> ?r" "?r \<le> 1"
    using product_unit assms by blast+
  have s: "round64 (?p + ?q) = Fin (rnd (?p + ?q))" "0 \<le> rnd (?p + ?q)" "rnd (?p + ?q) \<le> 2"
    using round_sum [of "?p + ?q" 2] p q by auto
  have t: "round64 (rnd (?p + ?q) + ?r) = Fin (weigh w a b c)" "0 \<le> weigh w a b c" "weigh w a b c \<le> 3" "repr (weigh w a b c)"
    using round_sum [of "rnd (?p + ?q) + ?r" 3] s r by (auto simp: weigh_def)
  show "f_add (f_add (f_mul (w_Latency w) (Fin a)) (f_mul (w_Errors w) (Fin b))) (f_mul (w_Load w) (Fin c))
      = Fin (weigh w a b c)" using p q r s t by simp
  show "0 \<le> weigh w a b c" "weigh w a b c \<le> 3" "repr (weigh w a b c)" by (fact t)+
qed

lemma weigh_mono:
  assumes "unit_f (w_Latency w)" and "unit_f (w_Errors w)" and "unit_f (w_Load w)"
    and "a' \<le> a" and "b' \<le> b" and "c' \<le> c"
  shows "weigh w a' b' c' \<le> weigh w a b c"
proof -
  have "0 \<le> val (w_Latency w)" "0 \<le> val (w_Errors w)" "0 \<le> val (w_Load w)"
    using assms(1-3) by (simp_all add: unit_f_val)
  then show ?thesis unfolding weigh_def
    by (intro rnd_mono add_mono mult_left_mono assms)
qed

definition lat_feature :: "smart_config \<Rightarrow> InstanceState \<Rightarrow> real" where
  "lat_feature cfg st = max 0 (rnd (1 - rnd (val (is_ewmaLatency st) / val (sc_MaxTolerableLatency cfg))))"

definition err_feature :: "InstanceState \<Rightarrow> real" where
  "err_feature st = max 0 (rnd (1 - val (is_ewmaErrorRate st)))"

definition load_feature :: "smart_config \<Rightarrow> InstanceState \<Rightarrow> real" where
  "load_feature cfg st = max 0 (rnd (1 - rnd (of_int (is_inflight st) / val (sc_MaxConcurrentRequest cfg))))"

lemma ratio_feature:
  assumes "0 \<le> l" and "l \<le> 2 ^ 100" and "sane_limit cap"
  shows "clamped (f_div (Fin l) cap) = Fin (max 0 (rnd (1 - rnd (l / val cap))))"
    and "max 0 (rnd (1 - rnd (l / val cap))) \<le> 1"
proof -
  obtain m where m: "cap = Fin m" "f_div (Fin l) cap = Fin (rnd (l / m))"
    "0 \<le> rnd (l / m)" "rnd (l / m) \<le> 2 ^ 200"
    using ratio_round [OF assms] by blast
  with clamped_unit [OF m(3,4)] show "clamped (f_div (Fin l) cap) = Fin (max 0 (rnd (1 - rnd (l / val cap))))"
    "max 0 (rnd (1 - rnd (l / val cap))) \<le> 1"
    by (auto simp: unit_f_def)
qed

lemma inst_score_eq:
  assumes "sane_cfg cfg" and "sane_state st"
  shows "inst_score cfg st = Fin (max (rnd (1/100))
      (weigh (sc_Weights cfg) (lat_feature cfg st) (err_feature st) (load_feature cfg st)))"
    and "weigh (sc_Weights cfg) (lat_feature cfg st) (err_feature st) (load_feature cfg st) \<le> 3"
    and "repr (weigh (sc_Weights cfg) (lat_feature cfg st) (err_feature st) (load_feature cfg st))"
proof -
  note c = assms(1) [unfolded sane_cfg_def] and s = assms(2) [unfolded sane_state_def]
  obtain l where l: "is_ewmaLatency st = Fin l" "0 \<le> l" "l \<le> 2 ^ 100" using s by blast
  have lat: "clamped (f_div (is_ewmaLatency st) (sc_MaxTolerableLatency cfg)) = Fin (lat_feature cfg st)"
    "lat_feature cfg st \<le> 1"
    using ratio_feature [OF l(2,3), of "sc_MaxTolerableLatency cfg"] c l(1) by (auto simp: lat_feature_def)
  have n: "0 \<le> real_of_int (is_inflight st)" "real_of_int (is_inflight st) \<le> 2 ^ 53"
    using s of_int_le_iff [of "is_inflight st" "2 ^ 53", where ?'a = real] by (simp_all only: of_int_0_le_iff of_int_power of_int_numeral)
  then have n': "real_of_int (is_inflight st) \<le> 2 ^ 100" by simp
  have load: "clamped (f_div (f_of_int (is_inflight st)) (sc_MaxConcurrentRequest cfg)) = Fin (load_feature cfg st)"
    "load_feature cfg st \<le> 1"
    using ratio_feature [OF n(1) n', of "sc_MaxConcurrentRequest cfg"] c s
    by (auto simp: load_feature_def f_of_int_small)
  have err: "clamped (is_ewmaErrorRate st) = Fin (err_feature st)" "err_feature st \<le> 1"
    using clamped_unit [of "val (is_ewmaErrorRate st)"] s by (auto simp: err_feature_def unit_f_val)
  have pos: "0 \<le> lat_feature cfg st" "0 \<le> err_feature st" "0 \<le> load_feature cfg st"
    by (simp_all add: lat_feature_def err_feature_def load_feature_def)
  have w: "unit_f (w_Latency (sc_Weights cfg))" "unit_f (w_Errors (sc_Weights cfg))" "unit_f (w_Load (sc_Weights cfg))"
    using c by blast+
  note sum = weighted_sum [OF w pos(1) lat(2) pos(2) err(2) pos(3) load(2)]
  have "round64 (1/100) = Fin (rnd (1/100))" by (rule round64_small) simp
  then show "inst_score cfg st = Fin (max (rnd (1/100))
      (weigh (sc_Weights cfg) (lat_feature cfg st) (err_feature st) (load_feature cfg st)))"
    unfolding inst_score_def Let_def lat load err sum(1) by (simp add: max_def)
  show "weigh (sc_Weights cfg) (lat_feature cfg st) (err_feature st) (load_feature cfg st) \<le> 3"
    "repr (weigh (sc_Weights cfg) (lat_feature cfg st) (err_feature st) (load_feature cfg st))"
    by (fact sum(3,4))+
qed

text \<open>
  C33: The score never rewards worse telemetry: if one instance has at most the latency,
  the error rate and the load of another, its score is at least as high, through every
  rounding and clamp of the computation.
\<close>

theorem score_antitone:
  assumes "sane_cfg cfg" and "sane_state st" and "sane_state st'"
    and "f_le (is_ewmaLatency st) (is_ewmaLatency st')"
    and "f_le (is_ewmaErrorRate st) (is_ewmaErrorRate st')"
    and "is_inflight st \<le> is_inflight st'"
  shows "f_le (inst_score cfg st') (inst_score cfg st)"
proof -
  obtain m n where lim: "sc_MaxTolerableLatency cfg = Fin m" "1 \<le> m" "sc_MaxConcurrentRequest cfg = Fin n" "1 \<le> n"
    using assms(1) by (auto simp: sane_cfg_def sane_limit_def)
  have "lat_feature cfg st' \<le> lat_feature cfg st"
    unfolding lat_feature_def using lim assms(2-4)
    by (intro max.mono order_refl rnd_mono diff_left_mono divide_right_mono) (auto simp: sane_state_def)
  moreover have "err_feature st' \<le> err_feature st"
    unfolding err_feature_def using assms(2,3,5)
    by (intro max.mono order_refl rnd_mono diff_left_mono) (auto simp: sane_state_def unit_f_def)
  moreover have "load_feature cfg st' \<le> load_feature cfg st"
    unfolding load_feature_def using lim assms(6)
    by (intro max.mono order_refl rnd_mono diff_left_mono divide_right_mono) auto
  ultimately have "weigh (sc_Weights cfg) (lat_feature cfg st') (err_feature st') (load_feature cfg st')
      \<le> weigh (sc_Weights cfg) (lat_feature cfg st) (err_feature st) (load_feature cfg st)"
    using assms(1) by (intro weigh_mono) (simp_all add: sane_cfg_def)
  then show ?thesis by (simp add: inst_score_eq [OF assms(1)] assms(2,3) max.coboundedI2)
qed

lemma unit_f_round64: "0 \<le> x \<Longrightarrow> x \<le> 1 \<Longrightarrow> unit_f (round64 x)"
  using unit_f_round [of x] by (simp add: unit_f_def)

lemma sane_DefaultConfig: "sane_cfg DefaultConfig"
  by (simp add: sane_cfg_def DefaultConfig_def sane_limit_def unit_f_round64)

lemma sane_NewInstanceState: "sane_state NewInstanceState"
  by (simp add: sane_state_def NewInstanceState_def unit_f_def)

theorem score_antitone_witness:
  "f_le (inst_score DefaultConfig \<lparr>is_inflight = 3, is_ewmaLatency = Fin 70, is_ewmaErrorRate = Fin (1/2)\<rparr>)
        (inst_score DefaultConfig NewInstanceState)"
proof (rule score_antitone [OF sane_DefaultConfig sane_NewInstanceState])
  have "repr (1 / 2)" by (rule reprI [of 1 "- 1"]) (simp_all add: power_int_minus)
  then have "unit_f (Fin (1 / 2))" by (simp only: unit_f_val val.simps) simp
  then show "sane_state \<lparr>is_inflight = 3, is_ewmaLatency = Fin 70, is_ewmaErrorRate = Fin (1/2)\<rparr>"
    by (simp add: sane_state_def)
qed (simp_all add: NewInstanceState_def)

subsection \<open>The roulette wheel\<close>

definition sane_sb :: "smart_balancer \<Rightarrow> bool" where
  "sane_sb sb \<longleftrightarrow> sane_cfg (sb_cfg sb) \<and> (\<forall>iid st. sb_states sb iid = Some st \<longrightarrow> sane_state st)"

lemma sane_getState: "sane_sb sb \<Longrightarrow> getState iid sb = (st, sb1) \<Longrightarrow> sane_state st \<and> sane_sb sb1"
  by (auto simp: getState_def sane_sb_def sane_NewInstanceState split: option.splits if_splits)

lemma sane_emit [simp]: "sane_sb (emit m sb) = sane_sb sb"
  by (simp add: sane_sb_def emit_def)

definition wheel_f :: "int \<Rightarrow> f64 \<Rightarrow> bool" where
  "wheel_f k f \<longleftrightarrow> (\<exists>r. f = Fin r \<and> repr r \<and> 0 \<le> r \<and> r \<le> of_int k)"

lemma score_wheel:
  assumes "sane_cfg cfg" and "sane_state st"
  shows "wheel_f 3 (inst_score cfg st)"
proof -
  let ?w = "weigh (sc_Weights cfg) (lat_feature cfg st) (err_feature st) (load_feature cfg st)"
  have u: "0 \<le> rnd (1/100)" "rnd (1/100) \<le> 1" using unit_f_round [of "1/100"] by simp_all
  moreover have "repr ?w" by (rule inst_score_eq [OF assms])
  moreover have "repr (rnd (1/100))" using unit_f_round [of "1/100"] by simp
  ultimately show ?thesis
    using inst_score_eq [OF assms] by (auto simp: wheel_f_def max_def)
qed

lemma wheel_add:
  assumes "wheel_f a x" and "wheel_f b y" and "\<bar>a + b\<bar> \<le> 2 ^ 53"
  shows "wheel_f (a + b) (f_add x y)"
proof -
  obtain r s where f: "x = Fin r" "y = Fin s" "0 \<le> r" "0 \<le> s" "r + s \<le> of_int (a + b)"
    using assms(1,2) by (auto simp: wheel_f_def)
  have "r + s \<le> 2 ^ 53" using f(5) assms(3) of_int_le_iff [of "a + b" "2 ^ 53", where ?'a = real]
    by (simp only: of_int_power of_int_numeral) linarith
  then have "repr (rnd (r + s))"
    using f by (intro repr_rnd) (rule order_trans [of _ "2 ^ 53"], simp_all)
  then show ?thesis using round_sum [of "r + s" "a + b"] f assms(3) by (auto simp: wheel_f_def)
qed

lemma score_all_total:
  "score_all idof el tot sb = (scores, tot', sb') \<Longrightarrow> tot' = foldl f_add tot scores"
  by (induction idof el tot sb arbitrary: scores tot' sb' rule: score_all.induct)
    (auto simp: Let_def split: prod.splits)

lemma score_all_wheel:
  "score_all idof el tot sb = (scores, tot', sb') \<Longrightarrow> sane_sb sb \<Longrightarrow> \<forall>s \<in> set scores. wheel_f 3 s"
proof (induction idof el tot sb arbitrary: scores tot' sb' rule: score_all.induct)
  case (2 idof i "is" tot sb)
  obtain st sb1 where g: "getState (idof i) sb = (st, sb1)" by fastforce
  have s: "sane_state st" "sane_sb sb1" using sane_getState [OF 2(3) g] by simp_all
  let ?sc = "inst_score (sb_cfg sb1) st"
  let ?sb2 = "emit (Update SmartLBInstanceScore [sb_service sb1, idof i] (OpSet ?sc)) sb1"
  obtain ss t sb3 where r: "score_all idof is (f_add tot ?sc) ?sb2 = (ss, t, sb3)" by (metis prod_cases3)
  have "\<forall>s \<in> set ss. wheel_f 3 s" using 2(1) g r s(2) by fastforce
  moreover have "wheel_f 3 ?sc" using s score_wheel by (simp add: sane_sb_def)
  ultimately show ?case using 2(2) g r by auto
qed simp

lemma wheel_total:
  "\<forall>s \<in> set scores. wheel_f 3 s \<Longrightarrow> wheel_f k tot \<Longrightarrow> 0 \<le> k \<Longrightarrow> k + 3 * int (length scores) \<le> 2 ^ 53 \<Longrightarrow>
    wheel_f (k + 3 * int (length scores)) (foldl f_add tot scores)"
proof (induction scores arbitrary: k tot)
  case (Cons s ss)
  have "wheel_f (k + 3) (f_add tot s)" using Cons.prems by (intro wheel_add) auto
  then show ?case using Cons.IH [of "k + 3" "f_add tot s"] Cons.prems by (simp add: algebra_simps)
qed simp

text \<open>The roulette loop finds the first prefix sum that reaches the target.\<close>

lemma roulette_first:
  "length ss = length el \<Longrightarrow> el \<noteq> [] \<Longrightarrow> f_ge (foldl f_add acc ss) target \<Longrightarrow>
    \<exists>k < length el. roulette target acc el ss = Some (el ! k)
      \<and> f_ge (foldl f_add acc (take (Suc k) ss)) target
      \<and> (\<forall>j < k. \<not> f_ge (foldl f_add acc (take (Suc j) ss)) target)"
proof (induction target acc el ss rule: roulette.induct)
  case (1 target accum i "is" s ss)
  show ?case
  proof (cases "f_ge (f_add accum s) target")
    case True
    then show ?thesis by (intro exI [of _ 0]) simp
  next
    case False
    then have "is \<noteq> []" using 1(2,4) by auto
    then obtain k where k: "k < length is" "roulette target (f_add accum s) is ss = Some (is ! k)"
      "f_ge (foldl f_add (f_add accum s) (take (Suc k) ss)) target"
      "\<forall>j < k. \<not> f_ge (foldl f_add (f_add accum s) (take (Suc j) ss)) target"
      using 1 False by auto
    then have "\<forall>j < Suc k. \<not> f_ge (foldl f_add accum (take (Suc j) (s # ss))) target"
      using False by (auto simp: less_Suc_eq_0_disj)
    then show ?thesis using k False by (intro exI [of _ "Suc k"]) (simp add: Let_def)
  qed
qed auto

text \<open>
  The \<open>decimal precision\<close> fallback after the roulette loop of \<open>Next\<close> is never needed:
  with a sane configuration and telemetry, any draw \<open>u\<close> in \<open>[0, 1)\<close> and fewer than
  \<open>2^50\<close> instances, the loop selects the first instance whose prefix sum of scores reaches
  \<open>u\<close> times the total, all in binary64 arithmetic.
\<close>

theorem roulette_always_hits:
  assumes "sane_sb sb" and "el \<noteq> []" and "length el \<le> 2 ^ 50" and "0 \<le> u" and "u < 1"
    and "score_all idof el (Fin 0) sb = (scores, tot, sb1)"
  shows "\<exists>k < length el. roulette (f_mul (Fin u) tot) (Fin 0) el scores = Some (el ! k)
      \<and> f_ge (foldl f_add (Fin 0) (take (Suc k) scores)) (f_mul (Fin u) tot)
      \<and> (\<forall>j < k. \<not> f_ge (foldl f_add (Fin 0) (take (Suc j) scores)) (f_mul (Fin u) tot))"
proof (rule roulette_first)
  show len: "length scores = length el" using assms(6) by (rule length_scores)
  have t: "tot = foldl f_add (Fin 0) scores" using assms(6) by (rule score_all_total)
  have "3 * int (length scores) \<le> 2 ^ 53" using len assms(3) by simp
  moreover have "wheel_f 0 (Fin 0)" by (simp add: wheel_f_def)
  ultimately have "wheel_f (0 + 3 * int (length scores)) tot"
    unfolding t using score_all_wheel [OF assms(6,1)] by (intro wheel_total) simp_all
  then obtain r where r: "tot = Fin r" "repr r" "0 \<le> r" "r \<le> of_int (3 * int (length scores))"
    by (auto simp: wheel_f_def)
  have "real_of_int (3 * int (length scores)) \<le> real_of_int (2 ^ 53)"
    using \<open>3 * int (length scores) \<le> 2 ^ 53\<close> by (simp only: of_int_le_iff)
  then have r53: "r \<le> 2 ^ 53" using r(4) by simp
  have ur: "0 \<le> u * r" "u * r \<le> r" using r(3) assms(4,5) by (simp_all add: mult_left_le_one_le)
  then have "\<bar>u * r\<bar> \<le> 2 powi 1000" using r53 by simp
  then have "f_mul (Fin u) tot = Fin (rnd (u * r))" using r(1) by (simp add: round64_small)
  moreover have "rnd (u * r) \<le> r" using ur r r53 by (intro rnd_le) simp_all
  ultimately show "f_ge (foldl f_add (Fin 0) scores) (f_mul (Fin u) tot)" using r(1) t by simp
qed (rule assms)

subsection \<open>Concurrent updates of the telemetry\<close>

text \<open>
  \<open>Record\<close> holds no lock: it is five atomic operations, and the calls for one instance may
  interleave. A call is its arguments and where it is, with the average it has loaded.
  \<open>te_started\<close> counts the calls of \<open>RecordStart\<close>.
\<close>

datatype record_pc = AtAdd | AtLoadLatency | AtStoreLatency f64 | AtLoadErrorRate | AtStoreErrorRate f64 | AtEnd

record record_call =
  rec_latency :: duration
  rec_isErr :: bool
  rec_latAlpha :: f64
  rec_errAlpha :: f64
  rec_pc :: record_pc

fun record_atom :: "record_pc \<Rightarrow> record_call \<Rightarrow> InstanceState \<Rightarrow> record_pc \<times> InstanceState" where
  "record_atom AtAdd c s = (AtLoadLatency, s\<lparr>is_inflight := is_inflight s - 1\<rparr>)"
| "record_atom AtLoadLatency c s = (AtStoreLatency (is_ewmaLatency s), s)"
| "record_atom (AtStoreLatency oldLat) c s =
     (AtLoadErrorRate, s\<lparr>is_ewmaLatency := ewma (rec_latAlpha c) (f_of_int (go_div (rec_latency c) millisecond)) oldLat\<rparr>)"
| "record_atom AtLoadErrorRate c s = (AtStoreErrorRate (is_ewmaErrorRate s), s)"
| "record_atom (AtStoreErrorRate oldErr) c s =
     (AtEnd, s\<lparr>is_ewmaErrorRate := ewma (rec_errAlpha c) (if rec_isErr c then Fin 1 else Fin 0) oldErr\<rparr>)"
| "record_atom AtEnd c s = (AtEnd, s)"

record telemetry =
  te_state :: InstanceState
  te_calls :: "record_call list"
  te_started :: nat

definition new_telemetry :: telemetry where
  "new_telemetry = \<lparr>te_state = NewInstanceState, te_calls = [], te_started = 0\<rparr>"

definition te_advance :: "nat \<Rightarrow> telemetry \<Rightarrow> telemetry" where
  "te_advance i t =
     (let c = te_calls t ! i; (pc, s) = record_atom (rec_pc c) c (te_state t)
      in t\<lparr>te_state := s, te_calls := (te_calls t)[i := c\<lparr>rec_pc := pc\<rparr>]\<rparr>)"

inductive te_step :: "f64 \<Rightarrow> telemetry \<Rightarrow> telemetry \<Rightarrow> bool" for errAlpha where
  te_starts: "te_step errAlpha t (t\<lparr>te_state := RecordStart (te_state t), te_started := Suc (te_started t)\<rparr>)"
| te_reports: "rec_pc c = AtAdd \<Longrightarrow> rec_errAlpha c = errAlpha \<Longrightarrow> te_step errAlpha t (t\<lparr>te_calls := te_calls t @ [c]\<rparr>)"
| te_atom: "i < length (te_calls t) \<Longrightarrow> te_step errAlpha t (te_advance i t)"

inductive_cases te_stepE: "te_step errAlpha t t'"

text \<open>Alone, a call does what \<open>Record\<close> does.\<close>

lemma Record_alone:
  assumes "rec_pc c = AtAdd"
  shows "(te_advance 0 ^^ 5) \<lparr>te_state = s, te_calls = [c], te_started = n\<rparr>
    = \<lparr>te_state = Record (rec_latency c) (rec_isErr c) (rec_latAlpha c) (rec_errAlpha c) s, te_calls = [c\<lparr>rec_pc := AtEnd\<rparr>], te_started = n\<rparr>"
  using assms by (simp add: eval_nat_numeral te_advance_def Record_def Let_def)

definition te_inv :: "f64 \<Rightarrow> telemetry \<Rightarrow> bool" where
  "te_inv errAlpha t \<longleftrightarrow> unit_f (is_ewmaErrorRate (te_state t))
     \<and> (\<forall>c \<in> set (te_calls t). rec_errAlpha c = errAlpha \<and> (\<forall>old. rec_pc c = AtStoreErrorRate old \<longrightarrow> unit_f old))
     \<and> is_inflight (te_state t) = int (te_started t) - int (length (filter (\<lambda>c. rec_pc c \<noteq> AtAdd) (te_calls t)))"

lemma te_inv_new: "te_inv errAlpha new_telemetry"
  by (simp add: te_inv_def new_telemetry_def NewInstanceState_def unit_f_def)

lemma filter_update_length:
  assumes "i < length xs"
  shows "int (length (filter P (xs[i := y]))) = int (length (filter P xs)) - (if P (xs ! i) then 1 else 0) + (if P y then 1 else 0)"
  using arg_cong [OF id_take_nth_drop [OF assms], of "\<lambda>l. length (filter P l)"] assms
  by (simp add: upd_conv_take_nth_drop)

lemma ball_update: "\<forall>x \<in> set xs. Q x \<Longrightarrow> Q y \<Longrightarrow> \<forall>x \<in> set (xs[i := y]). Q x"
  using set_update_subset_insert [of xs i y] by blast

lemma te_inv_atom:
  assumes "i < length (te_calls t)" and "unit_f errAlpha" and "te_inv errAlpha t"
  shows "te_inv errAlpha (te_advance i t)"
proof -
  let ?c = "te_calls t ! i"
  have c: "?c \<in> set (te_calls t)" using assms(1) by simp
  have u: "unit_f (if rec_isErr ?c then Fin 1 else Fin 0)" by (simp add: unit_f_def)
  note len = filter_update_length [OF assms(1), of "\<lambda>c. rec_pc c \<noteq> AtAdd"]
  obtain pc s where at: "record_atom (rec_pc ?c) ?c (te_state t) = (pc, s)" by fastforce
  have "rec_errAlpha ?c = errAlpha \<and> (\<forall>old. rec_pc ?c = AtStoreErrorRate old \<longrightarrow> unit_f old)"
    and e: "unit_f (is_ewmaErrorRate (te_state t))" using assms(3) c by (auto simp: te_inv_def)
  then have s: "unit_f (is_ewmaErrorRate s)" "\<forall>old. pc = AtStoreErrorRate old \<longrightarrow> unit_f old" "rec_errAlpha ?c = errAlpha"
    using at assms(2) u ewma_unit by (cases "rec_pc ?c"; auto)+
  have n: "is_inflight s = is_inflight (te_state t) - (if rec_pc ?c = AtAdd then 1 else 0)" "pc \<noteq> AtAdd"
    using at by (cases "rec_pc ?c"; auto)+
  have "\<forall>c \<in> set ((te_calls t)[i := ?c\<lparr>rec_pc := pc\<rparr>]).
      rec_errAlpha c = errAlpha \<and> (\<forall>old. rec_pc c = AtStoreErrorRate old \<longrightarrow> unit_f old)"
    by (rule ball_update) (use assms(3) s in \<open>auto simp: te_inv_def\<close>)
  then show ?thesis using assms(3) s n by (simp add: te_inv_def te_advance_def at len)
qed

lemma te_inv_step [gw_inv]:
  assumes "te_step errAlpha t t'" and "unit_f errAlpha" and "te_inv errAlpha t"
  shows "te_inv errAlpha t'"
  using assms
proof (elim te_stepE)
  fix i assume "i < length (te_calls t)" "t' = te_advance i t"
  then show ?thesis using te_inv_atom assms(2,3) by blast
qed (auto simp: te_inv_def RecordStart_def)

lemma te_inv_reach: "(te_step errAlpha)\<^sup>*\<^sup>* t t' \<Longrightarrow> unit_f errAlpha \<Longrightarrow> te_inv errAlpha t \<Longrightarrow> te_inv errAlpha t'"
  by (induction rule: rtranclp_induct) (blast intro: te_inv_step)+

text \<open>
  C34: The telemetry survives any interleaving of the calls that report to it: the error rate
  an instance is scored by is always a number in \<open>[0, 1]\<close>, rounding included, with any
  \<open>ErrorAlpha\<close> in \<open>[0, 1]\<close>, and \<open>inflight\<close> is exactly the number of requests started and not
  yet reported. (The averages themselves may lose updates.)
\<close>

theorem telemetry_interleaved:
  assumes "(te_step errAlpha)\<^sup>*\<^sup>* new_telemetry t" and "unit_f errAlpha"
  shows "unit_f (is_ewmaErrorRate (te_state t))
    \<and> is_inflight (te_state t) = int (te_started t) - int (length (filter (\<lambda>c. rec_pc c \<noteq> AtAdd) (te_calls t)))"
  using te_inv_reach [OF assms te_inv_new] by (simp add: te_inv_def)

definition failed_call :: record_call where
  "failed_call = \<lparr>rec_latency = 5000000, rec_isErr = True, rec_latAlpha = Fin 1, rec_errAlpha = Fin 1, rec_pc = AtAdd\<rparr>"

theorem telemetry_interleaved_witness:
  "\<exists>t. (te_step (Fin 1))\<^sup>*\<^sup>* new_telemetry t \<and> length (te_calls t) = 1 \<and> is_inflight (te_state t) = 0"
proof -
  define t1 where "t1 = new_telemetry\<lparr>te_state := RecordStart (te_state new_telemetry), te_started := Suc (te_started new_telemetry)\<rparr>"
  define t2 where "t2 = t1\<lparr>te_calls := te_calls t1 @ [failed_call]\<rparr>"
  have "te_step (Fin 1) new_telemetry t1" "te_step (Fin 1) t1 t2"
    unfolding t1_def t2_def by (rule te_starts te_reports; simp add: failed_call_def)+
  moreover have "te_step (Fin 1) t2 (te_advance 0 t2)"
    by (rule te_atom) (simp add: t2_def)
  ultimately have r: "(te_step (Fin 1))\<^sup>*\<^sup>* new_telemetry (te_advance 0 t2)"
    by (meson r_into_rtranclp rtranclp_trans)
  have "te_calls (te_advance 0 t2) = [failed_call\<lparr>rec_pc := AtLoadLatency\<rparr>]" "te_started (te_advance 0 t2) = 1"
    by (simp_all add: t1_def t2_def te_advance_def new_telemetry_def failed_call_def)
  then show ?thesis using r telemetry_interleaved [OF r] by (intro exI [of _ "te_advance 0 t2"]) (simp add: unit_f_def)
qed

text \<open>
  Two calls that overlap lose one of the updates: with this schedule the averages are those of
  the second call alone, while both have left \<open>inflight\<close>.
\<close>

lemma record_loses_update:
  assumes "rec_pc c = AtAdd" and "rec_pc d = AtAdd"
  shows "fold te_advance [0, 0, 1, 1, 0, 1, 0, 1, 0, 1] \<lparr>te_state = s, te_calls = [c, d], te_started = n\<rparr>
    = \<lparr>te_state = (Record (rec_latency d) (rec_isErr d) (rec_latAlpha d) (rec_errAlpha d) s)\<lparr>is_inflight := is_inflight s - 2\<rparr>,
       te_calls = [c\<lparr>rec_pc := AtEnd\<rparr>, d\<lparr>rec_pc := AtEnd\<rparr>], te_started = n\<rparr>"
  using assms by (simp add: te_advance_def Record_def Let_def)

subsection \<open>Metrics\<close>

lemma emit_emits: "well_typed u \<Longrightarrow> emits_typed (sb_metrics sb) (sb_metrics (emit u sb))"
  by (simp add: emit_def)

lemma getState_metrics: "getState iid sb = (st, sb1) \<Longrightarrow> sb_metrics sb1 = sb_metrics sb"
  by (auto simp: getState_def split: option.splits)

lemma score_all_emits: "score_all idof is tot sb = (scores, tot', sb') \<Longrightarrow> emits_typed (sb_metrics sb) (sb_metrics sb')"
proof (induction idof "is" tot sb arbitrary: scores tot' sb' rule: score_all.induct)
  case (2 idof i "is" tot sb)
  obtain st sb1 where g: "getState (idof i) sb = (st, sb1)" by fastforce
  let ?score = "inst_score (sb_cfg sb1) st"
  let ?sb2 = "emit (Update SmartLBInstanceScore [sb_service sb1, idof i] (OpSet ?score)) sb1"
  obtain ss where r: "score_all idof is (f_add tot ?score) ?sb2 = (ss, tot', sb')"
    using "2.prems" g by (auto simp: Let_def split: prod.splits)
  have "emits_typed (sb_metrics sb) (sb_metrics ?sb2)" using emit_emits [of _ sb1] getState_metrics [OF g] by simp
  also have "emits_typed (sb_metrics ?sb2) (sb_metrics sb')" using "2.IH" [OF g [symmetric] refl refl refl r] .
  finally show ?case .
qed simp

lemma smart_Next_emits: "emits_typed (sb_metrics sb) (sb_metrics (fst (snd (smart_Next idof healthy sk is d sb s))))"
proof -
  have start: "sb_metrics (start_request iid sb1) = sb_metrics sb1" for iid sb1
    by (auto simp: start_request_def getState_def split: option.split prod.split)
  obtain el s1 where e: "filterEligible healthy sk is s = (el, s1)" by fastforce
  obtain scores tot sb1 where sc: "score_all idof el (Fin 0) sb = (scores, tot, sb1)" by (metis prod_cases3)
  have chosen: "emits_typed (sb_metrics sb) (sb_metrics (emit (Update SmartLBRoutingDecision [sv, iid, k] OpInc) sb1))" for sv iid k
    using emits_typed_trans [OF score_all_emits [OF sc] emit_emits] by simp
  show ?thesis
    using chosen emit_emits [of _ sb] by (simp add: smart_Next_def e sc start Let_def)
qed

end
