(* ===== verification/Plugin_Chain.thy ===== *)
theory Plugin_Chain
  imports Go_Http Config
begin

section \<open>Plugins, the plugin registry and the chain (\<open>internal/plugin\<close>)\<close>

text \<open>
  A plugin is a record of its methods. They act on the exchange (the response writer and
  the request) and on whatever else the world holds for them, which is the extension of the
  exchange record. What \<open>ExecuteRequest\<close> gives back is nil, an \<open>AbortError\<close>, another
  error, or a panic, always with the world as the method left it.
\<close>

record exchange =
  ex_w :: response_writer
  ex_r :: request

datatype plugin_outcome = PNil | PAbort int string | PError | PPanic

record 'w plugin =
  pl_Name :: string
  pl_Request :: "'w \<Rightarrow> plugin_outcome \<times> 'w"
  pl_Response :: "'w \<Rightarrow> plugin_outcome \<times> 'w"
  pl_Close :: "('w \<Rightarrow> bool \<times> 'w) option"

definition IsAbort :: "plugin_outcome \<Rightarrow> bool" where
  "IsAbort out = (case out of PAbort _ _ \<Rightarrow> True | _ \<Rightarrow> False)"

text \<open>\<open>AbortError.Error\<close>.\<close>

definition abort_text :: "int \<Rightarrow> string \<Rightarrow> string" where
  "abort_text code msg = ''plugin abort: HTTP '' @ itoa code @ '': '' @ msg"

subsection \<open>The chain\<close>

text \<open>
  \<open>%q\<close>: \<open>strconv.Quote\<close> on ASCII; bytes of multi-byte characters are taken to be printable
  and stay as they are.
\<close>

definition hex_digit :: "nat \<Rightarrow> char" where
  "hex_digit n = (if n < 10 then char_of (48 + n) else char_of (87 + n))"

definition quote_char :: "char \<Rightarrow> string" where
  "quote_char c =
     (if c = CHR 0x22 then [CHR 0x5C, CHR 0x22]
      else if c = CHR 0x5C then [CHR 0x5C, CHR 0x5C]
      else if c = CHR 0x07 then [CHR 0x5C, CHR ''a''] else if c = CHR 0x08 then [CHR 0x5C, CHR ''b'']
      else if c = CHR 0x0C then [CHR 0x5C, CHR ''f''] else if c = CHR 0x0A then [CHR 0x5C, CHR ''n'']
      else if c = CHR 0x0D then [CHR 0x5C, CHR ''r''] else if c = CHR 0x09 then [CHR 0x5C, CHR ''t'']
      else if c = CHR 0x0B then [CHR 0x5C, CHR ''v'']
      else if (of_char c :: nat) < 32 \<or> c = CHR 0x7F
      then [CHR 0x5C, CHR ''x'', hex_digit (of_char c div 16), hex_digit (of_char c mod 16)]
      else [c])"

definition go_quote :: "string \<Rightarrow> string" where
  "go_quote s = [CHR 0x22] @ concat (map quote_char s) @ [CHR 0x22]"

definition json_error :: "int \<Rightarrow> string \<Rightarrow> string" where
  "json_error code msg = ''{'' @ go_quote ''error'' @ '':'' @ go_quote msg @ '','' @ go_quote ''status'' @ '':'' @ itoa code @ ''}''"

text \<open>The writer is changed even when \<open>WriteHeader\<close> panics: the content type is set first.\<close>

definition writeJSONError :: "int \<Rightarrow> string \<Rightarrow> response_writer \<Rightarrow> unit go \<times> response_writer" where
  "writeJSONError code msg w =
     (let w1 = rw_map (h_Set ''Content-Type'' ''application/json'') w
      in case WriteHeader code w1 of
           Panic \<Rightarrow> (Panic, w1)
         | Ret w2 \<Rightarrow> (Ret (), rw_Write (json_error code msg) w2))"

definition chain_error :: "int \<Rightarrow> string \<Rightarrow> 'z exchange_scheme \<Rightarrow> bool go \<times> 'z exchange_scheme" where
  "chain_error code msg x =
     (let (m, w) = writeJSONError code msg (ex_w x) in (go_bind m (\<lambda>_. Ret True), x\<lparr>ex_w := w\<rparr>))"

text \<open>\<open>ExecuteRequest\<close>; the recover covers the plugin, not \<open>writeJSONError\<close>.\<close>

fun chain_Request :: "'z exchange_scheme plugin list \<Rightarrow> 'z exchange_scheme \<Rightarrow> bool go \<times> 'z exchange_scheme" where
  "chain_Request [] x = (Ret False, x)"
| "chain_Request (p # ps) x =
     (let (out, x1) = pl_Request p x;
          err = (case out of PPanic \<Rightarrow> PAbort 500 ''internal server error'' | _ \<Rightarrow> out)
      in case err of
           PNil \<Rightarrow> chain_Request ps x1
         | PAbort code msg \<Rightarrow> chain_error code msg x1
         | _ \<Rightarrow> chain_error 500 ''internal server error'' x1)"

text \<open>\<open>ExecuteResponse\<close>: whatever a plugin answers, the next one runs.\<close>

fun chain_Response :: "'z exchange_scheme plugin list \<Rightarrow> 'z exchange_scheme \<Rightarrow> 'z exchange_scheme" where
  "chain_Response [] x = x"
| "chain_Response (p # ps) x = (let (out, x1) = pl_Response p x in chain_Response ps x1)"

fun chain_Close :: "'w plugin list \<Rightarrow> 'w \<Rightarrow> 'w" where
  "chain_Close [] x = x"
| "chain_Close (p # ps) x =
     (case pl_Close p of
        None \<Rightarrow> chain_Close ps x
      | Some close \<Rightarrow> (let (failed, x1) = close x in chain_Close ps x1))"

subsection \<open>The registry of factories\<close>

type_synonym 'w factory = "(string \<rightharpoonup> yval) \<Rightarrow> 'w plugin option"

definition plugin_NewRegistry :: "string \<rightharpoonup> 'w factory" where
  "plugin_NewRegistry = Map.empty"

definition plugin_Register :: "string \<Rightarrow> 'w factory \<Rightarrow> (string \<rightharpoonup> 'w factory) \<Rightarrow> (string \<rightharpoonup> 'w factory) go" where
  "plugin_Register typeName f reg = (if reg typeName \<noteq> None then Panic else Ret (reg(typeName \<mapsto> f)))"

datatype build_error = NoTypeMapping string | NotRegistered string | FactoryError string string

fun build_each :: "(string \<rightharpoonup> 'w factory) \<Rightarrow> (string \<rightharpoonup> string) \<Rightarrow> PluginRef list \<Rightarrow> build_error + 'w plugin list" where
  "build_each reg nameToType [] = Inr []"
| "build_each reg nameToType (r # rs) =
     (case nameToType (pr_Name r) of
        None \<Rightarrow> Inl (NoTypeMapping (pr_Name r))
      | Some typeName \<Rightarrow>
          (case reg typeName of
             None \<Rightarrow> Inl (NotRegistered typeName)
           | Some f \<Rightarrow>
               (case f (pr_Config r) of
                  None \<Rightarrow> Inl (FactoryError (pr_Name r) typeName)
                | Some p \<Rightarrow>
                    (case build_each reg nameToType rs of
                       Inl e \<Rightarrow> Inl e
                     | Inr ps \<Rightarrow> Inr (p # ps)))))"

definition name_to_type :: "PluginDef list \<Rightarrow> string \<rightharpoonup> string" where
  "name_to_type defs = fold (\<lambda>d m. m(pd_Name d \<mapsto> pd_Type d)) defs Map.empty"

definition plugin_Build ::
  "((PluginRef \<Rightarrow> PluginRef \<Rightarrow> bool) \<Rightarrow> PluginRef list \<Rightarrow> PluginRef list) \<Rightarrow> (string \<rightharpoonup> 'w factory) \<Rightarrow> PluginDef list
    \<Rightarrow> PluginRef list \<Rightarrow> build_error + 'w plugin list" where
  "plugin_Build srt reg defs refs = build_each reg (name_to_type defs) (srt (\<lambda>a b. pr_Order a < pr_Order b) refs)"

subsection \<open>Fail fast\<close>

text \<open>What a chain has done when every plugin so far returned nil.\<close>

fun passed :: "'w plugin list \<Rightarrow> 'w \<Rightarrow> 'w option" where
  "passed [] x = Some x"
| "passed (p # ps) x = (case pl_Request p x of (PNil, x1) \<Rightarrow> passed ps x1 | _ \<Rightarrow> None)"

text \<open>The status and message a failing plugin stands for.\<close>

fun verdict :: "plugin_outcome \<Rightarrow> int \<times> string" where
  "verdict (PAbort code msg) = (code, msg)"
| "verdict _ = (500, ''internal server error'')"

lemma chain_passed_append: "passed qs x = Some x1 \<Longrightarrow> chain_Request (qs @ ps) x = chain_Request ps x1"
  by (induction qs arbitrary: x) (auto split: prod.splits plugin_outcome.splits)

lemma chain_all_passed: "passed ps x = Some x1 \<Longrightarrow> chain_Request ps x = (Ret False, x1)"
  using chain_passed_append [of ps x x1 "[]"] by simp

lemma chain_failing:
  "pl_Request p x = (out, x1) \<Longrightarrow> out \<noteq> PNil \<Longrightarrow>
    chain_Request (p # ps) x = chain_error (fst (verdict out)) (snd (verdict out)) x1"
  by (cases out) simp_all

lemma passed_or_fails:
  "passed ps x = None \<Longrightarrow> \<exists>qs p rs x0 out x1. ps = qs @ p # rs \<and> passed qs x = Some x0
    \<and> pl_Request p x0 = (out, x1) \<and> out \<noteq> PNil"
proof (induction ps arbitrary: x)
  case (Cons p ps)
  obtain out x1 where o: "pl_Request p x = (out, x1)" by fastforce
  show ?case
  proof (cases "out = PNil")
    case True
    then obtain qs q rs x0 out' x2 where "ps = qs @ q # rs" "passed qs x1 = Some x0"
      "pl_Request q x0 = (out', x2)" "out' \<noteq> PNil"
      using Cons.IH [of x1] Cons.prems o True by auto
    then show ?thesis using o True
      by (intro exI [of _ "p # qs"] exI [of _ q] exI [of _ rs] exI [of _ x0] exI [of _ out'] exI [of _ x2]) simp
  next
    case False
    then show ?thesis using o by (intro exI [of _ "[]"]) auto
  qed
qed simp

text \<open>The reply a failing plugin leaves when nothing was written before.\<close>

lemma writeJSONError_response:
  assumes "rw_sent w = None" and "200 \<le> code" and "code \<le> 999"
  shows "\<exists>w'. writeJSONError code msg w = (Ret (), w') \<and> rw_sent w' \<noteq> None
    \<and> response w' = (code, h_Set ''Content-Type'' ''application/json'' (rw_header w),
        if bodyAllowed code then rw_body w @ json_error code msg else rw_body w)"
  using assms
  by (auto simp: writeJSONError_def Let_def WriteHeader_def rw_Write_def rw_map_def response_def)

text \<open>
  C10: The request chain fails fast. It passes every plugin in order as long as they return
  nil; the first that returns an error or panics decides the reply, the JSON body with its
  status (500 for a panic or an unexpected error), and no plugin after it runs.
\<close>

theorem chain_fails_fast:
  assumes "passed qs x = Some x0" and "pl_Request p x0 = (out, x1)" and "out \<noteq> PNil"
    and "rw_sent (ex_w x1) = None" and "200 \<le> fst (verdict out)" and "fst (verdict out) \<le> 999"
  shows "\<exists>x2. chain_Request (qs @ p # ps) x = (Ret True, x2)
    \<and> response (ex_w x2) = (fst (verdict out), h_Set ''Content-Type'' ''application/json'' (rw_header (ex_w x1)),
        if bodyAllowed (fst (verdict out))
        then rw_body (ex_w x1) @ json_error (fst (verdict out)) (snd (verdict out)) else rw_body (ex_w x1))
    \<and> ex_r x2 = ex_r x1"
proof -
  obtain w' where w': "writeJSONError (fst (verdict out)) (snd (verdict out)) (ex_w x1) = (Ret (), w')"
    "response w' = (fst (verdict out), h_Set ''Content-Type'' ''application/json'' (rw_header (ex_w x1)),
        if bodyAllowed (fst (verdict out))
        then rw_body (ex_w x1) @ json_error (fst (verdict out)) (snd (verdict out)) else rw_body (ex_w x1))"
    using writeJSONError_response [OF assms(4-6)] by blast
  then show ?thesis using chain_passed_append [OF assms(1)] chain_failing [OF assms(2,3)]
    by (simp add: chain_error_def)
qed

definition sample_plugin :: "string \<Rightarrow> plugin_outcome \<Rightarrow> 'w plugin" where
  "sample_plugin name out = \<lparr>pl_Name = name, pl_Request = (\<lambda>x. (out, x)), pl_Response = (\<lambda>x. (PNil, x)), pl_Close = None\<rparr>"

definition sample_request :: request where
  "sample_request = \<lparr>rq_Method = ''GET'', rq_Path = ''/'', rq_RawQuery = [], rq_Header = Map.empty, rq_Host = ''gw'',
     rq_RemoteAddr = ''10.0.0.1:4000'', rq_TLS = False, rq_Ctx = None, rq_Deadline = None\<rparr>"

theorem chain_fails_fast_witness:
  "\<exists>x2. chain_Request ([sample_plugin ''a'' PNil] @ sample_plugin ''b'' PPanic # [sample_plugin ''c'' PNil])
       \<lparr>ex_w = new_rw, ex_r = sample_request\<rparr> = (Ret True, x2) \<and> fst (response (ex_w x2)) = 500"
  using chain_fails_fast [of "[sample_plugin ''a'' PNil]" "\<lparr>ex_w = new_rw, ex_r = sample_request\<rparr>"
      "\<lparr>ex_w = new_rw, ex_r = sample_request\<rparr>" "sample_plugin ''b'' PPanic" PPanic "\<lparr>ex_w = new_rw, ex_r = sample_request\<rparr>"
      "[sample_plugin ''c'' PNil]"]
  by (fastforce simp: sample_plugin_def new_rw_def)

text \<open>
  The chain's recover does not cover the reply: it panics exactly when the first failing
  plugin asks for a status code outside 100 to 999 and nothing has been sent yet.
\<close>

theorem chain_panics_iff:
  "fst (chain_Request ps x) = Panic \<longleftrightarrow>
    (\<exists>qs p rs x0 code msg x1. ps = qs @ p # rs \<and> passed qs x = Some x0 \<and> pl_Request p x0 = (PAbort code msg, x1)
       \<and> (code < 100 \<or> code > 999) \<and> rw_sent (ex_w x1) = None)" (is "_ \<longleftrightarrow> ?R")
proof -
  have err: "fst (chain_error code msg x1) = Panic \<longleftrightarrow> (code < 100 \<or> code > 999) \<and> rw_sent (ex_w x1) = None"
    for code msg and x1 :: "'z exchange_scheme"
    by (cases "rw_sent (ex_w x1)") (auto simp: chain_error_def writeJSONError_def WriteHeader_def Let_def)
  show ?thesis
  proof
    assume panic: "fst (chain_Request ps x) = Panic"
    then have "passed ps x = None" using chain_all_passed by (cases "passed ps x") fastforce+
    from passed_or_fails [OF this] obtain qs p rs x0 out x1 where d: "ps = qs @ p # rs" "passed qs x = Some x0"
      "pl_Request p x0 = (out, x1)" "out \<noteq> PNil" by (elim exE conjE) (rule that)
    then have "fst (chain_error (fst (verdict out)) (snd (verdict out)) x1) = Panic"
      using panic chain_passed_append [OF d(2)] chain_failing [OF d(3,4)] by simp
    then obtain code msg where "out = PAbort code msg" "code < 100 \<or> code > 999" "rw_sent (ex_w x1) = None"
      by (cases out) (auto simp: err)
    then show ?R using d by blast
  next
    assume ?R
    then obtain qs p rs x0 code msg x1 where d: "ps = qs @ p # rs" "passed qs x = Some x0"
      "pl_Request p x0 = (PAbort code msg, x1)" "code < 100 \<or> code > 999" "rw_sent (ex_w x1) = None" by blast
    then show "fst (chain_Request ps x) = Panic"
      using chain_passed_append [OF d(2)] chain_failing [OF d(3)] by (simp add: err)
  qed
qed

subsection \<open>The order of a chain\<close>

lemma build_each_ok:
  "build_each reg nt refs = Inr ps \<longleftrightarrow>
    list_all2 (\<lambda>r p. \<exists>ty f. nt (pr_Name r) = Some ty \<and> reg ty = Some f \<and> f (pr_Config r) = Some p) refs ps"
proof (induction refs arbitrary: ps)
  case (Cons r refs)
  note IH = Cons.IH
  show ?case
  proof (cases ps)
    case (Cons p ps')
    then show ?thesis using IH [of ps'] by (auto split: option.splits sum.splits)
  qed (auto split: option.splits sum.splits)
qed auto

text \<open>
  \<open>Build\<close> puts plugins in ascending order of their \<open>order\<close> field, each made by the factory
  of its declared type; with distinct orders, which \<open>Validate\<close> enforces, the order is unique.
\<close>

lemma build_in_order:
  assumes "slice_sort srt" and "plugin_Build srt reg defs refs = Inr ps" and "distinct (map pr_Order refs)"
  shows "list_all2 (\<lambda>r p. \<exists>ty f. name_to_type defs (pr_Name r) = Some ty \<and> reg ty = Some f \<and> f (pr_Config r) = Some p)
    (sort_key pr_Order refs) ps"
proof -
  let ?s = "srt (\<lambda>a b. pr_Order a < pr_Order b) refs"
  have "sorted (map pr_Order ?s)" by (rule slice_sort.srt_ascending [OF assms(1)])
  moreover have "set ?s = set refs" by (rule slice_sort.set_srt [OF assms(1)])
  moreover have "distinct (map pr_Order ?s)" using slice_sort.distinct_srt [OF assms(1)] assms(3) by blast
  moreover have "inj_on pr_Order (set refs)" using assms(3) by (simp add: distinct_map)
  moreover have "distinct (map pr_Order (sort_key pr_Order refs))" using assms(3) by (simp add: distinct_map)
  ultimately have "sort_key pr_Order refs = ?s"
    by (intro map_sorted_distinct_set_unique [where f = pr_Order]) simp_all
  then show ?thesis using assms(2) by (simp add: plugin_Build_def build_each_ok)
qed

subsection \<open>What a chain asks of its plugins\<close>

text \<open>
  The response phase runs whatever happened before, also after a reply was sent. A plugin is
  quiet if it leaves such a reply alone, and it passes the requests of a kind if it lets them
  through as they are. The laws are stated for one plugin; a chain has them if all of its
  plugins do.
\<close>

locale quiet_plugin =
  fixes p :: "'z exchange_scheme plugin"
  assumes keeps_sent: "rw_sent (ex_w x) \<noteq> None \<Longrightarrow>
    rw_sent (ex_w (snd (pl_Response p x))) = rw_sent (ex_w x) \<and> rw_body (ex_w (snd (pl_Response p x))) = rw_body (ex_w x)"
begin

lemma keeps_reply:
  "rw_sent (ex_w x) \<noteq> None \<Longrightarrow> response (ex_w (snd (pl_Response p x))) = response (ex_w x)
    \<and> rw_sent (ex_w (snd (pl_Response p x))) \<noteq> None"
  using keeps_sent by (auto simp: response_def split: option.split)

lemma chain_keeps_reply:
  assumes "\<And>y. rw_sent (ex_w y) \<noteq> None \<Longrightarrow> response (ex_w (chain_Response ps y)) = response (ex_w y)"
    and "rw_sent (ex_w x) \<noteq> None"
  shows "response (ex_w (chain_Response (p # ps) x)) = response (ex_w x)"
  using assms(1) keeps_reply [OF assms(2)] by (simp add: split_beta)

end

lemma quiet_chain:
  "list_all quiet_plugin ps \<Longrightarrow> rw_sent (ex_w x) \<noteq> None \<Longrightarrow> response (ex_w (chain_Response ps x)) = response (ex_w x)"
proof (induction ps arbitrary: x)
  case (Cons p ps)
  then have "quiet_plugin p" by simp
  from quiet_plugin.chain_keeps_reply [OF this Cons.IH Cons.prems(2)] Cons.prems(1) show ?case by simp
qed simp

locale passing_plugin =
  fixes p :: "'z exchange_scheme plugin" and ok :: "request \<Rightarrow> bool"
  assumes passes: "ok (ex_r x) \<Longrightarrow> fst (pl_Request p x) = PNil \<and> ex_r (snd (pl_Request p x)) = ex_r x
    \<and> ex_w (snd (pl_Request p x)) = ex_w x"
begin

lemma chain_goes_on:
  "ok (ex_r x) \<Longrightarrow> \<exists>y. ex_r y = ex_r x \<and> ex_w y = ex_w x \<and> chain_Request (p # ps) x = chain_Request ps y"
  using passes by (cases "pl_Request p x") fastforce

end

lemma passing_chain:
  "list_all (\<lambda>p. passing_plugin p ok) qs \<Longrightarrow> ok (ex_r x) \<Longrightarrow>
    \<exists>y. ex_r y = ex_r x \<and> ex_w y = ex_w x \<and> chain_Request (qs @ ps) x = chain_Request ps y"
proof (induction qs arbitrary: x)
  case (Cons p qs)
  then have "passing_plugin p ok" by simp
  from passing_plugin.chain_goes_on [OF this Cons.prems(2)] obtain y where
    y: "ex_r y = ex_r x" "ex_w y = ex_w x" "chain_Request ((p # qs) @ ps) x = chain_Request (qs @ ps) y" by auto
  with Cons.IH [of y] Cons.prems show ?case by auto
qed auto

end
