(* ===== verification/Builtin_Plugins.thy ===== *)
theory Builtin_Plugins
  imports Plugin_Chain Redis_Limiter
begin

section \<open>The built-in plugins (\<open>internal/plugin/builtin\<close>)\<close>

text \<open>
  CORS, JWT authentication, rate limiting and the access log. Each constructor reads the
  route's raw configuration map with Go's checked type assertions: an entry of another type
  is as good as absent. Parsing a token and encoding JSON are library calls and are
  parameters.
\<close>

definition get_str :: "(string \<rightharpoonup> yval) \<Rightarrow> string \<Rightarrow> string option" where
  "get_str cfg k = (case cfg k of Some (YStr s) \<Rightarrow> Some s | _ \<Rightarrow> None)"

definition get_int :: "(string \<rightharpoonup> yval) \<Rightarrow> string \<Rightarrow> int option" where
  "get_int cfg k = (case cfg k of Some (YInt n) \<Rightarrow> Some n | _ \<Rightarrow> None)"

definition get_bool :: "(string \<rightharpoonup> yval) \<Rightarrow> string \<Rightarrow> bool option" where
  "get_bool cfg k = (case cfg k of Some (YBool b) \<Rightarrow> Some b | _ \<Rightarrow> None)"

text \<open>The strings of a list entry; items of another type are dropped.\<close>

definition get_strs :: "(string \<rightharpoonup> yval) \<Rightarrow> string \<Rightarrow> string list option" where
  "get_strs cfg k = (case cfg k of
     Some (YList vs) \<Rightarrow> Some (List.map_filter (\<lambda>v. case v of YStr s \<Rightarrow> Some s | _ \<Rightarrow> None) vs)
   | _ \<Rightarrow> None)"

definition or_else :: "'a option \<Rightarrow> 'a \<Rightarrow> 'a" where
  "or_else m d = (case m of Some a \<Rightarrow> a | None \<Rightarrow> d)"

fun strings_Join :: "string \<Rightarrow> string list \<Rightarrow> string" where
  "strings_Join sep [] = []"
| "strings_Join sep [s] = s"
| "strings_Join sep (s # ss) = s @ sep @ strings_Join sep ss"

subsection \<open>What the plugins act on\<close>

text \<open>
  Besides the exchange, a plugin acts on state of its own: the logger on the lines it wrote,
  the rate limiter on its limiter. Each has the clock it reads, and the limiter the state of
  the request's context. The records extend one another, so that all plugins fit in one chain.
\<close>

record logged = exchange +
  lg_lines :: "(string \<times> (string \<times> string) list) list"
  lg_now :: gotime

record 'l limited = logged +
  lx_limiter :: 'l
  lx_now :: gotime
  lx_ctxErr :: "ctx_error option"

subsection \<open>CORS\<close>

record CORSPlugin =
  co_allowedOrigins :: "string set"
  co_allowedMethods :: string
  co_allowedHeaders :: string
  co_allowCredentials :: bool
  co_maxAge :: string

definition NewCORSPlugin :: "(string \<rightharpoonup> yval) \<Rightarrow> CORSPlugin option" where
  "NewCORSPlugin cfg =
     (let p = \<lparr>co_allowedOrigins = set (or_else (get_strs cfg ''allowed_origins'') []),
               co_allowedMethods = or_else (map_option (strings_Join '', '') (get_strs cfg ''allowed_methods''))
                 ''GET, POST, PUT, DELETE, OPTIONS'',
               co_allowedHeaders = or_else (map_option (strings_Join '', '') (get_strs cfg ''allowed_headers''))
                 ''Content-Type, Authorization'',
               co_allowCredentials = or_else (get_bool cfg ''allow_credentials'') False,
               co_maxAge = or_else (map_option itoa (get_int cfg ''max_age'')) ''86400''\<rparr>
      in if co_allowCredentials p \<and> ''*'' \<in> co_allowedOrigins p then None else Some p)"

definition cors_preflight_headers :: "CORSPlugin \<Rightarrow> string \<Rightarrow> header \<Rightarrow> header" where
  "cors_preflight_headers p origin h =
     (let h1 = h_Set ''Access-Control-Allow-Origin'' origin h;
          h2 = h_Set ''Access-Control-Allow-Methods'' (co_allowedMethods p) h1;
          h3 = h_Set ''Access-Control-Allow-Headers'' (co_allowedHeaders p) h2;
          h4 = h_Set ''Access-Control-Max-Age'' (co_maxAge p) h3;
          h5 = h_Set ''Vary'' ''Origin'' h4
      in if co_allowCredentials p then h_Set ''Access-Control-Allow-Credentials'' ''true'' h5 else h5)"

definition cors_Request :: "CORSPlugin \<Rightarrow> 'z exchange_scheme \<Rightarrow> plugin_outcome \<times> 'z exchange_scheme" where
  "cors_Request p x =
     (let origin = h_Get (rq_Header (ex_r x)) ''Origin''
      in if origin = [] then (PNil, x)
         else if origin \<notin> co_allowedOrigins p \<and> ''*'' \<notin> co_allowedOrigins p
         then (PAbort 403 ''origin not allowed'', x)
         else if rq_Method (ex_r x) = ''OPTIONS'' then
           (case WriteHeader 204 (rw_map (cors_preflight_headers p origin) (ex_w x)) of
              Panic \<Rightarrow> (PPanic, x\<lparr>ex_w := rw_map (cors_preflight_headers p origin) (ex_w x)\<rparr>)
            | Ret w \<Rightarrow> (PAbort 204 ''preflight'', x\<lparr>ex_w := w\<rparr>))
         else (PNil, x))"

definition cors_Response :: "CORSPlugin \<Rightarrow> 'z exchange_scheme \<Rightarrow> plugin_outcome \<times> 'z exchange_scheme" where
  "cors_Response p x =
     (let origin = h_Get (rq_Header (ex_r x)) ''Origin''
      in if origin = [] then (PNil, x)
         else (PNil, x\<lparr>ex_w := rw_map (\<lambda>h.
           let h2 = h_Set ''Vary'' ''Origin'' (h_Set ''Access-Control-Allow-Origin'' origin h)
           in if co_allowCredentials p then h_Set ''Access-Control-Allow-Credentials'' ''true'' h2 else h2) (ex_w x)\<rparr>))"

definition cors_plugin :: "CORSPlugin \<Rightarrow> 'z exchange_scheme plugin" where
  "cors_plugin p = \<lparr>pl_Name = ''cors'', pl_Request = cors_Request p, pl_Response = cors_Response p, pl_Close = None\<rparr>"

subsection \<open>JWT authentication\<close>

record JWTPlugin =
  jw_authModel :: string
  jw_algorithms :: "string list"
  jw_secret :: string
  jw_issuer :: string
  jw_audience :: string
  jw_forwardClaims :: "string list"
  jw_clockSkew :: int

definition NewJWTPlugin :: "(string \<rightharpoonup> yval) \<Rightarrow> JWTPlugin option" where
  "NewJWTPlugin cfg =
     (let p = \<lparr>jw_authModel = or_else (get_str cfg ''auth_model'') ''hybrid'',
               jw_algorithms = or_else (get_strs cfg ''algorithms'') [''HS256''],
               jw_secret = or_else (get_str cfg ''secret'') [],
               jw_issuer = or_else (get_str cfg ''issuer'') [],
               jw_audience = or_else (get_str cfg ''audience'') [],
               jw_forwardClaims = or_else (get_strs cfg ''forward_claims'') [],
               jw_clockSkew = 30\<rparr>
      in if jw_authModel p \<noteq> ''passthrough'' \<and> jw_secret p = [] then None else Some p)"

text \<open>
  \<open>gojwt.Parse\<close> is a parameter: it gets the token, the key function (from the token's
  algorithm to the key or an error) and the options, and gives an error or a token with its
  \<open>Valid\<close> flag and its claims, \<open>None\<close> for claims of another type than \<open>MapClaims\<close>.
  \<open>marshal\<close> is \<open>json.Marshal\<close>.
\<close>

record jwt_options =
  jo_validMethods :: "string list"
  jo_issuer :: "string option"
  jo_audience :: "string option"

datatype jwt_result = JwtError | JwtToken bool "(string \<rightharpoonup> yval) option"

type_synonym jwt_parser = "jwt_options \<Rightarrow> (string \<Rightarrow> string option) \<Rightarrow> string \<Rightarrow> jwt_result"

definition jwt_opts :: "JWTPlugin \<Rightarrow> jwt_options" where
  "jwt_opts p = \<lparr>jo_validMethods = jw_algorithms p,
     jo_issuer = (if jw_issuer p \<noteq> [] then Some (jw_issuer p) else None),
     jo_audience = (if jw_audience p \<noteq> [] then Some (jw_audience p) else None)\<rparr>"

definition jwt_key :: "JWTPlugin \<Rightarrow> string \<Rightarrow> string option" where
  "jwt_key p alg = (if alg = ''none'' then None else Some (jw_secret p))"

text \<open>\<open>strings.SplitN(s, " ", 2)\<close> when it gives two parts, and \<open>strings.EqualFold\<close> on ASCII.\<close>

definition split_first_space :: "string \<Rightarrow> (string \<times> string) option" where
  "split_first_space s =
     (if CHR '' '' \<in> set s
      then Some (takeWhile (\<lambda>c. c \<noteq> CHR '' '') s, tl (dropWhile (\<lambda>c. c \<noteq> CHR '' '') s)) else None)"

definition EqualFold :: "string \<Rightarrow> string \<Rightarrow> bool" where
  "EqualFold a b \<longleftrightarrow> map low a = map low b"

definition str_claim :: "(string \<rightharpoonup> yval) \<Rightarrow> string \<Rightarrow> string option" where
  "str_claim claims k = get_str claims k"

definition jwt_store :: "(string \<rightharpoonup> yval) \<Rightarrow> request \<Rightarrow> request" where
  "jwt_store claims = upd_ctx (\<lambda>g. let g1 = g\<lparr>gw_AuthClaims := Some claims\<rparr>
     in case str_claim claims ''sub'' of Some sub \<Rightarrow> g1\<lparr>gw_UserID := sub\<rparr> | None \<Rightarrow> g1)"

definition jwt_forward ::
  "((string \<rightharpoonup> yval) \<Rightarrow> string option) \<Rightarrow> JWTPlugin \<Rightarrow> (string \<rightharpoonup> yval) \<Rightarrow> request \<Rightarrow> request" where
  "jwt_forward marshal p claims r =
     (if jw_forwardClaims p = [] then r
      else let r1 = (case str_claim claims ''sub'' of
                       Some sub \<Rightarrow> r\<lparr>rq_Header := h_Set ''X-User-Id'' sub (rq_Header r)\<rparr>
                     | None \<Rightarrow> r);
               fwd = claims |` set (jw_forwardClaims p)
           in case marshal fwd of
                Some encoded \<Rightarrow> r1\<lparr>rq_Header := h_Set ''X-Auth-Claims'' encoded (rq_Header r1)\<rparr>
              | None \<Rightarrow> r1)"

definition jwt_Request ::
  "jwt_parser \<Rightarrow> ((string \<rightharpoonup> yval) \<Rightarrow> string option) \<Rightarrow> JWTPlugin \<Rightarrow> 'z exchange_scheme
    \<Rightarrow> plugin_outcome \<times> 'z exchange_scheme" where
  "jwt_Request parse marshal p x =
     (if jw_authModel p = ''passthrough'' then (PNil, x)
      else let authHeader = h_Get (rq_Header (ex_r x)) ''Authorization''
           in if authHeader = [] then (PAbort 401 ''invalid_token'', x)
              else case split_first_space authHeader of
                     None \<Rightarrow> (PAbort 401 ''invalid_token'', x)
                   | Some (scheme, tokenString) \<Rightarrow>
                       if \<not> EqualFold scheme ''Bearer'' then (PAbort 401 ''invalid_token'', x)
                       else case parse (jwt_opts p) (jwt_key p) tokenString of
                              JwtToken True (Some claims) \<Rightarrow>
                                (PNil, x\<lparr>ex_r := jwt_forward marshal p claims (jwt_store claims (ex_r x))\<rparr>)
                            | _ \<Rightarrow> (PAbort 401 ''invalid_token'', x))"

definition jwt_Response :: "JWTPlugin \<Rightarrow> 'z exchange_scheme \<Rightarrow> plugin_outcome \<times> 'z exchange_scheme" where
  "jwt_Response p x = (PNil, x)"

definition jwt_plugin ::
  "jwt_parser \<Rightarrow> ((string \<rightharpoonup> yval) \<Rightarrow> string option) \<Rightarrow> JWTPlugin \<Rightarrow> 'z exchange_scheme plugin" where
  "jwt_plugin parse marshal p =
     \<lparr>pl_Name = ''jwt-auth'', pl_Request = jwt_Request parse marshal p, pl_Response = jwt_Response p, pl_Close = None\<rparr>"

subsection \<open>Rate limiting\<close>

definition rate_limit_config :: "(string \<rightharpoonup> yval) \<Rightarrow> LimiterConfig" where
  "rate_limit_config cfg =
     (let rpm = (case cfg ''requests_per_minute'' of
                   Some (YInt r) \<Rightarrow> f_of_int r | Some (YFloat r) \<Rightarrow> r | _ \<Rightarrow> Fin 60);
          burst = (case get_int cfg ''burst'' of Some b \<Rightarrow> f_of_int b | None \<Rightarrow> Fin 10)
      in \<lparr>lc_Backend = or_else (get_str cfg ''backend'') ''memory'',
          lc_Redis = \<lparr>rc_Addr = or_else (get_str cfg ''redis_addr'') [],
            rc_Password = or_else (get_str cfg ''redis_password'') [], rc_DB = 0, rc_DialTimeout = 0, rc_ReadTimeout = 0,
            rc_WriteTimeout = 0, rc_PoolSize = or_else (get_int cfg ''redis_pool_size'') 0, rc_MinIdleConns = 0\<rparr>,
          lc_RequestsPerMin = rpm, lc_Burst = burst,
          lc_WindowSeconds = or_else (get_int cfg ''window_seconds'') 60,
          lc_FallbackPolicy = or_else (get_str cfg ''fallback_policy'') ''pass''\<rparr>)"

text \<open>The strategy and the limiter of the plugin, or the factory's error.\<close>

definition NewRateLimitPlugin :: "(string \<rightharpoonup> yval) \<Rightarrow> factory_error + string \<times> limiter_impl" where
  "NewRateLimitPlugin cfg =
     (case NewFromConfig (rate_limit_config cfg) of
        Inl e \<Rightarrow> Inl e
      | Inr l \<Rightarrow> Inr (or_else (get_str cfg ''strategy'') ''per-ip'', l))"

definition ip_key :: "string \<Rightarrow> 'a request_scheme \<Rightarrow> string" where
  "ip_key routeID r =
     (let real = h_Get (rq_Header r) ''X-Real-IP'';
          ip = (if real \<noteq> [] then real
                else case before_last_colon (rq_RemoteAddr r) of
                       Some (host, port) \<Rightarrow> host
                     | None \<Rightarrow> rq_RemoteAddr r)
      in routeID @ '':ip:'' @ ip)"

definition bucketKey :: "string \<Rightarrow> 'a request_scheme \<Rightarrow> string" where
  "bucketKey strategy r =
     (let routeID = (case gwctx_From r of
                       Some g \<Rightarrow> if gw_RouteID g \<noteq> [] then gw_RouteID g else ''unknown''
                     | None \<Rightarrow> ''unknown'')
      in if strategy = ''per-user'' then
           (case gwctx_From r of
              Some g \<Rightarrow> if gw_UserID g \<noteq> [] then routeID @ '':user:'' @ gw_UserID g else ip_key routeID r
            | None \<Rightarrow> ip_key routeID r)
         else ip_key routeID r)"

text \<open>\<open>%.0f\<close>: rounded to the nearest integer, ties to even.\<close>

fun fmt_f0 :: "f64 \<Rightarrow> string" where
  "fmt_f0 (Fin x) = itoa (rne x)"
| "fmt_f0 PosInf = ''+Inf''"
| "fmt_f0 NegInf = ''-Inf''"
| "fmt_f0 NaN = ''NaN''"

definition rate_limit_Request ::
  "'l allow_fn \<Rightarrow> string \<Rightarrow> ('l, 'z) limited_scheme \<Rightarrow> plugin_outcome \<times> ('l, 'z) limited_scheme" where
  "rate_limit_Request allow strategy x =
     (let key = bucketKey strategy (ex_r x);
          ((allowed, remaining, err), l) = allow (lx_ctxErr x) (lx_now x) key (lx_limiter x);
          x1 = x\<lparr>lx_limiter := l\<rparr>;
          x2 = x1\<lparr>ex_w := rw_map (h_Set ''X-RateLimit-Remaining'' (fmt_f0 remaining)) (ex_w x1)\<rparr>
      in if err \<noteq> None then (PNil, x2)
         else if \<not> allowed then
           (PAbort 429 ''rate limit exceeded'',
            x2\<lparr>ex_w := rw_map (h_Set ''Retry-After'' ''60'') (ex_w x2),
               ex_r := upd_ctx (\<lambda>g. g\<lparr>gw_FailureReason := ''rate_limit_exceeded''\<rparr>) (ex_r x2)\<rparr>)
         else (PNil, x2))"

definition rate_limit_plugin ::
  "'l allow_fn \<Rightarrow> ('l \<Rightarrow> bool \<times> 'l) \<Rightarrow> string \<Rightarrow> ('l, 'z) limited_scheme plugin" where
  "rate_limit_plugin allow close strategy =
     \<lparr>pl_Name = ''rate-limit'', pl_Request = rate_limit_Request allow strategy, pl_Response = (\<lambda>x. (PNil, x)),
      pl_Close = Some (\<lambda>x. let (failed, l) = close (lx_limiter x) in (failed, x\<lparr>lx_limiter := l\<rparr>))\<rparr>"

subsection \<open>The access log\<close>

text \<open>The fields a log line carries; \<open>None\<close> when the request has no gateway context.\<close>

definition logger_request_fields :: "'z exchange_scheme \<Rightarrow> (string \<times> string) list option" where
  "logger_request_fields x =
     (case gwctx_From (ex_r x) of
        None \<Rightarrow> None
      | Some g \<Rightarrow> Some [(''request_id'', gw_RequestID g), (''trace_id'', gw_TraceID g), (''method'', rq_Method (ex_r x)),
          (''path'', rq_Path (ex_r x)), (''client_ip'', or_else (gw_ClientIP g) ''<nil>'')])"

definition state_text :: "CircuitState \<Rightarrow> string" where
  "state_text s = (case s of CircuitClosed \<Rightarrow> ''closed'' | CircuitOpen \<Rightarrow> ''open'' | CircuitHalfOpen \<Rightarrow> ''half_open'')"

definition logger_response_fields :: "gotime \<Rightarrow> 'z exchange_scheme \<Rightarrow> (string \<times> string) list option" where
  "logger_response_fields now x =
     (case gwctx_From (ex_r x) of
        None \<Rightarrow> None
      | Some g \<Rightarrow> Some [(''request_id'', gw_RequestID g), (''trace_id'', gw_TraceID g), (''method'', rq_Method (ex_r x)),
          (''path'', rq_Path (ex_r x)), (''route_id'', gw_RouteID g), (''client_ip'', or_else (gw_ClientIP g) ''<nil>''),
          (''user_id'', gw_UserID g), (''upstream'', gw_SelectedInstance g),
          (''latency_ms'', itoa (go_div (now - gw_StartTime g) millisecond)), (''retry_count'', itoa (gw_RetryCount g)),
          (''circuit_state'', state_text (gw_CircuitState g)), (''failure_reason'', gw_FailureReason g)])"

definition logger_plugin :: "'z logged_scheme plugin" where
  "logger_plugin =
     \<lparr>pl_Name = ''request-logger'',
      pl_Request = (\<lambda>x. (PNil, case logger_request_fields x of
         Some fs \<Rightarrow> x\<lparr>lg_lines := lg_lines x @ [(''request received'', fs)]\<rparr> | None \<Rightarrow> x)),
      pl_Response = (\<lambda>x. (PNil, case logger_response_fields (lg_now x) x of
         Some fs \<Rightarrow> x\<lparr>lg_lines := lg_lines x @ [(''request complete'', fs)]\<rparr> | None \<Rightarrow> x)),
      pl_Close = None\<rparr>"

subsection \<open>CORS\<close>

text \<open>
  A preflight from an allowed origin is answered by the gateway alone: 204, the
  configured headers, no body, no later plugin and no upstream call. The JSON error the
  chain appends for the \<open>AbortError\<close> never reaches the client.
\<close>

theorem cors_preflight:
  assumes "h_Get (rq_Header (ex_r x)) ''Origin'' = origin" and "origin \<noteq> []"
    and "origin \<in> co_allowedOrigins p \<or> ''*'' \<in> co_allowedOrigins p"
    and "rq_Method (ex_r x) = ''OPTIONS''" and "rw_sent (ex_w x) = None"
  shows "\<exists>x'. chain_Request (cors_plugin p # ps) x = (Ret True, x')
    \<and> response (ex_w x') = (204, cors_preflight_headers p origin (rw_header (ex_w x)), rw_body (ex_w x))"
proof -
  let ?w = "(rw_map (cors_preflight_headers p origin) (ex_w x))\<lparr>rw_sent := Some (204, cors_preflight_headers p origin (rw_header (ex_w x)))\<rparr>"
  have "cors_Request p x = (PAbort 204 ''preflight'', x\<lparr>ex_w := ?w\<rparr>)"
    using assms by (auto simp: cors_Request_def WriteHeader_def rw_map_def)
  moreover have "writeJSONError 204 ''preflight'' ?w
      = (Ret (), rw_Write (json_error 204 ''preflight'') (rw_map (h_Set ''Content-Type'' ''application/json'') ?w))"
    by (simp add: writeJSONError_def sent_WriteHeader)
  ultimately show ?thesis
    by (simp add: cors_plugin_def chain_error_def rw_Write_def bodyAllowed_def rw_map_def response_def)
qed

theorem cors_preflight_witness:
  "\<exists>x'. chain_Request (cors_plugin \<lparr>co_allowedOrigins = {''*''}, co_allowedMethods = ''GET'', co_allowedHeaders = [],
         co_allowCredentials = False, co_maxAge = ''60''\<rparr> # [])
       \<lparr>ex_w = new_rw, ex_r = sample_request\<lparr>rq_Method := ''OPTIONS'', rq_Header := [''Origin'' \<mapsto> [''https://a'']]\<rparr>\<rparr> = (Ret True, x')
     \<and> fst (response (ex_w x')) = 204"
proof -
  let ?p = "\<lparr>co_allowedOrigins = {''*''}, co_allowedMethods = ''GET'', co_allowedHeaders = [],
         co_allowCredentials = False, co_maxAge = ''60''\<rparr>"
  let ?x = "\<lparr>ex_w = new_rw, ex_r = sample_request\<lparr>rq_Method := ''OPTIONS'', rq_Header := [''Origin'' \<mapsto> [''https://a'']]\<rparr>\<rparr> :: exchange"
  have o: "h_Get (rq_Header (ex_r ?x)) ''Origin'' = ''https://a''" by code_simp
  obtain x' where "chain_Request (cors_plugin ?p # []) ?x = (Ret True, x')"
    "response (ex_w x') = (204, cors_preflight_headers ?p ''https://a'' (rw_header (ex_w ?x)), rw_body (ex_w ?x))"
    using cors_preflight [OF o, of ?p "[]"] by (auto simp: new_rw_def)
  then show ?thesis by auto
qed

lemma str_items: "s \<in> set (List.map_filter (\<lambda>v. case v of YStr s \<Rightarrow> Some s | _ \<Rightarrow> None) vs) \<longleftrightarrow> YStr s \<in> set vs"
  by (induction vs) (auto simp: map_filter_def split: yval.splits)

abbreviation credentials :: "header \<Rightarrow> string" where
  "credentials h \<equiv> h_Get h ''Access-Control-Allow-Credentials''"

lemma other_cors_keys:
  "CanonicalHeaderKey ''Vary'' \<noteq> CanonicalHeaderKey ''Access-Control-Allow-Credentials''"
  "CanonicalHeaderKey ''Access-Control-Allow-Origin'' \<noteq> CanonicalHeaderKey ''Access-Control-Allow-Credentials''"
  "CanonicalHeaderKey ''Access-Control-Allow-Methods'' \<noteq> CanonicalHeaderKey ''Access-Control-Allow-Credentials''"
  "CanonicalHeaderKey ''Access-Control-Allow-Headers'' \<noteq> CanonicalHeaderKey ''Access-Control-Allow-Credentials''"
  "CanonicalHeaderKey ''Access-Control-Max-Age'' \<noteq> CanonicalHeaderKey ''Access-Control-Allow-Credentials''"
  "CanonicalHeaderKey ''Content-Type'' \<noteq> CanonicalHeaderKey ''Access-Control-Allow-Credentials''"
  by code_simp+

text \<open>The response phase changes what the client gets only for an origin and while nothing was sent.\<close>

lemma cors_Response_reply:
  "credentials (fst (snd (response (ex_w (chain_Response [cors_plugin p] x))))) \<noteq> credentials (fst (snd (response (ex_w x)))) \<Longrightarrow>
    co_allowCredentials p \<and> h_Get (rq_Header (ex_r x)) ''Origin'' \<noteq> []"
  by (cases "rw_sent (ex_w x)")
    (auto simp: cors_plugin_def cors_Response_def rw_map_def response_def Let_def other_cors_keys split: if_splits)

text \<open>A request phase that answers: a 403 without credentials, or the preflight of an allowed origin.\<close>

lemma cors_answered:
  assumes "chain_Request [cors_plugin p] x = (Ret True, x1)" and "rw_sent (ex_w x) = None"
  shows "ex_r x1 = ex_r x \<and> rw_sent (ex_w x1) \<noteq> None
    \<and> (credentials (fst (snd (response (ex_w x1)))) \<noteq> credentials (rw_header (ex_w x)) \<longrightarrow> co_allowCredentials p
        \<and> (h_Get (rq_Header (ex_r x)) ''Origin'' \<in> co_allowedOrigins p \<or> ''*'' \<in> co_allowedOrigins p))"
proof -
  let ?o = "h_Get (rq_Header (ex_r x)) ''Origin''"
  have o: "?o \<noteq> []" using assms(1) by (auto simp: cors_plugin_def cors_Request_def Let_def)
  show ?thesis
  proof (cases "?o \<in> co_allowedOrigins p \<or> ''*'' \<in> co_allowedOrigins p")
    case allowed: True
    then have "rq_Method (ex_r x) = ''OPTIONS''"
      using assms(1) o by (auto simp: cors_plugin_def cors_Request_def Let_def split: if_splits)
    then have "ex_r x1 = ex_r x \<and> rw_sent (ex_w x1) = Some (204, cors_preflight_headers p ?o (rw_header (ex_w x)))"
      using assms o allowed by (auto simp: cors_plugin_def cors_Request_def chain_error_def writeJSONError_def
          WriteHeader_def rw_Write_def bodyAllowed_def rw_map_def Let_def)
    then show ?thesis using allowed
      by (auto simp: response_def cors_preflight_headers_def other_cors_keys Let_def split: option.splits if_splits)
  next
    case False
    then have "ex_r x1 = ex_r x \<and> rw_sent (ex_w x1) = Some (403, h_Set ''Content-Type'' ''application/json'' (rw_header (ex_w x)))"
      using assms o by (auto simp: cors_plugin_def cors_Request_def chain_error_def writeJSONError_def
          WriteHeader_def rw_Write_def bodyAllowed_def rw_map_def Let_def)
    then show ?thesis by (auto simp: response_def other_cors_keys split: option.splits)
  qed
qed

lemma cors_passed:
  "chain_Request [cors_plugin p] x = (Ret False, x1) \<Longrightarrow>
    h_Get (rq_Header (ex_r x)) ''Origin'' = [] \<or> h_Get (rq_Header (ex_r x)) ''Origin'' \<in> co_allowedOrigins p \<or> ''*'' \<in> co_allowedOrigins p"
  by (auto simp: cors_plugin_def cors_Request_def chain_error_def Let_def split: if_splits go.splits prod.splits)

lemma credentials_listed:
  assumes "NewCORSPlugin cfg = Some p" and "co_allowCredentials p" and "origin \<in> co_allowedOrigins p \<or> ''*'' \<in> co_allowedOrigins p"
  shows "\<exists>vs. cfg ''allowed_origins'' = Some (YList vs) \<and> YStr origin \<in> set vs"
proof -
  have "origin \<in> co_allowedOrigins p" using assms by (auto simp: NewCORSPlugin_def Let_def split: if_splits)
  then have "origin \<in> set (or_else (get_strs cfg ''allowed_origins'') [])"
    using assms(1) by (auto simp: NewCORSPlugin_def Let_def split: if_splits)
  then show ?thesis by (auto simp: or_else_def get_strs_def str_items split: option.splits yval.splits)
qed

text \<open>
  C36: Credentials are never combined with a wildcard. Take a whole exchange through the plugin:
  the request phase, which may answer a preflight or refuse the origin, then whatever else
  serves the request if it passed, then the response phase. If nothing but the plugin sets
  \<open>Access-Control-Allow-Credentials\<close>, the client receives that header only if the origin of its
  request is listed verbatim in the configuration, preflight or not.
\<close>

theorem cors_credentials_named_origin:
  assumes "NewCORSPlugin cfg = Some p" and "rw_sent (ex_w x) = None" and "credentials (rw_header (ex_w x)) = []"
    and "chain_Request [cors_plugin p] x = (Ret aborted, x1)" and "x2 = (if aborted then x1 else serve x1)"
    and "\<not> aborted \<Longrightarrow> h_Get (rq_Header (ex_r x2)) ''Origin'' = h_Get (rq_Header (ex_r x)) ''Origin''
          \<and> credentials (fst (snd (response (ex_w x2)))) = []"
    and "credentials (fst (snd (response (ex_w (chain_Response [cors_plugin p] x2))))) \<noteq> []"
  shows "\<exists>vs. cfg ''allowed_origins'' = Some (YList vs) \<and> YStr (h_Get (rq_Header (ex_r x)) ''Origin'') \<in> set vs"
proof (cases aborted)
  case True
  then have x2: "chain_Request [cors_plugin p] x = (Ret True, x2)" using assms(4,5) by simp
  note a = cors_answered [OF x2 assms(2)]
  have "response (ex_w (chain_Response [cors_plugin p] x2)) = response (ex_w x2)"
    using a by (simp add: cors_plugin_def cors_Response_def Let_def)
  then show ?thesis using a assms(3,7) credentials_listed [OF assms(1)] by simp
next
  case False
  then have pass: "chain_Request [cors_plugin p] x = (Ret False, x1)" using assms(4) by simp
  have "co_allowCredentials p \<and> h_Get (rq_Header (ex_r x)) ''Origin'' \<noteq> []"
    using cors_Response_reply [of p x2] assms(6) [OF False] assms(7) by simp
  then show ?thesis using cors_passed [OF pass] credentials_listed [OF assms(1)] by blast
qed

definition credentials_config :: "string \<rightharpoonup> yval" where
  "credentials_config = [''allowed_origins'' \<mapsto> YList [YStr ''https://a''], ''allow_credentials'' \<mapsto> YBool True]"

definition credentials_exchange :: "string \<Rightarrow> exchange" where
  "credentials_exchange verb = \<lparr>ex_w = new_rw, ex_r = sample_request\<lparr>rq_Method := verb, rq_Header := [''Origin'' \<mapsto> [''https://a'']]\<rparr>\<rparr>"

lemma credentials_exchange:
  "rw_sent (ex_w (credentials_exchange verb)) = None" "credentials (rw_header (ex_w (credentials_exchange verb))) = []"
  "h_Get (rq_Header (ex_r (credentials_exchange verb))) ''Origin'' = ''https://a''"
  "rq_Method (ex_r (credentials_exchange verb)) = verb"
proof -
  have "h_Get [''Origin'' \<mapsto> [''https://a'']] ''Origin'' = ''https://a''" by code_simp
  then show "h_Get (rq_Header (ex_r (credentials_exchange verb))) ''Origin'' = ''https://a''" by (simp add: credentials_exchange_def)
qed (simp_all add: credentials_exchange_def new_rw_def h_Get_def)

text \<open>A preflight and a simple request from the listed origin both get the header.\<close>

theorem cors_credentials_named_origin_witness:
  "\<exists>p x1 x2 vs. NewCORSPlugin credentials_config = Some p
     \<and> chain_Request [cors_plugin p] (credentials_exchange ''OPTIONS'') = (Ret True, x1)
     \<and> credentials (fst (snd (response (ex_w (chain_Response [cors_plugin p] x1))))) \<noteq> []
     \<and> chain_Request [cors_plugin p] (credentials_exchange ''GET'') = (Ret False, x2)
     \<and> credentials (fst (snd (response (ex_w (chain_Response [cors_plugin p] x2))))) \<noteq> []
     \<and> credentials_config ''allowed_origins'' = Some (YList vs) \<and> YStr ''https://a'' \<in> set vs"
proof -
  let ?pre = "credentials_exchange ''OPTIONS''" and ?get = "credentials_exchange ''GET''"
  obtain p where p: "NewCORSPlugin credentials_config = Some p" "co_allowedOrigins p = {''https://a''}" "co_allowCredentials p"
    by (simp add: credentials_config_def NewCORSPlugin_def Let_def or_else_def get_strs_def get_bool_def get_int_def map_filter_def)
  obtain x1 where x1: "chain_Request [cors_plugin p] ?pre = (Ret True, x1)"
    "response (ex_w x1) = (204, cors_preflight_headers p ''https://a'' (rw_header (ex_w ?pre)), rw_body (ex_w ?pre))"
    using cors_preflight [OF credentials_exchange(3), of p "''OPTIONS''" "[]"] p(2) by (auto simp: credentials_exchange)
  have "rw_sent (ex_w x1) \<noteq> None" using cors_answered [OF x1(1) credentials_exchange(1)] by simp
  then have "response (ex_w (chain_Response [cors_plugin p] x1)) = response (ex_w x1)"
    by (simp add: cors_plugin_def cors_Response_def Let_def)
  then have pre: "credentials (fst (snd (response (ex_w (chain_Response [cors_plugin p] x1))))) \<noteq> []"
    using x1(2) p(3) by (simp add: cors_preflight_headers_def Let_def)
  have x2: "chain_Request [cors_plugin p] ?get = (Ret False, ?get)"
    by (simp add: cors_plugin_def cors_Request_def credentials_exchange p(2) Let_def)
  have get: "credentials (fst (snd (response (ex_w (chain_Response [cors_plugin p] ?get))))) \<noteq> []"
    using p(3) credentials_exchange(1) [of "''GET''"]
    by (simp add: cors_plugin_def cors_Response_def credentials_exchange(3) rw_map_def response_def Let_def)
  have none: "credentials (fst (snd (response (ex_w ?get)))) = []"
    using credentials_exchange(1,2) [of "''GET''"] by (simp add: response_def)
  have "\<exists>vs. credentials_config ''allowed_origins'' = Some (YList vs) \<and> YStr (h_Get (rq_Header (ex_r ?pre)) ''Origin'') \<in> set vs"
    by (rule cors_credentials_named_origin [OF p(1) credentials_exchange(1,2) x1(1) _ _ pre, of "\<lambda>x. x"]) simp_all
  moreover have "\<exists>vs. credentials_config ''allowed_origins'' = Some (YList vs) \<and> YStr (h_Get (rq_Header (ex_r ?get)) ''Origin'') \<in> set vs"
    by (rule cors_credentials_named_origin [OF p(1) credentials_exchange(1,2) x2 _ _ get, of "\<lambda>x. x"]) (simp_all add: none)
  ultimately show ?thesis using p(1) x1(1) pre x2 get by (auto simp: credentials_exchange(3))
qed

subsection \<open>JWT\<close>

text \<open>
  C8: Authentication fails closed. Unless the model is \<open>passthrough\<close>, a request passes only
  with a \<open>Bearer\<close> token that the parser accepts as valid under the configured algorithms,
  issuer and audience, with a key for every algorithm but \<open>none\<close>; its claims are then in the
  gateway context. Every other request is answered 401 and left unchanged.
\<close>

theorem jwt_fails_closed:
  assumes "jw_authModel p \<noteq> ''passthrough''" and "jwt_Request parse marshal p x = (out, x1)"
  shows "(out = PNil \<longrightarrow> (\<exists>scheme token claims.
      split_first_space (h_Get (rq_Header (ex_r x)) ''Authorization'') = Some (scheme, token)
      \<and> EqualFold scheme ''Bearer'' \<and> parse (jwt_opts p) (jwt_key p) token = JwtToken True (Some claims)
      \<and> (rq_Ctx (ex_r x) \<noteq> None \<longrightarrow> map_option gw_AuthClaims (rq_Ctx (ex_r x1)) = Some (Some claims))))
    \<and> (out \<noteq> PNil \<longrightarrow> out = PAbort 401 ''invalid_token'' \<and> x1 = x)"
  using assms
  by (auto simp: jwt_Request_def Let_def jwt_forward_def jwt_store_def upd_ctx_def
      split: if_splits option.splits prod.splits jwt_result.splits bool.splits)

text \<open>The request carries a bearer token that the parser accepts for the plugin.\<close>

definition authenticated :: "jwt_parser \<Rightarrow> JWTPlugin \<Rightarrow> request \<Rightarrow> bool" where
  "authenticated parse p r \<longleftrightarrow>
     (case split_first_space (h_Get (rq_Header r) ''Authorization'') of
        None \<Rightarrow> False
      | Some (scheme, token) \<Rightarrow> EqualFold scheme ''Bearer''
          \<and> (case parse (jwt_opts p) (jwt_key p) token of JwtToken True (Some claims) \<Rightarrow> True | _ \<Rightarrow> False))"

lemma jwt_refuses:
  assumes "jw_authModel p \<noteq> ''passthrough''" and "\<not> authenticated parse p (ex_r x)"
  shows "jwt_Request parse marshal p x = (PAbort 401 ''invalid_token'', x)"
  using assms
  by (auto simp: jwt_Request_def authenticated_def Let_def split: option.splits prod.splits jwt_result.splits bool.splits)

lemma header_keys_differ: "CanonicalHeaderKey ''X-Auth-Claims'' \<noteq> CanonicalHeaderKey ''X-User-Id''"
  by code_simp

text \<open>
  What the upstream is told about the user: after a request has passed, \<open>X-User-Id\<close> is
  the token's subject only if claims are forwarded and the token has a string subject.
  Otherwise it is whatever the client sent: the header is not cleared, so a client with any
  valid token can name any user to an upstream that trusts it.
\<close>

theorem jwt_user_header:
  assumes "jw_authModel p \<noteq> ''passthrough''" and "jwt_Request parse marshal p x = (PNil, x1)"
  shows "\<exists>token claims. parse (jwt_opts p) (jwt_key p) token = JwtToken True (Some claims)
    \<and> h_Get (rq_Header (ex_r x1)) ''X-User-Id'' =
       (if jw_forwardClaims p = [] then h_Get (rq_Header (ex_r x)) ''X-User-Id''
        else case claims ''sub'' of
          Some (YStr sub) \<Rightarrow> sub
        | _ \<Rightarrow> h_Get (rq_Header (ex_r x)) ''X-User-Id'')"
proof -
  obtain token claims r1 where t: "parse (jwt_opts p) (jwt_key p) token = JwtToken True (Some claims)"
    and r1: "rq_Header r1 = rq_Header (ex_r x)" and x1: "ex_r x1 = jwt_forward marshal p claims r1"
  proof -
    obtain scheme token where sp: "split_first_space (h_Get (rq_Header (ex_r x)) ''Authorization'') = Some (scheme, token)"
      using assms by (auto simp: jwt_Request_def Let_def split: if_splits option.splits)
    then obtain claims where cl: "parse (jwt_opts p) (jwt_key p) token = JwtToken True (Some claims)"
      using assms by (auto simp: jwt_Request_def Let_def split: if_splits option.splits jwt_result.splits bool.splits)
    then have "ex_r x1 = jwt_forward marshal p claims (jwt_store claims (ex_r x))"
      using assms sp by (auto simp: jwt_Request_def Let_def split: if_splits)
    then show thesis by (rule that [OF cl, rotated]) (simp add: jwt_store_def upd_ctx_def)
  qed
  have "h_Get (rq_Header (jwt_forward marshal p claims r1)) ''X-User-Id'' =
       (if jw_forwardClaims p = [] then h_Get (rq_Header (ex_r x)) ''X-User-Id''
        else case claims ''sub'' of
          Some (YStr sub) \<Rightarrow> sub
        | _ \<Rightarrow> h_Get (rq_Header (ex_r x)) ''X-User-Id'')"
    using r1 header_keys_differ
    by (auto simp: jwt_forward_def str_claim_def get_str_def Let_def split: option.splits yval.splits)
  then show ?thesis using t x1 by auto
qed

definition sample_jwt :: JWTPlugin where
  "sample_jwt = \<lparr>jw_authModel = ''validate'', jw_algorithms = [''HS256''], jw_secret = ''k'', jw_issuer = [],
     jw_audience = [], jw_forwardClaims = [''org''], jw_clockSkew = 30\<rparr>"

definition sample_parser :: jwt_parser where
  "sample_parser opts key token = (if token = ''t'' then JwtToken True (Some [''org'' \<mapsto> YStr ''acme'']) else JwtError)"

lemma sample_bearer:
  "h_Get [''Authorization'' \<mapsto> [''bearer t''], ''X-User-Id'' \<mapsto> [''root'']] ''Authorization'' = ''bearer t''"
  "split_first_space ''bearer t'' = Some (''bearer'', ''t'')" "EqualFold ''bearer'' ''Bearer''"
  by code_simp+

theorem jwt_fails_closed_witness:
  "jwt_Request sample_parser (\<lambda>_. None) sample_jwt \<lparr>ex_w = new_rw, ex_r = sample_request\<rparr>
     = (PAbort 401 ''invalid_token'', \<lparr>ex_w = new_rw, ex_r = sample_request\<rparr>)"
proof -
  obtain out x1 where j: "jwt_Request sample_parser (\<lambda>_. None) sample_jwt \<lparr>ex_w = new_rw, ex_r = sample_request\<rparr> = (out, x1)"
    by fastforce
  have "jw_authModel sample_jwt \<noteq> ''passthrough''" by (simp add: sample_jwt_def)
  note c = jwt_fails_closed [OF this j]
  have "split_first_space (h_Get (rq_Header sample_request) ''Authorization'') = None" by code_simp
  then have "out \<noteq> PNil" using c by auto
  then show ?thesis using c j by simp
qed

theorem jwt_user_header_witness:
  "\<exists>x1. jwt_Request sample_parser (\<lambda>_. None) sample_jwt
      \<lparr>ex_w = new_rw, ex_r = sample_request\<lparr>rq_Header := [''Authorization'' \<mapsto> [''bearer t''], ''X-User-Id'' \<mapsto> [''root'']]\<rparr>\<rparr> = (PNil, x1)
    \<and> h_Get (rq_Header (ex_r x1)) ''X-User-Id'' = ''root''"
proof -
  let ?x = "\<lparr>ex_w = new_rw, ex_r = sample_request\<lparr>rq_Header := [''Authorization'' \<mapsto> [''bearer t''], ''X-User-Id'' \<mapsto> [''root'']]\<rparr>\<rparr> :: exchange"
  obtain x1 where j: "jwt_Request sample_parser (\<lambda>_. None) sample_jwt ?x = (PNil, x1)"
    using sample_bearer by (simp add: jwt_Request_def sample_jwt_def sample_parser_def Let_def)
  have "jw_authModel sample_jwt \<noteq> ''passthrough''" by (simp add: sample_jwt_def)
  from jwt_user_header [OF this j] obtain token claims where
    "sample_parser (jwt_opts sample_jwt) (jwt_key sample_jwt) token = JwtToken True (Some claims)"
    and h: "h_Get (rq_Header (ex_r x1)) ''X-User-Id'' =
       (if jw_forwardClaims sample_jwt = [] then h_Get (rq_Header (ex_r ?x)) ''X-User-Id''
        else case claims ''sub'' of Some (YStr sub) \<Rightarrow> sub | _ \<Rightarrow> h_Get (rq_Header (ex_r ?x)) ''X-User-Id'')" by blast
  then have "claims ''sub'' = None" by (auto simp: sample_parser_def split: if_splits)
  moreover have "h_Get (rq_Header (ex_r ?x)) ''X-User-Id'' = ''root''" by code_simp
  ultimately show ?thesis using h j by simp
qed

subsection \<open>Rate limiting, one quota per client\<close>

context limiter
begin

lemma rate_limit_outcome:
  assumes "allow (lx_ctxErr x) (lx_now x) (bucketKey strategy (ex_r x)) (lx_limiter x) = ((granted, rem, err), l)"
  shows "fst (rate_limit_Request allow strategy x) = (if err = None \<and> \<not> granted then PAbort 429 ''rate limit exceeded'' else PNil)"
    and "lx_limiter (snd (rate_limit_Request allow strategy x)) = l"
  using assms by (auto simp: rate_limit_Request_def Let_def)

end





text \<open>
  Whom the plugin takes for one client: with \<open>per-user\<close> and a known user that user, otherwise
  the address in \<open>X-Real-IP\<close> or, without it, that of the peer.
\<close>

datatype client = User string | Addr string








subsection \<open>The contracts of the plugins\<close>

interpretation quiet_cors: quiet_plugin "cors_plugin p" for p
  by unfold_locales (simp add: cors_plugin_def cors_Response_def rw_map_def Let_def)

interpretation quiet_jwt: quiet_plugin "jwt_plugin parse marshal p" for parse marshal p
  by unfold_locales (simp add: jwt_plugin_def jwt_Response_def)

interpretation quiet_rate_limit: quiet_plugin "rate_limit_plugin allow close strategy" for allow close strategy
  by unfold_locales (simp add: rate_limit_plugin_def)

interpretation quiet_logger: quiet_plugin logger_plugin
  by unfold_locales (simp add: logger_plugin_def split: option.split)

interpretation pass_logger: passing_plugin logger_plugin "\<lambda>r. True"
  by unfold_locales (auto simp: logger_plugin_def split: option.split)

text \<open>CORS lets a request without an \<open>Origin\<close> pass.\<close>

interpretation pass_cors: passing_plugin "cors_plugin p" "\<lambda>r. h_Get (rq_Header r) ''Origin'' = []" for p
  by unfold_locales (simp add: cors_plugin_def cors_Request_def)

end
