(* ===== verification/Plugin_SDK.thy ===== *)
theory Plugin_SDK
  imports Plugin_Chain
begin

section \<open>The plugin SDK (\<open>sdk/plugin/v1\<close>)\<close>

text \<open>
  The messages between the gateway and an external plugin, and the HTTP server that a plugin
  author wraps around a handler.
\<close>

subsection \<open>The contract\<close>

record Manifest =
  mf_Name :: string
  mf_Version :: string
  mf_SDKMajorVersion :: int
  mf_Description :: string
  mf_Author :: string

record RequestPayload =
  py_RouteID :: string
  py_Method :: string
  py_Path :: string
  py_Query :: string
  py_Headers :: "string \<rightharpoonup> string"
  py_RemoteAddr :: string
  py_UserID :: string
  py_TraceID :: string
  py_Config :: "string \<rightharpoonup> yval"

text \<open>\<open>AddHeaders\<close> is in the order Go's map iteration visits it.\<close>

record PluginResponse =
  ps_Action :: string
  ps_StatusCode :: int
  ps_Message :: string
  ps_AddHeaders :: "(string \<times> string) list"

abbreviation (input) SDKMajorVersion :: int where "SDKMajorVersion \<equiv> 1"

subsection \<open>The SDK server\<close>

record sdk_handler =
  sh_OnRequest :: "RequestPayload \<Rightarrow> PluginResponse"
  sh_OnResponse :: "RequestPayload \<Rightarrow> PluginResponse"

text \<open>The JSON coding of the plugin's side.\<close>

record sdk_codec =
  sd_encodeManifest :: "Manifest \<Rightarrow> string"
  sd_decodePayload :: "string \<Rightarrow> RequestPayload option"
  sd_encodeResponse :: "PluginResponse \<Rightarrow> string"

definition sdk_handleExecute ::
  "sdk_codec \<Rightarrow> (RequestPayload \<Rightarrow> PluginResponse) \<Rightarrow> string \<Rightarrow> string \<Rightarrow> response_writer \<Rightarrow> response_writer go" where
  "sdk_handleExecute cd fn method body w =
     (if method \<noteq> ''POST'' then http_Error ''method not allowed'' 405 w
      else case sd_decodePayload cd body of
             None \<Rightarrow> http_Error ''invalid request payload'' 400 w
           | Some payload \<Rightarrow>
               Ret (rw_Write (sd_encodeResponse cd (fn payload))
                 (rw_map (h_Set ''Content-Type'' ''application/json'') w)))"

definition sdk_handleManifest :: "sdk_codec \<Rightarrow> Manifest \<Rightarrow> response_writer \<Rightarrow> response_writer go" where
  "sdk_handleManifest cd m w =
     Ret (rw_Write (sd_encodeManifest cd m) (rw_map (h_Set ''Content-Type'' ''application/json'') w))"

definition sdk_handleHealthz :: "response_writer \<Rightarrow> response_writer go" where
  "sdk_handleHealthz w =
     go_bind (WriteHeader 200 (rw_map (h_Set ''Content-Type'' ''application/json'') w))
       (\<lambda>w1. Ret (rw_Write (''{'' @ go_quote ''status'' @ '':'' @ go_quote ''ok'' @ ''}'') w1))"

record PluginServer =
  psv_manifest :: Manifest
  psv_handler :: sdk_handler

definition NewPluginServer :: "Manifest \<Rightarrow> sdk_handler \<Rightarrow> PluginServer" where
  "NewPluginServer manifest handler = \<lparr>psv_manifest = manifest, psv_handler = handler\<rparr>"

definition sdk_handleExecuteRequest :: "sdk_codec \<Rightarrow> PluginServer \<Rightarrow> string \<Rightarrow> string \<Rightarrow> response_writer \<Rightarrow> response_writer go" where
  "sdk_handleExecuteRequest cd s = sdk_handleExecute cd (sh_OnRequest (psv_handler s))"

definition sdk_handleExecuteResponse :: "sdk_codec \<Rightarrow> PluginServer \<Rightarrow> string \<Rightarrow> string \<Rightarrow> response_writer \<Rightarrow> response_writer go" where
  "sdk_handleExecuteResponse cd s = sdk_handleExecute cd (sh_OnResponse (psv_handler s))"

text \<open>
  The mux of \<open>ListenAndServe\<close>: \<open>path\<close> is the path of the request's URL, without its query, and
  already clean (the mux answers a path with \<open>//\<close>, \<open>/./\<close> or \<open>/../\<close> with a redirect to the
  clean one); an unknown path is a 404.
\<close>

definition sdk_serve :: "sdk_codec \<Rightarrow> PluginServer \<Rightarrow> string \<Rightarrow> string \<Rightarrow> string \<Rightarrow> response_writer go" where
  "sdk_serve cd s method path body =
     (if path = ''/manifest'' then sdk_handleManifest cd (psv_manifest s) new_rw
      else if path = ''/execute/request'' then sdk_handleExecuteRequest cd s method body new_rw
      else if path = ''/execute/response'' then sdk_handleExecuteResponse cd s method body new_rw
      else if path = ''/healthz'' then sdk_handleHealthz new_rw
      else http_Error ''404 page not found'' 404 new_rw)"

text \<open>
  Where \<open>ListenAndServe\<close> listens: network and address. The gateway's client dials by the
  same prefix.
\<close>

definition is_unix :: "string \<Rightarrow> bool" where
  "is_unix addr \<longleftrightarrow> take 7 addr = ''unix://''"

definition sdk_listen :: "string \<Rightarrow> string \<times> string" where
  "sdk_listen addr = (if is_unix addr then (''unix'', drop 7 addr) else (''tcp'', addr))"

end
