(* ===== verification/External_Plugin.thy ===== *)
theory External_Plugin
  imports Builtin_Plugins Plugin_SDK Circuit_Breaker Observability
begin

section \<open>External plugins (\<open>internal/plugin/external\<close>)\<close>

text \<open>
  A plugin that runs as an HTTP sidecar: the client that calls it behind a circuit breaker,
  the loader that admits it, the background health checker, and how the
  client meets the SDK's server. HTTP calls and JSON coding are parameters, gathered in \<open>sidecar\<close>.
\<close>

subsection \<open>The client\<close>

record ExternalPlugin =
  xp_manifest :: Manifest
  xp_addr :: string
  xp_cfg :: "string \<rightharpoonup> yval"
  xp_timeout :: duration
  xp_onError :: string
  xp_cb :: circuit_breaker
  xp_metrics :: "metric_update list option"

text \<open>The updates made through \<open>metrics\<close>, oldest first; \<open>None\<close> for a nil pointer.\<close>

datatype http_reply = CallFailed | HttpReply int string

text \<open>
  What the client uses of the outside: \<open>json.Marshal\<close> of a payload, whether
  \<open>http.NewRequest\<close> accepts a URL, \<open>client.Do\<close> for a POST (the reply and the time it
  arrived) and for a GET, and the JSON decoders.
\<close>

record sidecar =
  sc_marshal :: "RequestPayload \<Rightarrow> string option"
  sc_urlOk :: "string \<Rightarrow> bool"
  sc_post :: "string \<Rightarrow> string \<Rightarrow> gotime \<Rightarrow> http_reply \<times> gotime"
  sc_get :: "string \<Rightarrow> http_reply"
  sc_decode :: "string \<Rightarrow> PluginResponse option"
  sc_decodeManifest :: "string \<Rightarrow> Manifest option"

definition buildPayload :: "ExternalPlugin \<Rightarrow> request \<Rightarrow> RequestPayload" where
  "buildPayload p r =
     (let payload = \<lparr>py_RouteID = [], py_Method = rq_Method r, py_Path = rq_Path r, py_Query = rq_RawQuery r,
            py_Headers = (\<lambda>k. case rq_Header r k of Some (v # vs) \<Rightarrow> Some v | _ \<Rightarrow> None),
            py_RemoteAddr = rq_RemoteAddr r, py_UserID = [], py_TraceID = [], py_Config = xp_cfg p\<rparr>
      in case gwctx_From r of
           Some g \<Rightarrow> payload\<lparr>py_RouteID := gw_RouteID g, py_UserID := gw_UserID g\<rparr>
         | None \<Rightarrow> payload)"

definition applyOnError :: "ExternalPlugin \<Rightarrow> plugin_outcome" where
  "applyOnError p =
     (if xp_onError p = ''pass'' then PNil
      else if xp_onError p = ''reject'' \<or> xp_onError p = ''circuit-break''
      then PAbort 502 (''plugin '' @ go_quote (mf_Name (xp_manifest p)) @ '' unavailable'')
      else PNil)"

text \<open>An update through a nil \<open>*Metrics\<close> is a nil dereference.\<close>

definition ext_update :: "metric_update \<Rightarrow> ExternalPlugin \<Rightarrow> ExternalPlugin option" where
  "ext_update m p = map_option (\<lambda>ms. p\<lparr>xp_metrics := Some (ms @ [m])\<rparr>) (xp_metrics p)"

text \<open>Count an error and apply the policy.\<close>

definition count_error :: "string \<Rightarrow> ExternalPlugin \<Rightarrow> request \<Rightarrow> plugin_outcome \<times> ExternalPlugin \<times> request" where
  "count_error reason p r =
     (case ext_update (Update ExternalPluginErrors [mf_Name (xp_manifest p), reason] OpInc) p of
        None \<Rightarrow> (PPanic, p, r)
      | Some p1 \<Rightarrow> (applyOnError p1, p1, r))"

definition inject_headers :: "(string \<times> string) list \<Rightarrow> request \<Rightarrow> request" where
  "inject_headers hs r = r\<lparr>rq_Header := fold (\<lambda>(k, v). h_Set k v) hs (rq_Header r)\<rparr>"

text \<open>From the reply at time \<open>t\<close> on.\<close>

definition ext_reply :: "sidecar \<Rightarrow> ExternalPlugin \<Rightarrow> request \<Rightarrow> gotime \<Rightarrow> http_reply \<Rightarrow> plugin_outcome \<times> ExternalPlugin \<times> request" where
  "ext_reply sc p r t reply =
     (case reply of
        CallFailed \<Rightarrow> count_error ''call_error'' (p\<lparr>xp_cb := cb_failure t (xp_cb p)\<rparr>) r
      | HttpReply status rbody \<Rightarrow>
          if status \<noteq> 200 then count_error ''non_200'' (p\<lparr>xp_cb := cb_failure t (xp_cb p)\<rparr>) r
          else let p1 = p\<lparr>xp_cb := cb_success (xp_cb p)\<rparr>
               in case sc_decode sc rbody of
                    None \<Rightarrow> (applyOnError p1, p1, r)
                  | Some resp \<Rightarrow>
                      let r1 = inject_headers (ps_AddHeaders resp) r
                      in if ps_Action resp = ''abort''
                         then (PAbort (if ps_StatusCode resp = 0 then 403 else ps_StatusCode resp) (ps_Message resp), p1, r1)
                         else (PNil, p1, r1))"

definition ext_execute ::
  "sidecar \<Rightarrow> gotime \<Rightarrow> string \<Rightarrow> ExternalPlugin \<Rightarrow> request \<Rightarrow> plugin_outcome \<times> ExternalPlugin \<times> request" where
  "ext_execute sc now path p r =
     (let (ok, cb1) = cb_allow now (xp_cb p);
          p1 = p\<lparr>xp_cb := cb1\<rparr>
      in if \<not> ok then count_error ''circuit_open'' p1 r
         else case sc_marshal sc (buildPayload p1 r) of
           None \<Rightarrow> (applyOnError p1, p1, r)
         | Some body \<Rightarrow>
             if \<not> sc_urlOk sc (xp_addr p1 @ path) then (applyOnError p1, p1, r)
             else let (reply, t) = sc_post sc (xp_addr p1 @ path) body now
                  in case ext_update (Update ExternalPluginLatency [mf_Name (xp_manifest p1)] (OpObserve (dur_Seconds (t - now)))) p1 of
                       None \<Rightarrow> (PPanic, p1, r)
                     | Some p2 \<Rightarrow> ext_reply sc p2 r t reply)"

text \<open>
  The plugin in a chain; the exchange carries the state of every external plugin, by name, and
  the clock of the calls.
\<close>

record 'l ext_exchange = "'l limited" +
  xx_plugins :: "string \<Rightarrow> ExternalPlugin"
  xx_now :: gotime

definition ext_phase ::
  "sidecar \<Rightarrow> string \<Rightarrow> string \<Rightarrow> ('l, 'z) ext_exchange_scheme \<Rightarrow> plugin_outcome \<times> ('l, 'z) ext_exchange_scheme" where
  "ext_phase sc path name x =
     (let (out, p, r) = ext_execute sc (xx_now x) path (xx_plugins x name) (ex_r x)
      in (out, x\<lparr>ex_r := r, xx_plugins := (xx_plugins x)(name := p)\<rparr>))"

definition ext_plugin :: "sidecar \<Rightarrow> string \<Rightarrow> ('l, 'z) ext_exchange_scheme plugin" where
  "ext_plugin sc name =
     \<lparr>pl_Name = name, pl_Request = ext_phase sc ''/execute/request'' name,
      pl_Response = ext_phase sc ''/execute/response'' name, pl_Close = None\<rparr>"

record PluginInfo =
  pi_Name :: string
  pi_Version :: string
  pi_SDKMajor :: int
  pi_Address :: string
  pi_OnError :: string
  pi_TimeoutMs :: int
  pi_CircuitState :: string

definition ext_Info :: "ExternalPlugin \<Rightarrow> PluginInfo" where
  "ext_Info p = \<lparr>pi_Name = mf_Name (xp_manifest p), pi_Version = mf_Version (xp_manifest p),
     pi_SDKMajor = mf_SDKMajorVersion (xp_manifest p), pi_Address = xp_addr p, pi_OnError = xp_onError p,
     pi_TimeoutMs = go_div (xp_timeout p) millisecond, pi_CircuitState = state_String (cb_State (xp_cb p))\<rparr>"

subsection \<open>The loader\<close>

datatype load_failure = ManifestFetch | SDKMismatch int | Unhealthy

definition fetchManifest :: "sidecar \<Rightarrow> string \<Rightarrow> Manifest option" where
  "fetchManifest sc addr =
     (if \<not> sc_urlOk sc (addr @ ''/manifest'') then None
      else case sc_get sc (addr @ ''/manifest'') of
             CallFailed \<Rightarrow> None
           | HttpReply status body \<Rightarrow> if status \<noteq> 200 then None else sc_decodeManifest sc body)"

definition checkHealth :: "sidecar \<Rightarrow> string \<Rightarrow> string \<Rightarrow> bool" where
  "checkHealth sc addr path =
     (sc_urlOk sc (addr @ path) \<and>
      (case sc_get sc (addr @ path) of CallFailed \<Rightarrow> False | HttpReply status body \<Rightarrow> status = 200))"

definition ext_Load ::
  "sidecar \<Rightarrow> ExternalPluginConfig \<Rightarrow> (string \<rightharpoonup> yval) \<Rightarrow> bool \<Rightarrow> load_failure + ExternalPlugin" where
  "ext_Load sc cfg pluginCfg withMetrics =
     (let timeout = (if ep_Timeout cfg \<le> 0 then 50 * millisecond else ep_Timeout cfg);
          onError = (if ep_OnError cfg = [] then ''pass'' else ep_OnError cfg);
          healthPath = (if ep_HealthPath cfg = [] then ''/healthz'' else ep_HealthPath cfg);
          httpAddr = (if is_unix (ep_Address cfg) then ''http://plugin'' else ep_Address cfg)
      in case fetchManifest sc httpAddr of
           None \<Rightarrow> Inl ManifestFetch
         | Some manifest \<Rightarrow>
             if mf_SDKMajorVersion manifest \<noteq> SDKMajorVersion then Inl (SDKMismatch (mf_SDKMajorVersion manifest))
             else if \<not> checkHealth sc httpAddr healthPath then Inl Unhealthy
             else Inr \<lparr>xp_manifest = manifest, xp_addr = httpAddr, xp_cfg = pluginCfg, xp_timeout = timeout,
                       xp_onError = onError,
                       xp_cb = new_cb \<lparr>failure_threshold = 3, success_threshold = 2, reset_timeout = 30 * second\<rparr> False,
                       xp_metrics = (if withMetrics
                         then Some [Update ExternalPluginHealth [mf_Name manifest] (OpSet (Fin 1))] else None)\<rparr>)"

text \<open>\<open>buildClient\<close>: the socket path to dial, if any, and the client's timeout.\<close>

definition buildClient :: "string \<Rightarrow> duration \<Rightarrow> string option \<times> duration" where
  "buildClient addr timeout =
     (if is_unix addr then Some (drop 7 addr) else None, timeout + 5 * millisecond)"

subsection \<open>The health checker\<close>

text \<open>One tick of \<open>runFor\<close> at a given time; the interval and the path are constants of the code.\<close>

abbreviation plugin_health_interval :: duration where "plugin_health_interval \<equiv> 10 * second"

text \<open>The breaker's side of a tick.\<close>

definition health_tick :: "sidecar \<Rightarrow> gotime \<Rightarrow> ExternalPlugin \<Rightarrow> ExternalPlugin" where
  "health_tick sc now p =
     (if checkHealth sc (xp_addr p) ''/healthz'' then p\<lparr>xp_cb := cb_success (xp_cb p)\<rparr>
      else p\<lparr>xp_cb := cb_failure now (xp_cb p)\<rparr>)"

datatype health_event = HealthDone | HealthTick gotime

fun health_runFor :: "sidecar \<Rightarrow> health_event list \<Rightarrow> ExternalPlugin \<Rightarrow> ExternalPlugin" where
  "health_runFor sc [] p = p"
| "health_runFor sc (HealthDone # es) p = p"
| "health_runFor sc (HealthTick now # es) p = health_runFor sc es (health_tick sc now p)"

text \<open>
  The checker with its metrics: goroutine \<open>i\<close> of \<open>StartAll\<close> ticks for plugin \<open>i\<close>. A panic in a
  goroutine ends the process.
\<close>

record PluginHealthChecker =
  ph_plugins :: "ExternalPlugin list"
  ph_metrics :: "metric_update list option"

definition NewPluginHealthChecker :: "ExternalPlugin list \<Rightarrow> bool \<Rightarrow> PluginHealthChecker" where
  "NewPluginHealthChecker plugins withMetrics =
     \<lparr>ph_plugins = plugins, ph_metrics = (if withMetrics then Some [] else None)\<rparr>"

definition checker_tick :: "(nat \<Rightarrow> sidecar) \<Rightarrow> nat \<times> gotime \<Rightarrow> PluginHealthChecker \<Rightarrow> PluginHealthChecker go" where
  "checker_tick sc tick h =
     (let (i, now) = tick; p = ph_plugins h ! i;
          h1 = h\<lparr>ph_plugins := (ph_plugins h)[i := health_tick (sc i) now p]\<rparr>;
          ok = checkHealth (sc i) (xp_addr p) ''/healthz''
      in case ph_metrics h of
           None \<Rightarrow> Panic
         | Some ms \<Rightarrow> Ret (h1\<lparr>ph_metrics := Some (ms @
             [Update ExternalPluginHealth [mf_Name (xp_manifest p)] (OpSet (if ok then Fin 1 else Fin 0))])\<rparr>))"

text \<open>The goroutines of \<open>StartAll\<close>: their ticks in the order they happen.\<close>

fun ph_StartAll :: "(nat \<Rightarrow> sidecar) \<Rightarrow> (nat \<times> gotime) list \<Rightarrow> PluginHealthChecker \<Rightarrow> PluginHealthChecker go" where
  "ph_StartAll sc [] h = Ret h"
| "ph_StartAll sc (tick # ticks) h =
     (if fst tick < length (ph_plugins h) then go_bind (checker_tick sc tick h) (ph_StartAll sc ticks)
      else ph_StartAll sc ticks h)"

subsection \<open>What loading guarantees\<close>

lemma ext_LoadE:
  assumes "ext_Load sc cfg pcfg withMetrics = Inr p"
  shows "mf_SDKMajorVersion (xp_manifest p) = SDKMajorVersion" and "fetchManifest sc (xp_addr p) = Some (xp_manifest p)"
    and "checkHealth sc (xp_addr p) (if ep_HealthPath cfg = [] then ''/healthz'' else ep_HealthPath cfg)"
    and "xp_cb p = new_cb \<lparr>failure_threshold = 3, success_threshold = 2, reset_timeout = 30 * second\<rparr> False"
    and "0 < xp_timeout p" and "xp_onError p \<noteq> []"
  using assms by (auto simp: ext_Load_def Let_def split: option.splits if_splits)

text \<open>
  A plugin is admitted only if its sidecar serves a manifest of this SDK's major version
  and is healthy at the configured path; it starts with a closed breaker, a positive
  timeout and an error policy.
\<close>

theorem Load_checks:
  assumes "ext_Load sc cfg pcfg withMetrics = Inr p"
  shows "(\<exists>body. sc_get sc (xp_addr p @ ''/manifest'') = HttpReply 200 body \<and> sc_decodeManifest sc body = Some (xp_manifest p))
    \<and> mf_SDKMajorVersion (xp_manifest p) = SDKMajorVersion
    \<and> (\<exists>body. sc_get sc (xp_addr p @ (if ep_HealthPath cfg = [] then ''/healthz'' else ep_HealthPath cfg)) = HttpReply 200 body)
    \<and> cb_State (xp_cb p) = StateClosed \<and> 0 < xp_timeout p \<and> xp_onError p \<noteq> []"
  using ext_LoadE [OF assms]
  by (auto simp: fetchManifest_def checkHealth_def cb_State_def new_cb_def split: if_splits http_reply.splits)

text \<open>A sidecar that answers its health check at \<open>/status\<close> only.\<close>

definition sample_manifest :: Manifest where
  "sample_manifest = \<lparr>mf_Name = ''auth'', mf_Version = ''1.0.0'', mf_SDKMajorVersion = 1, mf_Description = [], mf_Author = []\<rparr>"

definition sample_sidecar :: "(string \<Rightarrow> PluginResponse option) \<Rightarrow> http_reply \<Rightarrow> sidecar" where
  "sample_sidecar dec reply = \<lparr>sc_marshal = (\<lambda>_. Some []), sc_urlOk = (\<lambda>_. True),
     sc_post = (\<lambda>url body t. (reply, t)),
     sc_get = (\<lambda>url. if url = ''http://p/manifest'' \<or> url = ''http://p/status'' then HttpReply 200 [] else HttpReply 404 []),
     sc_decode = dec, sc_decodeManifest = (\<lambda>_. Some sample_manifest)\<rparr>"

definition sample_ext_cfg :: "string \<Rightarrow> ExternalPluginConfig" where
  "sample_ext_cfg policy = \<lparr>ep_Name = ''auth'', ep_Address = ''http://p'', ep_Timeout = 0, ep_OnError = policy,
     ep_HealthPath = ''/status'', ep_HealthInterval = 0\<rparr>"

definition sample_ext :: ExternalPlugin where
  "sample_ext = \<lparr>xp_manifest = sample_manifest, xp_addr = ''http://p'', xp_cfg = Map.empty, xp_timeout = 50 * millisecond,
     xp_onError = ''pass'', xp_cb = new_cb \<lparr>failure_threshold = 3, success_threshold = 2, reset_timeout = 30 * second\<rparr> False,
     xp_metrics = Some []\<rparr>"

lemma sample_loaded: "\<exists>p. ext_Load (sample_sidecar dec reply) (sample_ext_cfg policy) Map.empty True = Inr p
    \<and> xp_addr p = ''http://p'' \<and> (policy \<noteq> [] \<longrightarrow> xp_onError p = policy) \<and> xp_metrics p \<noteq> None"
  by (simp add: ext_Load_def sample_sidecar_def sample_ext_cfg_def is_unix_def fetchManifest_def checkHealth_def
      sample_manifest_def Let_def)

theorem Load_checks_witness:
  "\<exists>p. ext_Load (sample_sidecar (\<lambda>_. None) CallFailed) (sample_ext_cfg []) Map.empty True = Inr p
    \<and> mf_SDKMajorVersion (xp_manifest p) = SDKMajorVersion"
  using sample_loaded [of "\<lambda>_. None" CallFailed "[]"] Load_checks by blast

subsection \<open>Health checks and the breaker\<close>

lemma failing_ticks:
  "\<not> checkHealth sc (xp_addr p) ''/healthz'' \<Longrightarrow> failure_threshold (cb_cfg (xp_cb p)) = 3 \<Longrightarrow>
    cb_st (xp_cb p) = StateOpen \<or> (cb_st (xp_cb p) = StateClosed \<and> 3 \<le> cb_fails (xp_cb p) + int (length ts)) \<Longrightarrow>
    cb_fails (xp_cb p) < 3 \<or> cb_st (xp_cb p) = StateOpen \<Longrightarrow>
    cb_st (xp_cb (health_runFor sc (map HealthTick ts) p)) = StateOpen"
proof (induction ts arbitrary: p)
  case (Cons t ts)
  let ?p = "health_tick sc t p"
  have p: "?p = p\<lparr>xp_cb := cb_failure t (xp_cb p)\<rparr>" using Cons.prems(1) by (simp add: health_tick_def)
  have "cb_st (xp_cb (health_runFor sc (map HealthTick ts) ?p)) = StateOpen"
  proof (rule Cons.IH)
    show "\<not> checkHealth sc (xp_addr ?p) ''/healthz''" "failure_threshold (cb_cfg (xp_cb ?p)) = 3"
      using Cons.prems(1,2) cb_step_frame(1) [of "Failure t" "xp_cb p"] by (simp_all add: p)
    show "cb_st (xp_cb ?p) = StateOpen \<or> (cb_st (xp_cb ?p) = StateClosed \<and> 3 \<le> cb_fails (xp_cb ?p) + int (length ts))"
      "cb_fails (xp_cb ?p) < 3 \<or> cb_st (xp_cb ?p) = StateOpen"
      using Cons.prems(2-4) by (auto simp: p cb_failure_def transition_def Let_def split: cb_state.splits)
  qed
  then show ?case by simp
qed auto

text \<open>
  The background checks use \<open>/healthz\<close> whatever path is configured: a plugin that loaded
  with another health path and does not serve \<open>/healthz\<close> has its breaker open after three
  ticks, thirty seconds, however healthy it is, and every request gets the error policy.
\<close>

theorem custom_health_path_opens_breaker:
  assumes "ext_Load sc cfg pcfg withMetrics = Inr p" and "\<not> checkHealth sc (xp_addr p) ''/healthz''" and "3 \<le> length ts"
  shows "cb_State (xp_cb (health_runFor sc (map HealthTick ts) p)) = StateOpen"
  unfolding cb_State_def
proof (rule failing_ticks [OF assms(2)])
  show "failure_threshold (cb_cfg (xp_cb p)) = 3" "cb_fails (xp_cb p) < 3 \<or> cb_st (xp_cb p) = StateOpen"
    "cb_st (xp_cb p) = StateOpen \<or> (cb_st (xp_cb p) = StateClosed \<and> 3 \<le> cb_fails (xp_cb p) + int (length ts))"
    using ext_LoadE(4) [OF assms(1)] assms(3) by (simp_all add: new_cb_def with_defaults_def Let_def)
qed

theorem custom_health_path_opens_breaker_witness:
  "\<exists>p. ext_Load (sample_sidecar (\<lambda>_. None) CallFailed) (sample_ext_cfg []) Map.empty True = Inr p
    \<and> cb_State (xp_cb (health_runFor (sample_sidecar (\<lambda>_. None) CallFailed)
        (map HealthTick [10 * second, 20 * second, 30 * second]) p)) = StateOpen"
proof -
  obtain p where p: "ext_Load (sample_sidecar (\<lambda>_. None) CallFailed) (sample_ext_cfg []) Map.empty True = Inr p"
    "xp_addr p = ''http://p''" using sample_loaded by blast
  have "\<not> checkHealth (sample_sidecar (\<lambda>_. None) CallFailed) (xp_addr p) ''/healthz''"
    by (simp add: p(2) checkHealth_def sample_sidecar_def)
  from custom_health_path_opens_breaker [OF p(1) this, of "[10 * second, 20 * second, 30 * second]"] p(1)
  show ?thesis by auto
qed

text \<open>
  Unlike the breaker alone, an external plugin recovers: after an open breaker's reset
  timeout one call answered 200 and one healthy background check close it again, because
  the check reports its success past the half-open gate.
\<close>

theorem ext_breaker_recovers:
  assumes "cb_State (xp_cb p) = StateOpen" and "success_threshold (cb_cfg (xp_cb p)) = 2"
    and "reset_timeout (cb_cfg (xp_cb p)) \<le> now - cb_opened_at (xp_cb p)"
    and "sc_marshal sc (buildPayload (p\<lparr>xp_cb := snd (cb_allow now (xp_cb p))\<rparr>) r) = Some body"
    and "sc_urlOk sc (xp_addr p @ path)" and "fst (sc_post sc (xp_addr p @ path) body now) = HttpReply 200 rbody"
    and "checkHealth sc (xp_addr p) ''/healthz''" and "xp_metrics p \<noteq> None"
  shows "cb_State (xp_cb (health_tick sc later (fst (snd (ext_execute sc now path p r))))) = StateClosed"
proof -
  obtain t where post: "sc_post sc (xp_addr p @ path) body now = (HttpReply 200 rbody, t)"
    using assms(6) by (metis prod.collapse)
  have a: "cb_allow now (xp_cb p) = (True, transition StateHalfOpen (xp_cb p))"
    using assms(1,3) by (simp add: cb_allow_def cb_State_def)
  obtain ms where ms: "xp_metrics p = Some ms" using assms(8) by blast
  have e: "\<exists>ms'. fst (snd (ext_execute sc now path p r)) = p\<lparr>xp_metrics := ms', xp_cb := cb_success (transition StateHalfOpen (xp_cb p))\<rparr>"
    using a assms(4,5) post ms by (auto simp: ext_execute_def ext_reply_def ext_update_def Let_def split: option.split)
  obtain ms' where e: "fst (snd (ext_execute sc now path p r)) = p\<lparr>xp_metrics := ms', xp_cb := cb_success (transition StateHalfOpen (xp_cb p))\<rparr>"
    using e by blast
  show ?thesis unfolding e
    using assms(2,7) by (simp add: health_tick_def cb_success_def transition_def Let_def cb_State_def)
qed


theorem ext_breaker_recovers_witness:
  "\<exists>p. cb_State (xp_cb p) = StateOpen
    \<and> cb_State (xp_cb (health_tick (sample_sidecar (\<lambda>_. None) (HttpReply 200 [])\<lparr>sc_get := \<lambda>_. HttpReply 200 []\<rparr>) 41
        (fst (snd (ext_execute (sample_sidecar (\<lambda>_. None) (HttpReply 200 [])\<lparr>sc_get := \<lambda>_. HttpReply 200 []\<rparr>)
          40 ''/execute/request'' p r))))) = StateClosed"
proof -
  let ?sc = "sample_sidecar (\<lambda>_. None) (HttpReply 200 [])\<lparr>sc_get := \<lambda>_. HttpReply 200 []\<rparr>"
  let ?cb = "(new_cb \<lparr>failure_threshold = 3, success_threshold = 2, reset_timeout = 30\<rparr> False)\<lparr>cb_st := StateOpen\<rparr>"
  let ?p = "\<lparr>xp_manifest = sample_manifest, xp_addr = ''http://p'', xp_cfg = Map.empty, xp_timeout = 1,
     xp_onError = ''pass'', xp_cb = ?cb, xp_metrics = Some []\<rparr>"
  have c: "with_defaults \<lparr>failure_threshold = 3, success_threshold = 2, reset_timeout = 30\<rparr>
      = \<lparr>failure_threshold = 3, success_threshold = 2, reset_timeout = 30\<rparr>"
    by (simp add: with_defaults_def Let_def)
  have o: "cb_State (xp_cb ?p) = StateOpen" by (simp add: cb_State_def)
  have "cb_State (xp_cb (health_tick ?sc 41 (fst (snd (ext_execute ?sc 40 ''/execute/request'' ?p r))))) = StateClosed"
    by (rule ext_breaker_recovers [OF o, where body = "[]" and rbody = "[]"])
      (simp_all add: new_cb_def c sample_sidecar_def checkHealth_def)
  with o show ?thesis by blast
qed

subsection \<open>The error policy\<close>

text \<open>The ways a call yields no decision.\<close>

definition undecided :: "sidecar \<Rightarrow> gotime \<Rightarrow> string \<Rightarrow> ExternalPlugin \<Rightarrow> request \<Rightarrow> bool" where
  "undecided sc now path p r =
     (\<not> fst (cb_allow now (xp_cb p))
      \<or> (case sc_marshal sc (buildPayload p r) of None \<Rightarrow> True
         | Some body \<Rightarrow> \<not> sc_urlOk sc (xp_addr p @ path)
             \<or> (case fst (sc_post sc (xp_addr p @ path) body now) of CallFailed \<Rightarrow> True
                | HttpReply status rbody \<Rightarrow> status \<noteq> 200 \<or> sc_decode sc rbody = None)))"

lemma buildPayload_cb [simp]: "buildPayload (p\<lparr>xp_cb := c\<rparr>) r = buildPayload p r"
  by (simp add: buildPayload_def Let_def split: option.split)

lemma applyOnError_frame [simp]:
  "applyOnError (p\<lparr>xp_cb := c\<rparr>) = applyOnError p" "applyOnError (p\<lparr>xp_metrics := ms\<rparr>) = applyOnError p"
  by (simp_all add: applyOnError_def)

lemma count_error_policy:
  "xp_metrics p \<noteq> None \<Longrightarrow> fst (count_error reason p r) = applyOnError p \<and> snd (snd (count_error reason p r)) = r"
  by (auto simp: count_error_def ext_update_def)

lemma undecided_policy:
  assumes "undecided sc now path p r" and "xp_metrics p \<noteq> None"
  shows "fst (ext_execute sc now path p r) = applyOnError p" and "snd (snd (ext_execute sc now path p r)) = r"
  using assms
  by (auto simp: ext_execute_def ext_reply_def ext_update_def undecided_def Let_def count_error_policy
      split: prod.splits option.splits http_reply.splits)

text \<open>
  C31: Whenever a plugin gives no decision (open breaker, failed call, a status other than 200,
  an undecodable body) the request is untouched and the configured policy decides:
  \<open>reject\<close> and \<open>circuit-break\<close> answer 502, and every other text, a misspelt one too, lets
  the request through.
\<close>

theorem undecided_policy_decides:
  assumes "undecided sc now path p r" and "xp_metrics p \<noteq> None"
  shows "snd (snd (ext_execute sc now path p r)) = r
    \<and> (if xp_onError p = ''reject'' \<or> xp_onError p = ''circuit-break''
       then \<exists>msg. fst (ext_execute sc now path p r) = PAbort 502 msg
       else fst (ext_execute sc now path p r) = PNil)"
  using undecided_policy [OF assms] by (auto simp: applyOnError_def)

theorem undecided_policy_decides_witness:
  "\<exists>p. ext_Load (sample_sidecar (\<lambda>_. None) CallFailed) (sample_ext_cfg ''Reject'') Map.empty True = Inr p
    \<and> fst (ext_execute (sample_sidecar (\<lambda>_. None) CallFailed) 0 ''/execute/request'' p sample_request) = PNil"
proof -
  obtain p where p: "ext_Load (sample_sidecar (\<lambda>_. None) CallFailed) (sample_ext_cfg ''Reject'') Map.empty True = Inr p"
    "xp_onError p = ''Reject''" "xp_metrics p \<noteq> None" using sample_loaded [of "\<lambda>_. None" CallFailed "''Reject''"] by blast
  have "undecided (sample_sidecar (\<lambda>_. None) CallFailed) 0 ''/execute/request'' p sample_request"
    by (simp add: undecided_def sample_sidecar_def)
  from undecided_policy_decides [OF this p(3)] p show ?thesis by auto
qed

subsection \<open>The gateway and the SDK\<close>

text \<open>What the gateway's client reads of a reply of the SDK's server.\<close>

definition sdk_answer :: "sdk_codec \<Rightarrow> PluginServer \<Rightarrow> string \<Rightarrow> string \<Rightarrow> string \<Rightarrow> http_reply" where
  "sdk_answer cd s method path body =
     (case sdk_serve cd s method path body of
        Panic \<Rightarrow> CallFailed
      | Ret w \<Rightarrow> (case response w of (status, _, b) \<Rightarrow> HttpReply status b))"

abbreviation sdk_reply :: "sdk_codec \<Rightarrow> Manifest \<Rightarrow> sdk_handler \<Rightarrow> string \<Rightarrow> string \<Rightarrow> http_reply" where
  "sdk_reply cd m h \<equiv> sdk_answer cd (NewPluginServer m h) ''POST''"

lemma sdk_execute_reply:
  assumes "sd_decodePayload cd body = Some payload"
  shows "sdk_reply cd m h ''/execute/request'' body = HttpReply 200 (sd_encodeResponse cd (sh_OnRequest h payload))"
  using assms
  by (simp add: sdk_answer_def sdk_serve_def NewPluginServer_def sdk_handleExecuteRequest_def sdk_handleExecute_def rw_Write_def rw_map_def new_rw_def response_def
      bodyAllowed_def Let_def)

text \<open>
  C30: With a plugin built on the SDK, and JSON codings of the two sides that undo each other
  on the values at hand, the plugin's decision is what its handler returned for the
  request's payload: the request goes on unless the action is \<open>abort\<close>, and the breaker counts a
  success. The requested headers are set either way, although the contract
  (\<open>sdk/plugin/v1/contract.go\<close>) says that they are only used when the action is \<open>continue\<close>.
\<close>

theorem sdk_decision_reaches_gateway:
  assumes "fst (cb_allow now (xp_cb p))" and "sc_marshal sc (buildPayload p r) = Some body"
    and "sc_urlOk sc (xp_addr p @ ''/execute/request'')"
    and server: "fst (sc_post sc (xp_addr p @ ''/execute/request'') body now) = sdk_reply cd m h ''/execute/request'' body"
    and decode_payload: "sd_decodePayload cd body = Some (buildPayload p r)"
    and decode_response: "sc_decode sc (sd_encodeResponse cd (sh_OnRequest h (buildPayload p r))) = Some resp"
    and resp: "resp = sh_OnRequest h (buildPayload p r)" and metrics: "xp_metrics p = Some ms"
  shows "ext_execute sc now ''/execute/request'' p r =
    (if ps_Action resp = ''abort'' then PAbort (if ps_StatusCode resp = 0 then 403 else ps_StatusCode resp) (ps_Message resp)
     else PNil,
     p\<lparr>xp_metrics := Some (ms @ [Update ExternalPluginLatency [mf_Name (xp_manifest p)]
           (OpObserve (dur_Seconds (snd (sc_post sc (xp_addr p @ ''/execute/request'') body now) - now)))]),
       xp_cb := cb_success (snd (cb_allow now (xp_cb p)))\<rparr>, inject_headers (ps_AddHeaders resp) r)"
proof -
  obtain t where "sc_post sc (xp_addr p @ ''/execute/request'') body now
      = (HttpReply 200 (sd_encodeResponse cd (sh_OnRequest h (buildPayload p r))), t)"
    using server sdk_execute_reply [OF decode_payload] by (metis prod.collapse)
  moreover obtain cb1 where "cb_allow now (xp_cb p) = (True, cb1)" using assms(1) by (metis prod.collapse)
  ultimately show ?thesis
    using assms(2,3) decode_response resp metrics by (simp add: ext_execute_def ext_reply_def ext_update_def Let_def)
qed

theorem sdk_decision_reaches_gateway_witness:
  "\<exists>sc p. fst (ext_execute sc 0 ''/execute/request'' p sample_request) = PAbort 403 ''no''"
proof -
  let ?resp = "\<lparr>ps_Action = ''abort'', ps_StatusCode = 0, ps_Message = ''no'', ps_AddHeaders = []\<rparr>"
  let ?h = "\<lparr>sh_OnRequest = \<lambda>_. ?resp, sh_OnResponse = \<lambda>_. ?resp\<rparr>"
  let ?p = "\<lparr>xp_manifest = sample_manifest, xp_addr = ''http://p'', xp_cfg = Map.empty, xp_timeout = 1,
     xp_onError = ''pass'', xp_cb = new_cb \<lparr>failure_threshold = 3, success_threshold = 2, reset_timeout = 30\<rparr> False,
     xp_metrics = Some []\<rparr>"
  let ?cd = "\<lparr>sd_encodeManifest = \<lambda>_. [], sd_decodePayload = \<lambda>_. Some (buildPayload ?p sample_request), sd_encodeResponse = \<lambda>_. ''a''\<rparr>"
  let ?sc = "sample_sidecar (\<lambda>_. Some ?resp) (HttpReply 200 ''a'')"
  have "fst (cb_allow 0 (xp_cb ?p))" by (simp add: cb_allow_def new_cb_def)
  from sdk_decision_reaches_gateway [OF this, where sc = ?sc and r = sample_request and body = "[]" and cd = ?cd and h = ?h
      and m = sample_manifest and resp = ?resp and ms = "[]"]
  have "fst (ext_execute ?sc 0 ''/execute/request'' ?p sample_request) = PAbort 403 ''no''"
    by (simp add: sdk_execute_reply sample_sidecar_def)
  then show ?thesis by blast
qed

subsection \<open>Metrics\<close>

lemma ext_update_emits: "ext_update m p = Some p' \<Longrightarrow> well_typed m \<Longrightarrow> emits_typed (xp_metrics p) (xp_metrics p')"
  by (auto simp: ext_update_def emits_typed_append)

lemma count_error_emits [simp]: "emits_typed (xp_metrics p) (xp_metrics (fst (snd (count_error reason p r))))"
  by (auto simp: count_error_def split: option.split dest: ext_update_emits)

lemma ext_reply_emits: "emits_typed (xp_metrics p) (xp_metrics (fst (snd (ext_reply sc p r t reply))))"
proof -
  have "emits_typed (xp_metrics p) (xp_metrics (fst (snd (count_error reason (p\<lparr>xp_cb := c\<rparr>) r))))" for reason c
    using count_error_emits [of "p\<lparr>xp_cb := c\<rparr>"] by simp
  then show ?thesis by (auto simp: ext_reply_def Let_def split: http_reply.split option.split)
qed

lemma ext_execute_emits: "emits_typed (xp_metrics p) (xp_metrics (fst (snd (ext_execute sc now path p r))))"
proof -
  obtain ok cb1 where cb: "cb_allow now (xp_cb p) = (ok, cb1)" by fastforce
  let ?p = "p\<lparr>xp_cb := cb1\<rparr>"
  have refused: "emits_typed (xp_metrics p) (xp_metrics (fst (snd (count_error reason ?p r))))" for reason
    using count_error_emits [of ?p] by simp
  have called: "emits_typed (xp_metrics p) (xp_metrics (fst (snd (ext_reply sc p2 r t reply))))"
    if "ext_update (Update ExternalPluginLatency [name] (OpObserve v)) ?p = Some p2" for p2 t reply name v
    using emits_typed_trans [OF ext_update_emits [OF that] ext_reply_emits] by simp
  show ?thesis
    using refused called by (auto simp: ext_execute_def cb Let_def split: prod.split option.split)
qed

lemma ext_Load_emits:
  "ext_Load sc cfg pcfg withMetrics = Inr p \<Longrightarrow> emits_typed (if withMetrics then Some [] else None) (xp_metrics p)"
  by (auto simp: ext_Load_def emits_typed_def Let_def split: option.splits if_splits)

lemma checker_tick_emits: "checker_tick sc tick h = Ret h' \<Longrightarrow> emits_typed (ph_metrics h) (ph_metrics h')"
  by (auto simp: checker_tick_def emits_typed_append Let_def split: prod.splits option.splits)

lemma ph_StartAll_emits: "ph_StartAll sc ticks h = Ret h' \<Longrightarrow> emits_typed (ph_metrics h) (ph_metrics h')"
proof (induction ticks arbitrary: h)
  case (Cons tick ticks)
  show ?case
  proof (cases "fst tick < length (ph_plugins h)")
    case True
    then obtain h1 where "checker_tick sc tick h = Ret h1" "ph_StartAll sc ticks h1 = Ret h'"
      using Cons.prems by (cases "checker_tick sc tick h") auto
    then show ?thesis using Cons.IH emits_typed_trans [OF checker_tick_emits] by blast
  qed (use Cons in simp)
qed simp

text \<open>
  A plugin loaded without metrics, which \<open>Load\<close> allows, cannot be called: every execution that
  reaches the sidecar, and every one the breaker refuses, dereferences the nil pointer; the
  chain's recover turns that into a 500, whatever the error policy says.
\<close>

lemma nil_metrics_panics:
  assumes "ext_Load sc cfg pcfg False = Inr p" and "sc_marshal sc (buildPayload p r) = Some body" and "sc_urlOk sc (xp_addr p @ path)"
  shows "fst (ext_execute sc now path p r) = PPanic"
proof -
  have "xp_metrics p = None" using assms(1) by (auto simp: ext_Load_def Let_def split: option.splits if_splits)
  then show ?thesis using assms(2,3) by (simp add: ext_execute_def count_error_def ext_update_def Let_def split: prod.split)
qed

subsection \<open>The checkers of different plugins\<close>

text \<open>The ticks of plugin \<open>i\<close>.\<close>

definition ticks_of :: "nat \<Rightarrow> (nat \<times> gotime) list \<Rightarrow> health_event list" where
  "ticks_of i ticks = map (\<lambda>(j, now). HealthTick now) (filter (\<lambda>(j, now). j = i) ticks)"

text \<open>
  The background health checks of different plugins do not interfere: however the ticks of
  the goroutines interleave, each plugin is left as its own ticks alone leave it, and none
  panics as long as the checker has metrics.
\<close>

theorem health_checks_isolated:
  assumes "ph_metrics h = Some ms" and "i < length (ph_plugins h)"
  shows "\<exists>h'. ph_StartAll sc ticks h = Ret h' \<and> length (ph_plugins h') = length (ph_plugins h)
    \<and> ph_plugins h' ! i = health_runFor (sc i) (ticks_of i ticks) (ph_plugins h ! i)"
  using assms
proof (induction ticks arbitrary: h ms)
  case (Cons tick ticks)
  obtain j now where t: "tick = (j, now)" by fastforce
  show ?case
  proof (cases "j < length (ph_plugins h)")
    case True
    obtain h1 ms1 where h1: "checker_tick sc tick h = Ret h1" "ph_metrics h1 = Some ms1"
      "ph_plugins h1 = (ph_plugins h)[j := health_tick (sc j) now (ph_plugins h ! j)]"
      using Cons.prems(1) by (simp add: checker_tick_def t Let_def)
    then have "i < length (ph_plugins h1)" using Cons.prems(2) by simp
    from Cons.IH [OF h1(2) this] show ?thesis
      using True h1 Cons.prems(2) by (auto simp: t ticks_of_def nth_list_update)
  next
    case False
    then show ?thesis using Cons.IH [OF Cons.prems] Cons.prems(2) by (auto simp: t ticks_of_def)
  qed
qed (simp add: ticks_of_def)

theorem health_checks_isolated_witness:
  "\<exists>p h'. ext_Load (sample_sidecar (\<lambda>_. None) CallFailed) (sample_ext_cfg []) Map.empty True = Inr p
    \<and> ph_StartAll (\<lambda>_. sample_sidecar (\<lambda>_. None) CallFailed) [(0, 10), (1, 11), (0, 20), (5, 21)] (NewPluginHealthChecker [p, p] True) = Ret h'
    \<and> ph_plugins h' ! 1 = health_tick (sample_sidecar (\<lambda>_. None) CallFailed) 11 p"
proof -
  obtain p where p: "ext_Load (sample_sidecar (\<lambda>_. None) CallFailed) (sample_ext_cfg []) Map.empty True = Inr p"
    using sample_loaded by blast
  have "ph_metrics (NewPluginHealthChecker [p, p] True) = Some []" "1 < length (ph_plugins (NewPluginHealthChecker [p, p] True))"
    by (simp_all add: NewPluginHealthChecker_def)
  from health_checks_isolated [OF this, of "\<lambda>_. sample_sidecar (\<lambda>_. None) CallFailed" "[(0, 10), (1, 11), (0, 20), (5, 21)]"]
  obtain h' where h': "ph_StartAll (\<lambda>_. sample_sidecar (\<lambda>_. None) CallFailed) [(0, 10), (1, 11), (0, 20), (5, 21)]
      (NewPluginHealthChecker [p, p] True) = Ret h'"
    and run: "ph_plugins h' ! 1 = health_runFor (sample_sidecar (\<lambda>_. None) CallFailed) (ticks_of 1 [(0, 10), (1, 11), (0, 20), (5, 21)])
      (ph_plugins (NewPluginHealthChecker [p, p] True) ! 1)" by blast
  have "ph_plugins h' ! 1 = health_tick (sample_sidecar (\<lambda>_. None) CallFailed) 11 p"
    unfolding run by (simp add: ticks_of_def NewPluginHealthChecker_def)
  with p h' show ?thesis by blast
qed

subsection \<open>Loading a plugin of the SDK\<close>

lemma rw_reply_ok: "rw_sent w = None \<Longrightarrow> rw_body w = [] \<Longrightarrow>
    \<exists>h. response (rw_Write b (rw_map (h_Set k v) w)) = (200, h, b)"
  by (simp add: rw_Write_def rw_map_def response_def bodyAllowed_def Let_def)

lemma sdk_get_paths:
  "sdk_answer cd s ''GET'' ''/manifest'' [] = HttpReply 200 (sd_encodeManifest cd (psv_manifest s))"
  "\<exists>body. sdk_answer cd s ''GET'' path [] = HttpReply (if path = ''/manifest'' \<or> path = ''/healthz'' then 200
     else if path = ''/execute/request'' \<or> path = ''/execute/response'' then 405 else 404) body"
  by (simp_all add: sdk_answer_def sdk_serve_def sdk_handleManifest_def sdk_handleHealthz_def sdk_handleExecuteRequest_def
      sdk_handleExecuteResponse_def sdk_handleExecute_def http_Error_def WriteHeader_def rw_Write_def rw_map_def new_rw_def
      response_def bodyAllowed_def Let_def)

text \<open>A path that a URL and the mux take as it is: slashes, never two in a row, letters, digits, \<open>-\<close> and \<open>_\<close>.\<close>

definition plain_path :: "string \<Rightarrow> bool" where
  "plain_path path \<longleftrightarrow> path \<noteq> [] \<and> hd path = CHR ''/'' \<and> successively (\<lambda>a b. a \<noteq> CHR ''/'' \<or> b \<noteq> CHR ''/'') path
     \<and> list_all (\<lambda>c. c = CHR ''/'' \<or> c = CHR ''-'' \<or> c = CHR ''_'' \<or> (let n = of_char c :: nat in
          (48 \<le> n \<and> n \<le> 57) \<or> (65 \<le> n \<and> n \<le> 90) \<or> (97 \<le> n \<and> n \<le> 122))) path"

definition health_path :: "ExternalPluginConfig \<Rightarrow> string" where
  "health_path cfg = (if ep_HealthPath cfg = [] then ''/healthz'' else ep_HealthPath cfg)"

text \<open>
  C38: When a sidecar built on the SDK answers the two requests that \<open>Load\<close> makes, for its
  manifest and for the configured health path (a plain one: no query, no dots, no double
  slash), it is admitted exactly when its manifest has the gateway's major version and the SDK
  serves the health path with 200: that is the default \<open>/healthz\<close>, or \<open>/manifest\<close>. The plugin
  then has the manifest its author declared.
\<close>

theorem sdk_plugin_admitted:
  assumes "base = (if is_unix (ep_Address cfg) then ''http://plugin'' else ep_Address cfg)" and "plain_path (health_path cfg)"
    and "\<forall>path \<in> {''/manifest'', health_path cfg}. sc_urlOk sc (base @ path)
          \<and> sc_get sc (base @ path) = sdk_answer cd (NewPluginServer m h) ''GET'' path []"
    and "sc_decodeManifest sc (sd_encodeManifest cd m) = Some m"
  shows "(if mf_SDKMajorVersion m = SDKMajorVersion \<and> health_path cfg \<in> {''/healthz'', ''/manifest''}
      then \<exists>p. ext_Load sc cfg pcfg withMetrics = Inr p \<and> xp_manifest p = m
      else \<exists>e. ext_Load sc cfg pcfg withMetrics = Inl e)"
proof -
  define hp where "hp = health_path cfg"
  have manifest: "fetchManifest sc base = Some m"
    using assms(3,4) sdk_get_paths(1) [of cd "NewPluginServer m h"] by (simp add: fetchManifest_def NewPluginServer_def)
  obtain body where body: "sdk_answer cd (NewPluginServer m h) ''GET'' hp [] = HttpReply (if hp = ''/manifest'' \<or> hp = ''/healthz'' then 200
     else if hp = ''/execute/request'' \<or> hp = ''/execute/response'' then 405 else 404) body"
    using sdk_get_paths(2) by blast
  have get: "sc_urlOk sc (base @ hp)" "sc_get sc (base @ hp) = sdk_answer cd (NewPluginServer m h) ''GET'' hp []"
    using assms(3) by (simp_all add: hp_def)
  have health: "checkHealth sc base hp \<longleftrightarrow> hp = ''/manifest'' \<or> hp = ''/healthz''"
    unfolding checkHealth_def get(2) body using get(1) by simp
  show ?thesis
    using manifest health
    by (auto simp: ext_Load_def assms(1) [symmetric] health_path_def [symmetric] hp_def [symmetric] Let_def)
qed

text \<open>One sidecar, asked for \<open>/healthz\<close> and for a path it does not serve.\<close>

theorem sdk_plugin_admitted_witness:
  "\<exists>sc p e. ext_Load sc ((sample_ext_cfg [])\<lparr>ep_HealthPath := []\<rparr>) Map.empty True = Inr p \<and> xp_manifest p = sample_manifest
    \<and> ext_Load sc ((sample_ext_cfg [])\<lparr>ep_HealthPath := ''/ready''\<rparr>) Map.empty True = Inl e"
proof -
  let ?cd = "\<lparr>sd_encodeManifest = \<lambda>_. ''m'', sd_decodePayload = \<lambda>_. None, sd_encodeResponse = \<lambda>_. []\<rparr>"
  let ?resp = "\<lparr>ps_Action = [], ps_StatusCode = 0, ps_Message = [], ps_AddHeaders = []\<rparr>"
  let ?h = "\<lparr>sh_OnRequest = \<lambda>_. ?resp, sh_OnResponse = \<lambda>_. ?resp\<rparr>"
  let ?sc = "(sample_sidecar (\<lambda>_. None) CallFailed)\<lparr>sc_get := \<lambda>url. sdk_answer ?cd (NewPluginServer sample_manifest ?h) ''GET'' (drop 8 url) []\<rparr>"
  let ?cfg = "\<lambda>hp. (sample_ext_cfg [])\<lparr>ep_HealthPath := hp\<rparr>"
  have base: "''http://p'' = (if is_unix (ep_Address (?cfg hp)) then ''http://plugin'' else ep_Address (?cfg hp))" for hp
    by (simp add: sample_ext_cfg_def is_unix_def)
  have hp: "health_path (?cfg []) = ''/healthz''" "health_path (?cfg ''/ready'') = ''/ready''" by (simp_all add: health_path_def)
  have plain: "plain_path ''/healthz''" "plain_path ''/ready''" by code_simp+
  have served: "\<forall>path \<in> {''/manifest'', health_path (?cfg hp)}. sc_urlOk ?sc (''http://p'' @ path)
          \<and> sc_get ?sc (''http://p'' @ path) = sdk_answer ?cd (NewPluginServer sample_manifest ?h) ''GET'' path []" for hp
    by (simp add: sample_sidecar_def)
  have dec: "sc_decodeManifest ?sc (sd_encodeManifest ?cd sample_manifest) = Some sample_manifest" by (simp add: sample_sidecar_def)
  have "\<exists>p. ext_Load ?sc (?cfg []) Map.empty True = Inr p \<and> xp_manifest p = sample_manifest"
    using sdk_plugin_admitted [OF base _ served dec, of "[]" Map.empty True] by (simp add: hp plain sample_manifest_def)
  moreover have "\<exists>e. ext_Load ?sc (?cfg ''/ready'') Map.empty True = Inl e"
    using sdk_plugin_admitted [OF base _ served dec, of "''/ready''" Map.empty True] by (simp add: hp plain)
  ultimately show ?thesis by blast
qed

text \<open>The client dials where the server listens, for a Unix socket as for TCP.\<close>

lemma same_socket: "fst (buildClient addr timeout) = (if fst (sdk_listen addr) = ''unix'' then Some (snd (sdk_listen addr)) else None)"
  by (simp add: buildClient_def sdk_listen_def)

text \<open>The response phase of an external plugin cannot change the reply at all.\<close>

interpretation quiet_ext: quiet_plugin "ext_plugin sc name" for sc name
  by unfold_locales (simp add: ext_plugin_def ext_phase_def split: prod.split)

end
