(* ===== verification/Router.thy ===== *)
theory Router
  imports Config
begin

section \<open>Routing (\<open>internal/router\<close>)\<close>

text \<open>
  \<open>New\<close> compiles the route configurations into three tables, \<open>Match\<close> looks a request up
  in them. \<open>srt\<close> is \<open>sort.Slice\<close> under its documented contract (the locale
  \<open>slice_sort\<close>), \<open>rx\<close> is \<open>regexp.Compile\<close>. The \<open>exact\<close> map ranges over the method set
  of a route in an unspecified order; its entries have different keys, so the order does not
  matter and the model adds them at once. Routes are shared pointers in the code; they are
  immutable after \<open>New\<close>, so the model copies them.
\<close>

datatype MatchType = MatchExact | MatchPrefix | MatchRegex

record Route =
  rt_ID :: string
  rt_Methods :: "string set"
  rt_MatchType :: MatchType
  rt_Path :: string
  rt_Pattern :: "(string \<Rightarrow> bool) option"
  rt_StripPrefix :: bool
  rt_ServiceName :: string
  rt_Timeout :: int
  rt_MaxBodyBytes :: int
  rt_Plugins :: "PluginRef list"
  rt_pathLen :: nat

record Router =
  ro_exact :: "string \<rightharpoonup> Route"
  ro_prefix :: "Route list"
  ro_regexes :: "Route list"

text \<open>\<open>strings.ToUpper\<close>; methods are ASCII.\<close>

definition to_upper_char :: "char \<Rightarrow> char" where
  "to_upper_char c = (let n = of_char c :: nat in if 97 \<le> n \<and> n \<le> 122 then char_of (n - 32) else c)"

definition ToUpper :: "string \<Rightarrow> string" where
  "ToUpper s = map to_upper_char s"

definition buildRoute ::
  "((PluginRef \<Rightarrow> PluginRef \<Rightarrow> bool) \<Rightarrow> PluginRef list \<Rightarrow> PluginRef list) \<Rightarrow> regex_compiler \<Rightarrow> RouteConfig \<Rightarrow> Route option" where
  "buildRoute srt rx rc =
     (let route = \<lparr>rt_ID = rc_ID rc, rt_Methods = ToUpper ` set (rc_Methods rc), rt_MatchType = MatchPrefix,
            rt_Path = rc_Path rc, rt_Pattern = None, rt_StripPrefix = rc_StripPrefix rc,
            rt_ServiceName = rc_Service rc, rt_Timeout = rc_Timeout rc, rt_MaxBodyBytes = rc_MaxBodyBytes rc,
            rt_Plugins = srt (\<lambda>a b. pr_Order a < pr_Order b) (rc_Plugins rc), rt_pathLen = length (rc_Path rc)\<rparr>
      in if rc_MatchType rc = ''exact'' then Some (route\<lparr>rt_MatchType := MatchExact\<rparr>)
         else if rc_MatchType rc = ''regex'' then
           (case rx (rc_Path rc) of
              None \<Rightarrow> None
            | Some p \<Rightarrow> Some (route\<lparr>rt_MatchType := MatchRegex, rt_Pattern := Some p\<rparr>))
         else Some route)"

definition add_exact :: "Route \<Rightarrow> (string \<rightharpoonup> Route) \<Rightarrow> string \<rightharpoonup> Route" where
  "add_exact route m = (\<lambda>key.
     if (\<exists>method \<in> rt_Methods route. key = method @ '':'' @ rt_Path route)
        \<or> (rt_Methods route = {} \<and> key = '':'' @ rt_Path route)
     then Some route else m key)"

definition add_route :: "Route \<Rightarrow> Router \<Rightarrow> Router" where
  "add_route route r =
     (case rt_MatchType route of
        MatchExact \<Rightarrow> r\<lparr>ro_exact := add_exact route (ro_exact r)\<rparr>
      | MatchPrefix \<Rightarrow> r\<lparr>ro_prefix := ro_prefix r @ [route]\<rparr>
      | MatchRegex \<Rightarrow> r\<lparr>ro_regexes := ro_regexes r @ [route]\<rparr>)"

fun add_routes ::
  "((PluginRef \<Rightarrow> PluginRef \<Rightarrow> bool) \<Rightarrow> PluginRef list \<Rightarrow> PluginRef list) \<Rightarrow> regex_compiler \<Rightarrow> RouteConfig list \<Rightarrow> Router
    \<Rightarrow> Router option" where
  "add_routes srt rx [] r = Some r"
| "add_routes srt rx (rc # rcs) r =
     (case buildRoute srt rx rc of
        None \<Rightarrow> None
      | Some route \<Rightarrow> add_routes srt rx rcs (add_route route r))"

definition router_New ::
  "((PluginRef \<Rightarrow> PluginRef \<Rightarrow> bool) \<Rightarrow> PluginRef list \<Rightarrow> PluginRef list) \<Rightarrow> ((Route \<Rightarrow> Route \<Rightarrow> bool) \<Rightarrow> Route list \<Rightarrow> Route list)
    \<Rightarrow> regex_compiler \<Rightarrow> RouteConfig list \<Rightarrow> Router option" where
  "router_New psrt rsrt rx routes =
     map_option (\<lambda>r. r\<lparr>ro_prefix := rsrt (\<lambda>a b. rt_pathLen a > rt_pathLen b) (ro_prefix r)\<rparr>)
       (add_routes psrt rx routes \<lparr>ro_exact = Map.empty, ro_prefix = [], ro_regexes = []\<rparr>)"

definition methodAllowed :: "Route \<Rightarrow> string \<Rightarrow> bool" where
  "methodAllowed r method \<longleftrightarrow> rt_Methods r = {} \<or> method \<in> rt_Methods r"

definition HasPrefix :: "string \<Rightarrow> string \<Rightarrow> bool" where
  "HasPrefix s p \<longleftrightarrow> length p \<le> length s \<and> take (length p) s = p"

definition pattern_matches :: "Route \<Rightarrow> string \<Rightarrow> bool" where
  "pattern_matches r path = (case rt_Pattern r of Some p \<Rightarrow> p path | None \<Rightarrow> False)"

definition exact_hit :: "Router \<Rightarrow> string \<Rightarrow> string \<Rightarrow> Route option" where
  "exact_hit r key method =
     (case ro_exact r key of Some route \<Rightarrow> if methodAllowed route method then Some route else None | None \<Rightarrow> None)"

definition Match :: "Router \<Rightarrow> string \<Rightarrow> string \<Rightarrow> Route option" where
  "Match r method path =
     (case exact_hit r (method @ '':'' @ path) method of
        Some route \<Rightarrow> Some route
      | None \<Rightarrow>
     (case exact_hit r ('':'' @ path) method of
        Some route \<Rightarrow> Some route
      | None \<Rightarrow>
     (case find (\<lambda>route. HasPrefix path (rt_Path route) \<and> methodAllowed route method) (ro_prefix r) of
        Some route \<Rightarrow> Some route
      | None \<Rightarrow> find (\<lambda>route. pattern_matches route path \<and> methodAllowed route method) (ro_regexes r))))"

subsection \<open>The tables \<open>New\<close> builds\<close>

definition owns_key :: "Route \<Rightarrow> string \<Rightarrow> bool" where
  "owns_key rt key \<longleftrightarrow> (\<exists>method \<in> rt_Methods rt. key = method @ '':'' @ rt_Path rt)
     \<or> (rt_Methods rt = {} \<and> key = '':'' @ rt_Path rt)"

lemma add_routes_fold:
  "add_routes srt rx rcs r = Some r' \<longleftrightarrow>
    (\<exists>rts. list_all2 (\<lambda>rc rt. buildRoute srt rx rc = Some rt) rcs rts \<and> r' = fold add_route rts r)"
proof (induction rcs arbitrary: r)
  case (Cons rc rcs)
  show ?case
  proof (cases "buildRoute srt rx rc")
    case (Some rt)
    then show ?thesis using Cons.IH [of "add_route rt r"] by (fastforce simp: list_all2_Cons1)
  qed (simp add: list_all2_Cons1)
qed auto

lemma fold_prefix: "ro_prefix (fold add_route rts r) = ro_prefix r @ filter (\<lambda>rt. rt_MatchType rt = MatchPrefix) rts"
  by (induction rts arbitrary: r) (auto simp: add_route_def split: MatchType.split)

lemma fold_regexes: "ro_regexes (fold add_route rts r) = ro_regexes r @ filter (\<lambda>rt. rt_MatchType rt = MatchRegex) rts"
  by (induction rts arbitrary: r) (auto simp: add_route_def split: MatchType.split)

lemma fold_exact:
  "ro_exact r = Map.empty \<Longrightarrow>
    ro_exact (fold add_route rts r) key = find (\<lambda>rt. rt_MatchType rt = MatchExact \<and> owns_key rt key) (rev rts)"
proof (induction rts rule: rev_induct)
  case (snoc rt rts)
  have "ro_exact (fold add_route (rts @ [rt]) r) key =
      (if rt_MatchType rt = MatchExact \<and> owns_key rt key then Some rt else ro_exact (fold add_route rts r) key)"
    by (cases "rt_MatchType rt") (simp_all add: add_route_def [of rt] add_exact_def owns_key_def)
  then show ?case by (simp add: snoc)
qed simp

text \<open>The tables of a router, read off its list of routes.\<close>

locale routing = rsort: slice_sort rsrt
  for rsrt :: "(Route \<Rightarrow> Route \<Rightarrow> bool) \<Rightarrow> Route list \<Rightarrow> Route list" +
  fixes psrt :: "(PluginRef \<Rightarrow> PluginRef \<Rightarrow> bool) \<Rightarrow> PluginRef list \<Rightarrow> PluginRef list"
    and rx :: regex_compiler
begin

lemma New_tables:
  assumes "router_New psrt rsrt rx rcs = Some r"
  obtains rts where "list_all2 (\<lambda>rc rt. buildRoute psrt rx rc = Some rt) rcs rts"
    and "ro_prefix r = rsrt (\<lambda>a b. rt_pathLen a > rt_pathLen b) (filter (\<lambda>rt. rt_MatchType rt = MatchPrefix) rts)"
    and "ro_regexes r = filter (\<lambda>rt. rt_MatchType rt = MatchRegex) rts"
    and "\<And>key. ro_exact r key = find (\<lambda>rt. rt_MatchType rt = MatchExact \<and> owns_key rt key) (rev rts)"
proof -
  let ?empty = "\<lparr>ro_exact = Map.empty, ro_prefix = [], ro_regexes = []\<rparr>"
  obtain r0 where r0: "add_routes psrt rx rcs ?empty = Some r0"
    and r: "r = r0\<lparr>ro_prefix := rsrt (\<lambda>a b. rt_pathLen a > rt_pathLen b) (ro_prefix r0)\<rparr>"
    using assms by (auto simp: router_New_def)
  obtain rts where l: "list_all2 (\<lambda>rc rt. buildRoute psrt rx rc = Some rt) rcs rts" and f: "r0 = fold add_route rts ?empty"
    using r0 by (auto simp: add_routes_fold)
  show thesis
    by (rule that [OF l]) (simp_all add: r f fold_prefix fold_regexes fold_exact)
qed

end

subsection \<open>When a route applies\<close>

definition route_applies :: "regex_compiler \<Rightarrow> string \<Rightarrow> string \<Rightarrow> RouteConfig \<Rightarrow> bool" where
  "route_applies rx method path rc \<longleftrightarrow>
     (rc_Methods rc = [] \<or> method \<in> ToUpper ` set (rc_Methods rc))
     \<and> (if rc_MatchType rc = ''exact'' then path = rc_Path rc
        else if rc_MatchType rc = ''regex'' then (\<exists>p. rx (rc_Path rc) = Some p \<and> p path)
        else HasPrefix path (rc_Path rc))"

lemma built_facts:
  assumes "buildRoute psrt rx rc = Some rt"
  shows "rt_Methods rt = ToUpper ` set (rc_Methods rc)" and "rt_Path rt = rc_Path rc"
    and "rt_pathLen rt = length (rc_Path rc)" and "rt_ID rt = rc_ID rc"
    and "rt_MatchType rt = (if rc_MatchType rc = ''exact'' then MatchExact
      else if rc_MatchType rc = ''regex'' then MatchRegex else MatchPrefix)"
    and "rc_MatchType rc = ''regex'' \<Longrightarrow> rt_Pattern rt = rx (rc_Path rc)"
    and "rt_Plugins rt = psrt (\<lambda>a b. pr_Order a < pr_Order b) (rc_Plugins rc)"
  using assms by (auto simp: buildRoute_def Let_def split: if_splits option.splits)

lemma built_applies:
  assumes "buildRoute psrt rx rc = Some rt"
  shows "route_applies rx method path rc \<longleftrightarrow> methodAllowed rt method
    \<and> (case rt_MatchType rt of MatchExact \<Rightarrow> path = rt_Path rt | MatchPrefix \<Rightarrow> HasPrefix path (rt_Path rt)
       | MatchRegex \<Rightarrow> pattern_matches rt path)"
  using built_facts [OF assms]
  by (auto simp: route_applies_def methodAllowed_def pattern_matches_def split: option.split)

lemma owns_specific:
  assumes "CHR '':'' \<notin> set method" and "\<forall>m \<in> rt_Methods rt. CHR '':'' \<notin> set m" and "method \<noteq> []"
  shows "owns_key rt (method @ '':'' @ path) \<longleftrightarrow> method \<in> rt_Methods rt \<and> path = rt_Path rt"
  using assms append_sep_inj [of "CHR '':''" "method" _ path "rt_Path rt"] append_sep_inj [of "CHR '':''" "method" "[]" path "rt_Path rt"]
  by (auto simp: owns_key_def)

lemma owns_wildcard:
  assumes "\<forall>m \<in> rt_Methods rt. CHR '':'' \<notin> set m \<and> m \<noteq> []"
  shows "owns_key rt ('':'' @ path) \<longleftrightarrow> rt_Methods rt = {} \<and> path = rt_Path rt"
  using assms append_sep_inj [of "CHR '':''" "[]" _ path "rt_Path rt"]
  by (auto simp: owns_key_def)

subsection \<open>The best applicable route wins\<close>

text \<open>
  Priority: exact routes that name the method, exact routes for any method, prefix routes
  by length, regex routes.
\<close>

definition rank :: "RouteConfig \<Rightarrow> nat" where
  "rank rc = (if rc_MatchType rc = ''exact'' then (if rc_Methods rc = [] then 2 else 3)
     else if rc_MatchType rc = ''regex'' then 0 else 1)"

definition outranks :: "RouteConfig \<Rightarrow> RouteConfig \<Rightarrow> bool" where
  "outranks a b \<longleftrightarrow> rank b < rank a
     \<or> (rank a = 1 \<and> rank b = 1 \<and> length (rc_Path b) < length (rc_Path a))"

definition plain_method :: "string \<Rightarrow> bool" where
  "plain_method m \<longleftrightarrow> m \<noteq> [] \<and> CHR '':'' \<notin> set m"

lemma plain_ToUpper: "plain_method m \<Longrightarrow> plain_method (ToUpper m)"
proof -
  have up: "to_upper_char c = CHR '':'' \<Longrightarrow> c = CHR '':''" for c
  proof (cases "97 \<le> (of_char c :: nat) \<and> (of_char c :: nat) \<le> 122")
    case True
    assume u: "to_upper_char c = CHR '':''"
    have "(of_char c - 32 :: nat) < 256" using True by linarith
    then have "(of_char (to_upper_char c) :: nat) = of_char c - 32"
      using True by (simp add: to_upper_char_def mod_less)
    then have "(of_char c - 32 :: nat) = 58" using u by simp
    then show ?thesis using True by linarith
  qed (auto simp: to_upper_char_def)
  assume m: "plain_method m"
  have "CHR '':'' \<notin> to_upper_char ` set m"
  proof
    assume "CHR '':'' \<in> to_upper_char ` set m"
    then obtain c where "c \<in> set m" "to_upper_char c = CHR '':''" by (metis imageE)
    then show False using up m by (auto simp: plain_method_def)
  qed
  then show "plain_method (ToUpper m)" using m by (simp add: plain_method_def ToUpper_def)
qed

definition route_rank :: "Route \<Rightarrow> nat" where
  "route_rank rt = (case rt_MatchType rt of MatchExact \<Rightarrow> if rt_Methods rt = {} then 2 else 3
     | MatchPrefix \<Rightarrow> 1 | MatchRegex \<Rightarrow> 0)"

definition rt_applies :: "string \<Rightarrow> string \<Rightarrow> Route \<Rightarrow> bool" where
  "rt_applies method path rt \<longleftrightarrow> methodAllowed rt method
    \<and> (case rt_MatchType rt of MatchExact \<Rightarrow> path = rt_Path rt | MatchPrefix \<Rightarrow> HasPrefix path (rt_Path rt)
       | MatchRegex \<Rightarrow> pattern_matches rt path)"

lemma rank_built: "buildRoute psrt rx rc = Some rt \<Longrightarrow> rank rc = route_rank rt"
  using built_facts [of psrt rx rc rt] by (auto simp: rank_def route_rank_def)

lemma guarded_find:
  "(\<And>x. P x \<Longrightarrow> Q x) \<Longrightarrow> (case find P xs of Some x \<Rightarrow> if Q x then Some x else None | None \<Rightarrow> None) = find P xs"
  by (induction xs) auto

lemma exact_finds:
  assumes ex: "\<And>key. ro_exact r key = find (\<lambda>rt. rt_MatchType rt = MatchExact \<and> owns_key rt key) (rev rts)"
    and plain: "\<forall>rt \<in> set rts. \<forall>m \<in> rt_Methods rt. plain_method m" "plain_method method"
  shows "exact_hit r (method @ '':'' @ path) method
      = find (\<lambda>rt. rt_MatchType rt = MatchExact \<and> method \<in> rt_Methods rt \<and> path = rt_Path rt) (rev rts)" (is ?A)
    and "exact_hit r ('':'' @ path) method
      = find (\<lambda>rt. rt_MatchType rt = MatchExact \<and> rt_Methods rt = {} \<and> path = rt_Path rt) (rev rts)" (is ?B)
proof -
  have c1: "find (\<lambda>rt. rt_MatchType rt = MatchExact \<and> owns_key rt (method @ '':'' @ path)) (rev rts)
      = find (\<lambda>rt. rt_MatchType rt = MatchExact \<and> method \<in> rt_Methods rt \<and> path = rt_Path rt) (rev rts)"
    using plain by (intro find_cong refl) (auto simp: owns_specific plain_method_def simp del: append_Cons)
  have c2: "find (\<lambda>rt. rt_MatchType rt = MatchExact \<and> owns_key rt ('':'' @ path)) (rev rts)
      = find (\<lambda>rt. rt_MatchType rt = MatchExact \<and> rt_Methods rt = {} \<and> path = rt_Path rt) (rev rts)"
    using plain by (intro find_cong refl) (auto simp: owns_wildcard plain_method_def simp del: append_Cons append_Nil)
  show ?A unfolding exact_hit_def ex c1 by (rule guarded_find) (simp add: methodAllowed_def)
  show ?B unfolding exact_hit_def ex c2 by (rule guarded_find) (simp add: methodAllowed_def)
qed

lemma applies_cases:
  "rt_applies method path rt \<longleftrightarrow>
     (rt_MatchType rt = MatchExact \<and> method \<in> rt_Methods rt \<and> path = rt_Path rt)
   \<or> (rt_MatchType rt = MatchExact \<and> rt_Methods rt = {} \<and> path = rt_Path rt)
   \<or> (rt_MatchType rt = MatchPrefix \<and> HasPrefix path (rt_Path rt) \<and> methodAllowed rt method)
   \<or> (rt_MatchType rt = MatchRegex \<and> pattern_matches rt path \<and> methodAllowed rt method)"
  by (cases "rt_MatchType rt") (auto simp: rt_applies_def methodAllowed_def)

context routing
begin

lemma Match_best_route:
  assumes pre: "ro_prefix r = rsrt (\<lambda>a b. rt_pathLen a > rt_pathLen b) (filter (\<lambda>rt. rt_MatchType rt = MatchPrefix) rts)"
    and reg: "ro_regexes r = filter (\<lambda>rt. rt_MatchType rt = MatchRegex) rts"
    and ex: "\<And>key. ro_exact r key = find (\<lambda>rt. rt_MatchType rt = MatchExact \<and> owns_key rt key) (rev rts)"
    and plain: "\<forall>rt \<in> set rts. \<forall>m \<in> rt_Methods rt. plain_method m" "plain_method method"
  shows "case Match r method path of
      None \<Rightarrow> \<forall>rt \<in> set rts. \<not> rt_applies method path rt
    | Some rt \<Rightarrow> rt \<in> set rts \<and> rt_applies method path rt
        \<and> (\<forall>rt' \<in> set rts. rt_applies method path rt' \<longrightarrow> route_rank rt' \<le> route_rank rt
             \<and> (route_rank rt = 1 \<and> route_rank rt' = 1 \<longrightarrow> rt_pathLen rt' \<le> rt_pathLen rt))"
proof -
  define P1 where "P1 = (\<lambda>rt :: Route. rt_MatchType rt = MatchExact \<and> method \<in> rt_Methods rt \<and> path = rt_Path rt)"
  define P2 where "P2 = (\<lambda>rt :: Route. rt_MatchType rt = MatchExact \<and> rt_Methods rt = {} \<and> path = rt_Path rt)"
  define P3 where "P3 = (\<lambda>rt :: Route. HasPrefix path (rt_Path rt) \<and> methodAllowed rt method)"
  define P4 where "P4 = (\<lambda>rt :: Route. pattern_matches rt path \<and> methodAllowed rt method)"
  let ?pre = "filter (\<lambda>rt. rt_MatchType rt = MatchPrefix) rts" and ?reg = "filter (\<lambda>rt. rt_MatchType rt = MatchRegex) rts"
  have M: "Match r method path = (case find P1 (rev rts) of Some rt \<Rightarrow> Some rt | None \<Rightarrow>
      (case find P2 (rev rts) of Some rt \<Rightarrow> Some rt | None \<Rightarrow>
      (case find P3 (rsrt (\<lambda>a b. rt_pathLen a > rt_pathLen b) ?pre) of Some rt \<Rightarrow> Some rt | None \<Rightarrow> find P4 ?reg)))"
    unfolding Match_def exact_finds [OF ex plain] pre reg P1_def P2_def P3_def P4_def ..
  have app: "rt_applies method path rt \<longleftrightarrow> P1 rt \<or> P2 rt \<or> (rt_MatchType rt = MatchPrefix \<and> P3 rt)
      \<or> (rt_MatchType rt = MatchRegex \<and> P4 rt)" for rt
    unfolding applies_cases P1_def P2_def P3_def P4_def by blast
  have rk: "P1 rt \<Longrightarrow> route_rank rt = 3" "P2 rt \<Longrightarrow> route_rank rt = 2"
    "rt_MatchType rt = MatchPrefix \<Longrightarrow> route_rank rt = 1" "rt_MatchType rt = MatchRegex \<Longrightarrow> route_rank rt = 0"
    "route_rank rt \<le> 3" for rt
    by (cases "rt_MatchType rt"; force simp: route_rank_def P1_def P2_def)+
  show ?thesis
  proof (cases "find P1 (rev rts)")
    case (Some rt)
    then have "rt \<in> set rts" "P1 rt" using find_SomeD by fastforce+
    then show ?thesis using Some M rk app by simp
  next
    case n1: None
    then have no1: "\<forall>rt \<in> set rts. \<not> P1 rt" by simp
    show ?thesis
    proof (cases "find P2 (rev rts)")
      case (Some rt)
      then have rt: "rt \<in> set rts" "P2 rt" using find_SomeD by fastforce+
      have "route_rank rt' \<le> 2" if "rt' \<in> set rts" "rt_applies method path rt'" for rt'
        using that no1 app [of rt'] rk(2-4) [of rt'] by auto
      then show ?thesis using rt Some M n1 rk(2) [of rt] app [of rt] by simp
    next
      case n2: None
      then have no2: "\<forall>rt \<in> set rts. \<not> P2 rt" by simp
      show ?thesis
      proof (cases "find P3 (rsrt (\<lambda>a b. rt_pathLen a > rt_pathLen b) ?pre)")
        case (Some rt)
        then have rt: "rt \<in> set ?pre" "P3 rt" using find_SomeD by fastforce+
        have "rt_pathLen rt' \<le> rt_pathLen rt" if "rt' \<in> set ?pre" "P3 rt'" for rt'
          using rsort.find_srt_greatest [OF Some that] .
        moreover have "route_rank rt' \<le> 1 \<and> (route_rank rt' = 1 \<longrightarrow> rt' \<in> set ?pre \<and> P3 rt')"
          if "rt' \<in> set rts" "rt_applies method path rt'" for rt'
          using that no1 no2 app [of rt'] rk(3,4) [of rt'] by auto
        ultimately show ?thesis using rt Some M n1 n2 rk(3) [of rt] app [of rt] by simp
      next
        case n3: None
        then have no3: "\<forall>rt \<in> set ?pre. \<not> P3 rt" by simp
        show ?thesis
        proof (cases "find P4 ?reg")
          case (Some rt)
          then have rt: "rt \<in> set ?reg" "P4 rt" using find_SomeD by fastforce+
          have "route_rank rt' = 0" if "rt' \<in> set rts" "rt_applies method path rt'" for rt'
            using that no1 no2 no3 app [of rt'] rk(4) [of rt'] by auto
          then show ?thesis using rt Some M n1 n2 n3 rk(4) [of rt] app [of rt] by simp
        next
          case n4: None
          then have "Match r method path = None" using M n1 n2 n3 by (simp only: option.case)
          then show ?thesis using n4 app no1 no2 no3 by auto
        qed
      qed
    qed
  qed
qed

end

context routing
begin

lemma Match_best:
  assumes New: "router_New psrt rsrt rx rcs = Some r"
    and plain: "\<forall>rc \<in> set rcs. \<forall>m \<in> set (rc_Methods rc). plain_method m" "plain_method method"
  shows "case Match r method path of
      None \<Rightarrow> \<forall>rc \<in> set rcs. \<not> route_applies rx method path rc
    | Some rt \<Rightarrow> \<exists>rc \<in> set rcs. buildRoute psrt rx rc = Some rt \<and> route_applies rx method path rc
        \<and> (\<forall>rc' \<in> set rcs. route_applies rx method path rc' \<longrightarrow> \<not> outranks rc' rc)"
proof -
  obtain rts where l: "list_all2 (\<lambda>rc rt. buildRoute psrt rx rc = Some rt) rcs rts"
    and tables: "ro_prefix r = rsrt (\<lambda>a b. rt_pathLen a > rt_pathLen b) (filter (\<lambda>rt. rt_MatchType rt = MatchPrefix) rts)"
      "ro_regexes r = filter (\<lambda>rt. rt_MatchType rt = MatchRegex) rts"
      "\<And>key. ro_exact r key = find (\<lambda>rt. rt_MatchType rt = MatchExact \<and> owns_key rt key) (rev rts)"
    using New_tables [OF New] by blast
  have to_rt: "\<exists>rt \<in> set rts. buildRoute psrt rx rc = Some rt" if "rc \<in> set rcs" for rc
    using l that by (fastforce simp: list_all2_conv_all_nth in_set_conv_nth)
  have to_rc: "\<exists>rc \<in> set rcs. buildRoute psrt rx rc = Some rt" if "rt \<in> set rts" for rt
    using l that by (fastforce simp: list_all2_conv_all_nth in_set_conv_nth)
  have app: "route_applies rx method path rc \<longleftrightarrow> rt_applies method path rt"
    if "buildRoute psrt rx rc = Some rt" for rc rt
    using built_applies [OF that] by (simp add: rt_applies_def)
  have "\<forall>rt \<in> set rts. \<forall>m \<in> rt_Methods rt. plain_method m"
  proof (intro ballI)
    fix rt m assume rt: "rt \<in> set rts" "m \<in> rt_Methods rt"
    then obtain rc where "rc \<in> set rcs" "buildRoute psrt rx rc = Some rt" using to_rc by blast
    then show "plain_method m" using rt(2) built_facts(1) plain(1) plain_ToUpper by auto
  qed
  note best = Match_best_route [OF tables this plain(2), of path]
  show ?thesis
  proof (cases "Match r method path")
    case None
    then show ?thesis using best to_rt app by fastforce
  next
    case (Some rt)
    then have rt: "rt \<in> set rts" "rt_applies method path rt" using best by simp_all
    then obtain rc where rc: "rc \<in> set rcs" "buildRoute psrt rx rc = Some rt" using to_rc by blast
    have "\<not> outranks rc' rc" if rc': "rc' \<in> set rcs" "route_applies rx method path rc'" for rc'
    proof -
      obtain rt' where rt': "rt' \<in> set rts" "buildRoute psrt rx rc' = Some rt'" using to_rt rc'(1) by blast
      then have "route_rank rt' \<le> route_rank rt \<and> (route_rank rt = 1 \<and> route_rank rt' = 1 \<longrightarrow> rt_pathLen rt' \<le> rt_pathLen rt)"
        using best Some app [OF rt'(2)] rc'(2) by simp
      then show ?thesis
        using rank_built [OF rc(2)] rank_built [OF rt'(2)] built_facts(3) [OF rc(2)] built_facts(3) [OF rt'(2)]
        by (auto simp: outranks_def)
    qed
    then show ?thesis using Some rc rt(2) app [OF rc(2)] by auto
  qed
qed

end

interpretation routes: routing insertion_sort insertion_sort rx for rx
  by unfold_locales

text \<open>
  C6: \<open>Match\<close> finds the best applicable route. For any routes with ordinary method names and
  any \<open>sort.Slice\<close>, it answers nothing exactly when no route applies, and otherwise the
  runtime form of an applicable route that no other applicable route outranks: exact paths
  (those that name the method first), then the longest prefix, then regexes.
\<close>

theorem Match_finds_best:
  assumes "slice_sort rsrt" and "router_New psrt rsrt rx rcs = Some r"
    and "\<forall>rc \<in> set rcs. \<forall>m \<in> set (rc_Methods rc). plain_method m" and "plain_method method"
  shows "case Match r method path of
      None \<Rightarrow> \<forall>rc \<in> set rcs. \<not> route_applies rx method path rc
    | Some rt \<Rightarrow> \<exists>rc \<in> set rcs. buildRoute psrt rx rc = Some rt \<and> route_applies rx method path rc
        \<and> (\<forall>rc' \<in> set rcs. route_applies rx method path rc' \<longrightarrow> \<not> outranks rc' rc)"
  by (rule routing.Match_best [OF routing.intro [OF assms(1)] assms(2-4)])

lemma list_all2_built:
  "\<forall>rc \<in> set rcs. buildRoute psrt rx rc \<noteq> None \<Longrightarrow> add_routes psrt rx rcs r \<noteq> None"
  by (induction rcs arbitrary: r) (auto split: option.split)

lemma buildRoute_total:
  "(rc_MatchType rc = ''regex'' \<longrightarrow> rx (rc_Path rc) \<noteq> None) \<Longrightarrow> buildRoute psrt rx rc \<noteq> None"
  by (auto simp: buildRoute_def Let_def split: option.split)

lemma router_New_valid:
  assumes "valid_config rx cfg"
  shows "router_New psrt rsrt rx (cf_Routes cfg) \<noteq> None"
proof -
  have "\<forall>rc \<in> set (cf_Routes cfg). buildRoute psrt rx rc \<noteq> None"
    using assms by (intro ballI buildRoute_total) (auto simp: valid_config_def route_ok_def)
  then have "add_routes psrt rx (cf_Routes cfg) \<lparr>ro_exact = Map.empty, ro_prefix = [], ro_regexes = []\<rparr> \<noteq> None"
    by (rule list_all2_built)
  then show ?thesis by (auto simp: router_New_def)
qed

text \<open>
  A configuration that \<open>Validate\<close> accepts always yields a router: \<open>New\<close> never fails on
  the routes it returns.
\<close>

theorem validated_config_routes:
  assumes "Validate rx cfg = ([], cfg')"
  shows "router_New psrt rsrt rx (cf_Routes cfg') \<noteq> None"
  using Validate_settles [OF assms] valid_config_iff [of rx cfg'] by (intro router_New_valid) simp

theorem validated_config_routes_witness:
  "\<exists>cfg'. Validate (\<lambda>_. None) (sample_config 80) = ([], cfg')
    \<and> router_New insertion_sort insertion_sort (\<lambda>_. None) (cf_Routes cfg') \<noteq> None"
proof -
  obtain cfg' where "Validate (\<lambda>_. None) (sample_config 80) = ([], cfg')"
    using sample_loads [of 80 "\<lambda>_. None"] by (auto simp: loadAndValidate_def split: prod.splits if_splits)
  with validated_config_routes show ?thesis by blast
qed

definition sample_routes :: "RouteConfig list" where
  "sample_routes = [sample_route ''all'' ''/'' ''s'', (sample_route ''users'' ''/users'' ''s'')\<lparr>rc_Methods := [''get'']\<rparr>,
     (sample_route ''one'' ''/users/1'' ''s'')\<lparr>rc_MatchType := ''exact''\<rparr>]"

theorem Match_finds_best_witness:
  "\<exists>r. router_New insertion_sort insertion_sort (\<lambda>_. None) sample_routes = Some r
    \<and> (case Match r ''GET'' ''/users/2'' of
        None \<Rightarrow> \<forall>rc \<in> set sample_routes. \<not> route_applies (\<lambda>_. None) ''GET'' ''/users/2'' rc
      | Some rt \<Rightarrow> \<exists>rc \<in> set sample_routes. buildRoute insertion_sort (\<lambda>_. None) rc = Some rt
          \<and> route_applies (\<lambda>_. None) ''GET'' ''/users/2'' rc
          \<and> (\<forall>rc' \<in> set sample_routes. route_applies (\<lambda>_. None) ''GET'' ''/users/2'' rc' \<longrightarrow> \<not> outranks rc' rc))"
proof -
  obtain r where "router_New insertion_sort insertion_sort (\<lambda>_. None) sample_routes = Some r"
    by (auto simp: router_New_def sample_routes_def sample_route_def buildRoute_def)
  moreover have "\<forall>rc \<in> set sample_routes. \<forall>m \<in> set (rc_Methods rc). plain_method m" "plain_method ''GET''"
    by (simp_all add: sample_routes_def sample_route_def plain_method_def)
  ultimately show ?thesis using Match_finds_best [OF isort.slice_sort_axioms] by blast
qed

subsection \<open>Where a matched route comes from\<close>

lemma Match_in_tables:
  "Match r method path = Some rt \<Longrightarrow> (\<exists>key. ro_exact r key = Some rt) \<or> rt \<in> set (ro_prefix r) \<or> rt \<in> set (ro_regexes r)"
  by (auto simp: Match_def exact_hit_def find_Some_iff split: option.splits if_splits)

lemma Match_configured:
  assumes "slice_sort rsrt" and "router_New psrt rsrt rx rcs = Some r" and "Match r method path = Some rt"
  shows "\<exists>rc \<in> set rcs. buildRoute psrt rx rc = Some rt"
proof -
  obtain rts where l: "list_all2 (\<lambda>rc rt. buildRoute psrt rx rc = Some rt) rcs rts"
    and t: "ro_prefix r = rsrt (\<lambda>a b. rt_pathLen a > rt_pathLen b) (filter (\<lambda>rt. rt_MatchType rt = MatchPrefix) rts)"
      "ro_regexes r = filter (\<lambda>rt. rt_MatchType rt = MatchRegex) rts"
      "\<And>key. ro_exact r key = find (\<lambda>rt. rt_MatchType rt = MatchExact \<and> owns_key rt key) (rev rts)"
    by (rule routing.New_tables [OF routing.intro [OF assms(1)] assms(2)]) (rule that)
  have "set (ro_prefix r) \<subseteq> set rts" "set (ro_regexes r) \<subseteq> set rts"
    by (auto simp: t(1,2) slice_sort.set_srt [OF assms(1)])
  moreover have "rt \<in> set rts" if "ro_exact r key = Some rt" for key
    using find_SomeD [OF that [unfolded t(3)]] by simp
  ultimately have "rt \<in> set rts" using Match_in_tables [OF assms(3)] by blast
  then show ?thesis using l by (fastforce simp: list_all2_conv_all_nth in_set_conv_nth)
qed

end
