(* ===== verification/Gateway_Runtime.thy ===== *)
theory Gateway_Runtime
  imports Router Plugin_Chain "HOL-Library.Word" "HOL-Library.List_Lexorder" "HOL-Library.Char_ord"
begin

section \<open>The runtime (\<open>internal/runtime/runtime.go\<close>, \<open>builder.go\<close>)\<close>

text \<open>
  A runtime is what is rebuilt on a reload: the router and the plugin chains; the holder is
  the atomic pointer that requests read it through. \<open>reload_env\<close> gathers what the code takes
  from outside: \<open>sort.Slice\<close> at its two types, \<open>regexp.Compile\<close>, the plugin registry, and the
  order in which a map is ranged over.
\<close>

record 'w GatewayRuntime =
  gr_Version :: "64 word"
  gr_Router :: Router
  gr_PluginChains :: "string \<rightharpoonup> 'w plugin list"

record 'w reload_env =
  en_psrt :: "(PluginRef \<Rightarrow> PluginRef \<Rightarrow> bool) \<Rightarrow> PluginRef list \<Rightarrow> PluginRef list"
  en_rsrt :: "(Route \<Rightarrow> Route \<Rightarrow> bool) \<Rightarrow> Route list \<Rightarrow> Route list"
  en_rx :: regex_compiler
  en_pluginReg :: "string \<rightharpoonup> 'w factory"
  en_iter :: "string set \<Rightarrow> string list"

definition runtime_Close :: "(string set \<Rightarrow> string list) \<Rightarrow> 'w GatewayRuntime \<Rightarrow> 'w \<Rightarrow> 'w" where
  "runtime_Close iter rt x =
     fold (\<lambda>routeID x. case gr_PluginChains rt routeID of None \<Rightarrow> x | Some chain \<Rightarrow> chain_Close chain x)
       (iter (dom (gr_PluginChains rt))) x"

text \<open>\<open>RuntimeHolder\<close>: an atomic pointer.\<close>

record 'w RuntimeHolder =
  rh_current :: "'w GatewayRuntime option"

definition NewRuntimeHolder :: "'w GatewayRuntime option \<Rightarrow> 'w RuntimeHolder" where
  "NewRuntimeHolder initial = \<lparr>rh_current = initial\<rparr>"

definition holder_Get :: "'w RuntimeHolder \<Rightarrow> 'w GatewayRuntime option" where
  "holder_Get h = rh_current h"

definition holder_Swap :: "'w GatewayRuntime \<Rightarrow> 'w RuntimeHolder \<Rightarrow> 'w GatewayRuntime option \<times> 'w RuntimeHolder" where
  "holder_Swap rt h = (rh_current h, h\<lparr>rh_current := Some rt\<rparr>)"

subsection \<open>\<open>Build\<close>\<close>

datatype runtime_error = RouterFailed | ChainFailed string build_error

fun build_chains ::
  "'w reload_env \<Rightarrow> PluginDef list \<Rightarrow> RouteConfig list \<Rightarrow> (string \<rightharpoonup> 'w plugin list) \<Rightarrow> runtime_error + (string \<rightharpoonup> 'w plugin list)" where
  "build_chains env defs [] built = Inr built"
| "build_chains env defs (route # routes) built =
     (let refs = en_psrt env (\<lambda>a b. pr_Order a < pr_Order b) (rc_Plugins route)
      in case plugin_Build (en_psrt env) (en_pluginReg env) defs refs of
           Inl e \<Rightarrow> Inl (ChainFailed (rc_ID route) e)
         | Inr plugins \<Rightarrow> build_chains env defs routes (built(rc_ID route \<mapsto> plugins)))"

definition runtime_Build :: "'w reload_env \<Rightarrow> config \<Rightarrow> 64 word \<Rightarrow> runtime_error + 'w GatewayRuntime" where
  "runtime_Build env cfg version =
     (case router_New (en_psrt env) (en_rsrt env) (en_rx env) (cf_Routes cfg) of
        None \<Rightarrow> Inl RouterFailed
      | Some r \<Rightarrow>
          (case build_chains env (cf_Plugins cfg) (cf_Routes cfg) Map.empty of
             Inl e \<Rightarrow> Inl e
           | Inr built \<Rightarrow> Inr \<lparr>gr_Version = version, gr_Router = r, gr_PluginChains = built\<rparr>))"

subsection \<open>The chains of a runtime\<close>

lemma plugin_Build_resort:
  assumes "slice_sort srt" and "distinct (map pr_Order refs)"
    and "plugin_Build srt reg defs (srt (\<lambda>a b. pr_Order a < pr_Order b) refs) = Inr ps"
  shows "list_all2 (\<lambda>r p. \<exists>ty f. name_to_type defs (pr_Name r) = Some ty \<and> reg ty = Some f \<and> f (pr_Config r) = Some p)
    (sort_key pr_Order refs) ps"
proof -
  let ?s = "srt (\<lambda>a b. pr_Order a < pr_Order b) refs"
  have d: "distinct (map pr_Order ?s)" using slice_sort.distinct_srt [OF assms(1)] assms(2) by blast
  have "sort_key pr_Order ?s = sort_key pr_Order refs"
    using assms(2) d slice_sort.set_srt [OF assms(1)]
    by (intro map_sorted_distinct_set_unique [where f = pr_Order]) (simp_all add: distinct_map)
  then show ?thesis using build_in_order [OF assms(1,3) d] by simp
qed

lemma build_chains_ok:
  "build_chains env defs routes built = Inr chains' \<Longrightarrow> distinct (map rc_ID routes) \<Longrightarrow>
    (\<forall>rc \<in> set routes. \<exists>ps. chains' (rc_ID rc) = Some ps \<and> plugin_Build (en_psrt env) (en_pluginReg env) defs
        (en_psrt env (\<lambda>a b. pr_Order a < pr_Order b) (rc_Plugins rc)) = Inr ps)
    \<and> (\<forall>rid. rid \<notin> rc_ID ` set routes \<longrightarrow> chains' rid = built rid)"
proof (induction routes arbitrary: built)
  case (Cons rc routes)
  then obtain ps where ps: "plugin_Build (en_psrt env) (en_pluginReg env) defs
        (en_psrt env (\<lambda>a b. pr_Order a < pr_Order b) (rc_Plugins rc)) = Inr ps"
    and rest: "build_chains env defs routes (built(rc_ID rc \<mapsto> ps)) = Inr chains'"
    by (auto simp: Let_def split: sum.splits)
  note IH = Cons.IH [OF rest]
  show ?case using IH ps Cons.prems(2) by (auto simp: fun_upd_def)
qed simp

text \<open>
  A runtime has a chain for every route, with the plugins in ascending order of their
  \<open>order\<close> field, each built by the factory of its declared type from its own
  configuration; with distinct orders, which \<open>Validate\<close> enforces, there is one such order.
\<close>

theorem runtime_chains_ordered:
  assumes "runtime_Build env cfg v = Inr rt" and "slice_sort (en_psrt env)" and "valid_config rx cfg"
    and "rc \<in> set (cf_Routes cfg)"
  shows "\<exists>ps. gr_PluginChains rt (rc_ID rc) = Some ps
    \<and> list_all2 (\<lambda>r p. \<exists>ty f. name_to_type (cf_Plugins cfg) (pr_Name r) = Some ty \<and> en_pluginReg env ty = Some f
         \<and> f (pr_Config r) = Some p) (sort_key pr_Order (rc_Plugins rc)) ps"
proof -
  have "distinct (map rc_ID (cf_Routes cfg))" "distinct (map pr_Order (rc_Plugins rc))"
    using assms(3,4) by (auto simp: valid_config_def route_ok_def)
  then show ?thesis
    using assms(1,4) build_chains_ok [of env "cf_Plugins cfg" "cf_Routes cfg" Map.empty "gr_PluginChains rt"]
      plugin_Build_resort [OF assms(2)]
    by (fastforce simp: runtime_Build_def split: option.splits sum.splits)
qed

definition sample_env :: "exchange reload_env" where
  "sample_env = \<lparr>en_psrt = insertion_sort, en_rsrt = insertion_sort, en_rx = (\<lambda>_. None),
     en_pluginReg = [''t1'' \<mapsto> \<lambda>_. Some (sample_plugin ''one'' PNil), ''t2'' \<mapsto> \<lambda>_. Some (sample_plugin ''two'' PNil)],
     en_iter = sorted_list_of_set\<rparr>"

definition sample_chain_config :: config where
  "sample_chain_config = (sample_config 8080)\<lparr>cf_Plugins := [\<lparr>pd_Name = ''a'', pd_Type = ''t1''\<rparr>, \<lparr>pd_Name = ''b'', pd_Type = ''t2''\<rparr>],
     cf_Routes := [(sample_route ''r'' ''/'' ''s'')\<lparr>rc_Plugins := [\<lparr>pr_Name = ''a'', pr_Order = 2, pr_Config = Map.empty\<rparr>,
       \<lparr>pr_Name = ''b'', pr_Order = 1, pr_Config = Map.empty\<rparr>]\<rparr>]\<rparr>"

lemma sample_builds: "\<exists>rt. runtime_Build sample_env sample_chain_config v = Inr rt \<and> gr_Version rt = v"
  by (simp add: runtime_Build_def sample_env_def sample_chain_config_def sample_route_def router_New_def buildRoute_def
      plugin_Build_def name_to_type_def insertion_sort_def Let_def)

theorem runtime_chains_ordered_witness:
  "\<exists>rt ps. runtime_Build sample_env sample_chain_config 1 = Inr rt \<and> gr_PluginChains rt ''r'' = Some ps
    \<and> map pl_Name ps = [''two'', ''one'']"
proof -
  obtain rt where rt: "runtime_Build sample_env sample_chain_config 1 = Inr rt" using sample_builds by blast
  have srt: "slice_sort (en_psrt sample_env)" by (simp add: sample_env_def isort.slice_sort_axioms)
  let ?rc = "(sample_route ''r'' ''/'' ''s'')\<lparr>rc_Plugins := [\<lparr>pr_Name = ''a'', pr_Order = 2, pr_Config = Map.empty\<rparr>,
       \<lparr>pr_Name = ''b'', pr_Order = 1, pr_Config = Map.empty\<rparr>]\<rparr>"
  have ok: "valid_config (\<lambda>_. None) sample_chain_config"
    by (simp add: valid_config_def sample_chain_config_def sample_config_def route_ok_def sample_route_def service_ok_def
        sample_service_def)
  have "?rc \<in> set (cf_Routes sample_chain_config)" by (simp add: sample_chain_config_def)
  from runtime_chains_ordered [OF rt srt ok this] obtain ps where ps: "gr_PluginChains rt ''r'' = Some ps"
    "list_all2 (\<lambda>r p. \<exists>ty f. name_to_type (cf_Plugins sample_chain_config) (pr_Name r) = Some ty \<and> en_pluginReg sample_env ty = Some f
         \<and> f (pr_Config r) = Some p) (sort_key pr_Order (rc_Plugins ?rc)) ps"
    by (auto simp: sample_route_def)
  then have "map pl_Name ps = [''two'', ''one'']"
    by (auto simp: list_all2_Cons1 name_to_type_def sample_chain_config_def sample_env_def sample_plugin_def)
  with rt ps(1) show ?thesis by (intro exI [of _ rt] exI [of _ ps]) simp
qed

end
