(* ===== verification/Service_Diff.thy ===== *)
theory Service_Diff
  imports Config Smart_Balancer "HOL-Library.List_Lexorder" "HOL-Library.Char_ord"
begin

section \<open>The services of a reload (\<open>internal/runtime/reloader.go\<close>)\<close>

text \<open>
  The service registry, the health checker and the balancers live on across reloads and are
  updated by \<open>applyServiceDiff\<close>; the lemmas say what that does to each service.
\<close>

subsection \<open>The services\<close>

datatype balancer = LbRandom | LbRoundRobin round_robin | LbSmart smart_balancer

record services =
  sv_heap :: gw_heap
  sv_reg :: registry
  sv_checker :: health_checker
  sv_lbs :: "string \<rightharpoonup> balancer"

definition new_instance :: "InstanceConfig \<Rightarrow> Instance" where
  "new_instance ic = \<lparr>inst_ID = ic_ID ic, inst_Address = ic_Address ic, inst_Weight = ic_Weight ic,
     inst_status = StatusHealthy, inst_fails = 0, inst_oks = 0, inst_lastChecked = 0\<rparr>"

fun alloc_instances :: "InstanceConfig list \<Rightarrow> gw_heap \<Rightarrow> nat list \<times> gw_heap" where
  "alloc_instances [] h = ([], h)"
| "alloc_instances (ic # ics) h =
     (let (r, h1) = alloc_inst (new_instance ic) h;
          (rs, h2) = alloc_instances ics h1
      in (r # rs, h2))"

definition build_entry :: "ServiceConfig \<Rightarrow> gw_heap \<Rightarrow> nat \<times> gw_heap" where
  "build_entry svcCfg h =
     (let (instances, h1) = alloc_instances (svc_Instances svcCfg) h;
          hk = svc_HealthCheck svcCfg
      in alloc_entry \<lparr>se_Name = svc_Name svcCfg, se_LBStrategy = svc_LBStrategy svcCfg,
           se_HealthCheck = \<lparr>hcc_Path = hck_Path hk, hcc_Interval = hck_Interval hk, hcc_Timeout = hck_Timeout hk,
             hcc_FailureThreshold = hck_FailureThreshold hk, hcc_SuccessThreshold = hck_SuccessThreshold hk\<rparr>,
           se_Instances = instances\<rparr> h1)"

definition update_lb :: "ServiceConfig \<Rightarrow> (string \<rightharpoonup> balancer) \<Rightarrow> string \<rightharpoonup> balancer" where
  "update_lb svcCfg lbs =
     (if svc_LBStrategy svcCfg = ''random'' then lbs(svc_Name svcCfg \<mapsto> LbRandom)
      else if lbs (svc_Name svcCfg) = None then lbs(svc_Name svcCfg \<mapsto> LbRoundRobin NewRoundRobin)
      else lbs)"

definition apply_service :: "ServiceConfig \<Rightarrow> services \<Rightarrow> services" where
  "apply_service svcCfg sv =
     (let (entry, h) = build_entry svcCfg (sv_heap sv)
      in \<lparr>sv_heap = h, sv_reg = Register h entry (sv_reg sv),
          sv_checker = StartForService h entry (sv_checker sv), sv_lbs = update_lb svcCfg (sv_lbs sv)\<rparr>)"

definition stop_removed :: "string set \<Rightarrow> string list \<Rightarrow> health_checker \<Rightarrow> health_checker" where
  "stop_removed newNames names hc =
     fold (\<lambda>name hc. if name \<notin> newNames then StopForService name hc else hc) names hc"

definition applyServiceDiff :: "(string set \<Rightarrow> string list) \<Rightarrow> config \<Rightarrow> services \<Rightarrow> services" where
  "applyServiceDiff iter newCfg sv =
     (let sv1 = fold apply_service (cf_Services newCfg) sv
      in sv1\<lparr>sv_checker := stop_removed (svc_Name ` set (cf_Services newCfg))
             (iter (ServiceNames (sv_reg sv1))) (sv_checker sv1)\<rparr>)"

subsection \<open>A reload of the services\<close>

text \<open>Every pointer in use was allocated, and every cancel function is of a started goroutine.\<close>

definition sv_ok :: "services \<Rightarrow> bool" where
  "sv_ok sv \<longleftrightarrow> (\<forall>c \<in> set (hc_gos (sv_checker sv)). ck_svc c < h_entry_next (sv_heap sv))
     \<and> (\<forall>e < h_entry_next (sv_heap sv). \<forall>r \<in> set (se_Instances (h_entry (sv_heap sv) e)). r < h_inst_next (sv_heap sv))
     \<and> (\<forall>e < h_entry_next (sv_heap sv). \<forall>e' < e.
          set (se_Instances (h_entry (sv_heap sv) e)) \<inter> set (se_Instances (h_entry (sv_heap sv) e')) = {})
     \<and> (\<forall>name g. hc_cancels (sv_checker sv) name = Some g \<longrightarrow> g < length (hc_gos (sv_checker sv)))"

lemma alloc_instances_facts:
  "alloc_instances ics h = (rs, h') \<Longrightarrow>
     h_entry h' = h_entry h \<and> h_entry_next h' = h_entry_next h \<and> h_inst_next h \<le> h_inst_next h'
     \<and> (\<forall>r < h_inst_next h. h_inst h' r = h_inst h r)
     \<and> (\<forall>r \<in> set rs. h_inst_next h \<le> r \<and> r < h_inst_next h' \<and> IsHealthy (h_inst h' r))
     \<and> length rs = length ics"
proof (induction ics arbitrary: rs h h')
  case (Cons ic ics)
  let ?h1 = "snd (alloc_inst (new_instance ic) h)"
  obtain rs' where a: "alloc_instances ics ?h1 = (rs', h')" "rs = h_inst_next h # rs'"
    using Cons.prems by (auto simp: alloc_inst_def split: prod.splits)
  have "IsHealthy (h_inst h' (h_inst_next h))"
    using Cons.IH [OF a(1)] by (simp add: alloc_inst_def new_instance_def IsHealthy_def)
  then show ?case using Cons.IH [OF a(1)] a(2) by (auto simp: alloc_inst_def)
qed auto

lemma build_entry_facts:
  assumes "build_entry svc h = (e, h')"
  shows "e = h_entry_next h \<and> h_entry_next h' = Suc e \<and> h_inst_next h \<le> h_inst_next h'
     \<and> (\<forall>e' < e. h_entry h' e' = h_entry h e') \<and> (\<forall>r < h_inst_next h. h_inst h' r = h_inst h r)
     \<and> se_Name (h_entry h' e) = svc_Name svc
     \<and> (\<forall>r \<in> set (se_Instances (h_entry h' e)). h_inst_next h \<le> r \<and> r < h_inst_next h' \<and> IsHealthy (h_inst h' r))
     \<and> length (se_Instances (h_entry h' e)) = length (svc_Instances svc)"
proof -
  obtain rs h1 where a: "alloc_instances (svc_Instances svc) h = (rs, h1)" by fastforce
  show ?thesis
    using assms alloc_instances_facts [OF a] a by (auto simp: build_entry_def alloc_entry_def Let_def)
qed

text \<open>What applying one service does to the state of the services.\<close>

lemma apply_service_facts:
  fixes sv sv' svc
  defines "h \<equiv> sv_heap sv" and "hc \<equiv> sv_checker sv" and "sv' \<equiv> apply_service svc sv" and "e \<equiv> h_entry_next (sv_heap sv)"
  shows "h_entry_next (sv_heap sv') = Suc e" and "h_inst_next h \<le> h_inst_next (sv_heap sv')"
    and "e' < e \<Longrightarrow> h_entry (sv_heap sv') e' = h_entry h e'"
    and "r < h_inst_next h \<Longrightarrow> h_inst (sv_heap sv') r = h_inst h r"
    and "se_Name (h_entry (sv_heap sv') e) = svc_Name svc"
    and "r \<in> set (se_Instances (h_entry (sv_heap sv') e)) \<Longrightarrow>
      h_inst_next h \<le> r \<and> r < h_inst_next (sv_heap sv') \<and> IsHealthy (h_inst (sv_heap sv') r)"
    and "length (se_Instances (h_entry (sv_heap sv') e)) = length (svc_Instances svc)"
    and "sv_reg sv' = (sv_reg sv)(svc_Name svc \<mapsto> e)"
    and "hc_gos (sv_checker sv') = hc_gos hc @ (if hc_cancels hc (svc_Name svc) = None then [\<lparr>ck_svc = e, ck_cancelled = False\<rparr>] else [])"
    and "hc_cancels (sv_checker sv') = (if hc_cancels hc (svc_Name svc) = None
      then (hc_cancels hc)(svc_Name svc \<mapsto> length (hc_gos hc)) else hc_cancels hc)"
    and "sv_lbs sv' = update_lb svc (sv_lbs sv)"
proof -
  obtain e1 h1 where b: "build_entry svc (sv_heap sv) = (e1, h1)" by fastforce
  note f = build_entry_facts [OF b]
  have n: "se_Name (h_entry h1 e1) = svc_Name svc" "h_entry_next (sv_heap sv) = e1" using f by metis+
  have sv': "sv' = \<lparr>sv_heap = h1, sv_reg = Register h1 e1 (sv_reg sv),
      sv_checker = StartForService h1 e1 (sv_checker sv), sv_lbs = update_lb svc (sv_lbs sv)\<rparr>"
    using b by (simp add: sv'_def apply_service_def)
  show "h_entry_next (sv_heap sv') = Suc e" "h_inst_next h \<le> h_inst_next (sv_heap sv')"
    "e' < e \<Longrightarrow> h_entry (sv_heap sv') e' = h_entry h e'"
    "r < h_inst_next h \<Longrightarrow> h_inst (sv_heap sv') r = h_inst h r"
    "se_Name (h_entry (sv_heap sv') e) = svc_Name svc"
    "r \<in> set (se_Instances (h_entry (sv_heap sv') e)) \<Longrightarrow>
      h_inst_next h \<le> r \<and> r < h_inst_next (sv_heap sv') \<and> IsHealthy (h_inst (sv_heap sv') r)"
    "length (se_Instances (h_entry (sv_heap sv') e)) = length (svc_Instances svc)"
    "sv_reg sv' = (sv_reg sv)(svc_Name svc \<mapsto> e)" "sv_lbs sv' = update_lb svc (sv_lbs sv)"
    using f by (auto simp: sv' h_def e_def Register_def)
  show "hc_gos (sv_checker sv') = hc_gos hc @ (if hc_cancels hc (svc_Name svc) = None then [\<lparr>ck_svc = e, ck_cancelled = False\<rparr>] else [])"
    "hc_cancels (sv_checker sv') = (if hc_cancels hc (svc_Name svc) = None
      then (hc_cancels hc)(svc_Name svc \<mapsto> length (hc_gos hc)) else hc_cancels hc)"
    by (simp_all add: sv' hc_def e_def StartForService_def n split: option.split)
qed

lemma sv_ok_apply: "sv_ok sv \<Longrightarrow> sv_ok (apply_service svc sv)"
proof -
  assume ok: "sv_ok sv"
  let ?sv' = "apply_service svc sv" and ?e = "h_entry_next (sv_heap sv)"
  note f = apply_service_facts [where svc = svc and sv = sv]
  have old: "e < Suc ?e \<Longrightarrow> e = ?e \<or> e < ?e \<and> h_entry (sv_heap ?sv') e = h_entry (sv_heap sv) e" for e
    using f(3) by (auto simp: less_Suc_eq)
  have low: "e < ?e \<Longrightarrow> r \<in> set (se_Instances (h_entry (sv_heap sv) e)) \<Longrightarrow> r < h_inst_next (sv_heap sv)" for e r
    using ok by (auto simp: sv_ok_def)
  show ?thesis
    unfolding sv_ok_def f(1)
  proof (intro conjI allI ballI impI)
    fix c assume "c \<in> set (hc_gos (sv_checker ?sv'))"
    then show "ck_svc c < Suc ?e" using ok f(9) by (auto simp: sv_ok_def less_Suc_eq split: if_splits)
  next
    fix e r assume "e < Suc ?e" "r \<in> set (se_Instances (h_entry (sv_heap ?sv') e))"
    then show "r < h_inst_next (sv_heap ?sv')" using old [of e] low [of e r] f(2,6) by fastforce
  next
    fix e e' assume e: "e < Suc ?e" "e' < e"
    then have e': "h_entry (sv_heap ?sv') e' = h_entry (sv_heap sv) e'" "e' < ?e" using f(3) by simp_all
    show "set (se_Instances (h_entry (sv_heap ?sv') e)) \<inter> set (se_Instances (h_entry (sv_heap ?sv') e')) = {}"
    proof (cases "e = ?e")
      case True
      have "r \<notin> set (se_Instances (h_entry (sv_heap sv) e'))"
        if "r \<in> set (se_Instances (h_entry (sv_heap ?sv') ?e))" for r
      proof
        assume "r \<in> set (se_Instances (h_entry (sv_heap sv) e'))"
        then show False using low [OF e'(2)] f(6) [OF that] by fastforce
      qed
      then show ?thesis using True e'(1) by auto
    next
      case False
      then show ?thesis using old [OF e(1)] e' e(2) ok by (simp add: sv_ok_def)
    qed
  next
    fix name g assume "hc_cancels (sv_checker ?sv') name = Some g"
    then show "g < length (hc_gos (sv_checker ?sv'))"
      using ok f(9,10) by (auto simp: sv_ok_def less_Suc_eq split: if_splits)
  qed
qed

text \<open>What applying all services does, service by service.\<close>

definition fresh_entry :: "services \<Rightarrow> services \<Rightarrow> ServiceConfig \<Rightarrow> nat \<Rightarrow> bool" where
  "fresh_entry sv sv' svc e \<longleftrightarrow>
     h_entry_next (sv_heap sv) \<le> e \<and> e < h_entry_next (sv_heap sv') \<and> se_Name (h_entry (sv_heap sv') e) = svc_Name svc
     \<and> length (se_Instances (h_entry (sv_heap sv') e)) = length (svc_Instances svc)
     \<and> (\<forall>r \<in> set (se_Instances (h_entry (sv_heap sv') e)).
          h_inst_next (sv_heap sv) \<le> r \<and> r < h_inst_next (sv_heap sv') \<and> IsHealthy (h_inst (sv_heap sv') r))"

definition grown :: "services \<Rightarrow> services \<Rightarrow> checker_goroutine list \<Rightarrow> bool" where
  "grown sv sv' extra \<longleftrightarrow>
     h_entry_next (sv_heap sv) \<le> h_entry_next (sv_heap sv') \<and> h_inst_next (sv_heap sv) \<le> h_inst_next (sv_heap sv')
     \<and> (\<forall>e < h_entry_next (sv_heap sv). h_entry (sv_heap sv') e = h_entry (sv_heap sv) e)
     \<and> (\<forall>r < h_inst_next (sv_heap sv). h_inst (sv_heap sv') r = h_inst (sv_heap sv) r)
     \<and> hc_gos (sv_checker sv') = hc_gos (sv_checker sv) @ extra
     \<and> (\<forall>c \<in> set extra. h_entry_next (sv_heap sv) \<le> ck_svc c \<and> \<not> ck_cancelled c)"

lemma grown_apply:
  "grown sv (apply_service svc sv)
     (if hc_cancels (sv_checker sv) (svc_Name svc) = None then [\<lparr>ck_svc = h_entry_next (sv_heap sv), ck_cancelled = False\<rparr>] else [])"
  using apply_service_facts [where svc = svc and sv = sv] by (auto simp: grown_def)

lemma grown_trans: "grown sv sv1 xs \<Longrightarrow> grown sv1 sv2 ys \<Longrightarrow> grown sv sv2 (xs @ ys)"
  by (auto simp: grown_def)

lemma apply_services:
  assumes "distinct (map svc_Name svcs)" and "sv' = fold apply_service svcs sv"
  shows "\<exists>extra. grown sv sv' extra
    \<and> (\<forall>svc \<in> set svcs. \<exists>e. sv_reg sv' (svc_Name svc) = Some e \<and> fresh_entry sv sv' svc e
         \<and> ((\<exists>c \<in> set extra. ck_svc c = e) \<longleftrightarrow> hc_cancels (sv_checker sv) (svc_Name svc) = None)
         \<and> sv_lbs sv' (svc_Name svc) = update_lb svc (sv_lbs sv) (svc_Name svc))
    \<and> (\<forall>name. name \<notin> svc_Name ` set svcs \<longrightarrow> sv_reg sv' name = sv_reg sv name
         \<and> hc_cancels (sv_checker sv') name = hc_cancels (sv_checker sv) name \<and> sv_lbs sv' name = sv_lbs sv name)"
  using assms
proof (induction svcs arbitrary: sv)
  case (Cons svc svcs)
  define sv1 where "sv1 = apply_service svc sv"
  define e0 where "e0 = h_entry_next (sv_heap sv)"
  define new where "new = (if hc_cancels (sv_checker sv) (svc_Name svc) = None then [\<lparr>ck_svc = e0, ck_cancelled = False\<rparr>] else [])"
  note f = apply_service_facts [where svc = svc and sv = sv, folded sv1_def e0_def]
  have g1: "grown sv sv1 new" using grown_apply [of sv svc] by (simp only: sv1_def new_def e0_def)
  obtain extra where g2: "grown sv1 sv' extra"
    and each: "\<forall>s \<in> set svcs. \<exists>e. sv_reg sv' (svc_Name s) = Some e \<and> fresh_entry sv1 sv' s e
         \<and> ((\<exists>c \<in> set extra. ck_svc c = e) \<longleftrightarrow> hc_cancels (sv_checker sv1) (svc_Name s) = None)
         \<and> sv_lbs sv' (svc_Name s) = update_lb s (sv_lbs sv1) (svc_Name s)"
    and frame: "\<forall>name. name \<notin> svc_Name ` set svcs \<longrightarrow> sv_reg sv' name = sv_reg sv1 name
         \<and> hc_cancels (sv_checker sv') name = hc_cancels (sv_checker sv1) name \<and> sv_lbs sv' name = sv_lbs sv1 name"
    using Cons.IH [of sv1] Cons.prems by (auto simp: sv1_def)
  have n: "svc_Name svc \<notin> svc_Name ` set svcs" using Cons.prems(1) by simp
  have head: "\<exists>e. sv_reg sv' (svc_Name svc) = Some e \<and> fresh_entry sv sv' svc e
      \<and> ((\<exists>c \<in> set (new @ extra). ck_svc c = e) \<longleftrightarrow> hc_cancels (sv_checker sv) (svc_Name svc) = None)
      \<and> sv_lbs sv' (svc_Name svc) = update_lb svc (sv_lbs sv) (svc_Name svc)"
  proof (intro exI conjI)
    show "sv_reg sv' (svc_Name svc) = Some e0" "sv_lbs sv' (svc_Name svc) = update_lb svc (sv_lbs sv) (svc_Name svc)"
      using frame n f(8,11) by simp_all
    have same: "h_entry (sv_heap sv') e0 = h_entry (sv_heap sv1) e0" "e0 < h_entry_next (sv_heap sv')"
      using g2 f(1) by (auto simp: grown_def)
    show "fresh_entry sv sv' svc e0"
      unfolding fresh_entry_def same(1)
    proof (intro conjI ballI)
      fix r
      assume "r \<in> set (se_Instances (h_entry (sv_heap sv1) e0))"
      note r = f(6) [OF this]
      then have "h_inst (sv_heap sv') r = h_inst (sv_heap sv1) r" using g2 by (simp add: grown_def)
      then show "h_inst_next (sv_heap sv) \<le> r" "r < h_inst_next (sv_heap sv')" "IsHealthy (h_inst (sv_heap sv') r)"
        using r g2 by (auto simp: grown_def)
    qed (use same(2) f(5,7) in \<open>simp_all add: e0_def\<close>)
    show "(\<exists>c \<in> set (new @ extra). ck_svc c = e0) \<longleftrightarrow> hc_cancels (sv_checker sv) (svc_Name svc) = None"
    proof -
      have "ck_svc c \<noteq> e0" if "c \<in> set extra" for c
      proof -
        have "Suc e0 \<le> ck_svc c" using g2 f(1) that by (simp add: grown_def)
        then show ?thesis by simp
      qed
      then show ?thesis by (auto simp: new_def)
    qed
  qed
  have tail: "\<exists>e. sv_reg sv' (svc_Name s) = Some e \<and> fresh_entry sv sv' s e
      \<and> ((\<exists>c \<in> set (new @ extra). ck_svc c = e) \<longleftrightarrow> hc_cancels (sv_checker sv) (svc_Name s) = None)
      \<and> sv_lbs sv' (svc_Name s) = update_lb s (sv_lbs sv) (svc_Name s)" if s: "s \<in> set svcs" for s
  proof -
    have ne: "svc_Name s \<noteq> svc_Name svc" using s n by (metis image_eqI)
    obtain e where e: "sv_reg sv' (svc_Name s) = Some e" "fresh_entry sv1 sv' s e"
        "(\<exists>c \<in> set extra. ck_svc c = e) \<longleftrightarrow> hc_cancels (sv_checker sv1) (svc_Name s) = None"
        "sv_lbs sv' (svc_Name s) = update_lb s (sv_lbs sv1) (svc_Name s)"
      using bspec [OF each s] by (elim exE conjE) (rule that)
    have "fresh_entry sv sv' s e" "e0 < e" using e(2) f(1,2) by (auto simp: fresh_entry_def e0_def)
    moreover have "hc_cancels (sv_checker sv1) (svc_Name s) = hc_cancels (sv_checker sv) (svc_Name s)" using f(10) ne by simp
    moreover have "update_lb s (sv_lbs sv1) (svc_Name s) = update_lb s (sv_lbs sv) (svc_Name s)"
      using f(11) ne by (auto simp: update_lb_def)
    moreover have "(\<exists>c \<in> set (new @ extra). ck_svc c = e) \<longleftrightarrow> (\<exists>c \<in> set extra. ck_svc c = e)"
      using \<open>e0 < e\<close> by (auto simp: new_def)
    ultimately show ?thesis using e by auto
  qed
  have rest: "sv_reg sv' name = sv_reg sv name
         \<and> hc_cancels (sv_checker sv') name = hc_cancels (sv_checker sv) name \<and> sv_lbs sv' name = sv_lbs sv name"
    if "name \<notin> svc_Name ` set (svc # svcs)" for name
    using that frame f(8,10,11) by (auto simp: update_lb_def)
  show ?case
    using grown_trans [OF g1 g2] head tail rest by (intro exI [of _ "new @ extra"]) auto
qed (auto simp: grown_def)

lemma stop_removed_frame:
  "map ck_svc (hc_gos (stop_removed new names hc)) = map ck_svc (hc_gos hc)"
  "hc_cancels (stop_removed new names hc) name = (if name \<in> set names - new then None else hc_cancels hc name)"
proof -
  have stop: "map ck_svc (hc_gos (StopForService n hc)) = map ck_svc (hc_gos hc)" for n hc
    by (auto simp: StopForService_def map_update split: option.split)
       (metis checker_goroutine.select_convs(1) list_update_id map_update list_update_beyond not_le nth_map)
  show "map ck_svc (hc_gos (stop_removed new names hc)) = map ck_svc (hc_gos hc)"
    unfolding stop_removed_def by (induction names arbitrary: hc) (simp_all add: stop)
  show "hc_cancels (stop_removed new names hc) name = (if name \<in> set names - new then None else hc_cancels hc name)"
    unfolding stop_removed_def by (induction names arbitrary: hc) auto
qed

text \<open>Stopping touches only the goroutines the cancel functions of stopped names belong to.\<close>

lemma stop_removed_keeps:
  "g < length (hc_gos hc) \<Longrightarrow> \<forall>name. name \<notin> new \<longrightarrow> hc_cancels hc name \<noteq> Some g \<Longrightarrow>
    hc_gos (stop_removed new names hc) ! g = hc_gos hc ! g"
proof (induction names arbitrary: hc)
  case (Cons n names)
  let ?hc = "if n \<notin> new then StopForService n hc else hc"
  have step: "hc_gos ?hc ! g = hc_gos hc ! g" "g < length (hc_gos ?hc)"
    using Cons.prems by (auto simp: StopForService_def nth_list_update split: option.split)
  have "hc_gos (stop_removed new names ?hc) ! g = hc_gos ?hc ! g"
    using Cons.prems(2) step(2) by (intro Cons.IH) auto
  then show ?case using step(1) by (simp add: stop_removed_def)
qed (simp add: stop_removed_def)

text \<open>The whole diff: \<open>sv1\<close> before the removed services' goroutines are cancelled.\<close>

lemma diff_facts:
  assumes "sv_ok sv" and "distinct (map svc_Name (cf_Services cfg))" and "svc \<in> set (cf_Services cfg)"
    and "sv' = applyServiceDiff iter cfg sv"
  obtains e extra where "sv_reg sv' (svc_Name svc) = Some e" and "fresh_entry sv sv' svc e"
    and "grown sv (fold apply_service (cf_Services cfg) sv) extra"
    and "sv_heap sv' = sv_heap (fold apply_service (cf_Services cfg) sv)"
    and "map ck_svc (hc_gos (sv_checker sv')) = map ck_svc (hc_gos (sv_checker sv) @ extra)"
    and "(\<exists>c \<in> set (hc_gos (sv_checker sv')). ck_svc c = e \<and> \<not> ck_cancelled c)
      \<longleftrightarrow> hc_cancels (sv_checker sv) (svc_Name svc) = None"
    and "hc_cancels (sv_checker sv) (svc_Name svc) \<noteq> None \<Longrightarrow> \<forall>c \<in> set (hc_gos (sv_checker sv')). ck_svc c \<noteq> e"
    and "sv_lbs sv' (svc_Name svc) = update_lb svc (sv_lbs sv) (svc_Name svc)"
proof -
  define sv1 where "sv1 = fold apply_service (cf_Services cfg) sv"
  define new where "new = svc_Name ` set (cf_Services cfg)"
  define names where "names = iter (ServiceNames (sv_reg sv1))"
  have sv': "sv' = sv1\<lparr>sv_checker := stop_removed new names (sv_checker sv1)\<rparr>"
    using assms(4) by (simp add: applyServiceDiff_def Let_def sv1_def new_def names_def)
  obtain extra where g: "grown sv sv1 extra"
    and each: "\<forall>svc \<in> set (cf_Services cfg). \<exists>e. sv_reg sv1 (svc_Name svc) = Some e \<and> fresh_entry sv sv1 svc e
      \<and> ((\<exists>c \<in> set extra. ck_svc c = e) \<longleftrightarrow> hc_cancels (sv_checker sv) (svc_Name svc) = None)
      \<and> sv_lbs sv1 (svc_Name svc) = update_lb svc (sv_lbs sv) (svc_Name svc)"
    and old: "\<forall>name. name \<notin> new \<longrightarrow> hc_cancels (sv_checker sv1) name = hc_cancels (sv_checker sv) name"
    using apply_services [OF assms(2) sv1_def] unfolding new_def by blast
  obtain e where e: "sv_reg sv1 (svc_Name svc) = Some e" "fresh_entry sv sv1 svc e"
      "(\<exists>c \<in> set extra. ck_svc c = e) \<longleftrightarrow> hc_cancels (sv_checker sv) (svc_Name svc) = None"
      "sv_lbs sv1 (svc_Name svc) = update_lb svc (sv_lbs sv) (svc_Name svc)"
    using bspec [OF each assms(3)] by (elim exE conjE) (rule that)
  have svcs: "map ck_svc (hc_gos (sv_checker sv')) = map ck_svc (hc_gos (sv_checker sv) @ extra)"
    using g by (simp add: sv' stop_removed_frame(1) grown_def)
  let ?k = "length (hc_gos (sv_checker sv))"
  have kept: "hc_gos (sv_checker sv') ! g = extra ! (g - ?k)" if g': "?k \<le> g" "g < ?k + length extra" for g
  proof -
    have "hc_cancels (sv_checker sv1) name \<noteq> Some g" if "name \<notin> new" for name
    proof -
      have "hc_cancels (sv_checker sv) name \<noteq> Some g" using assms(1) g'(1) by (fastforce simp: sv_ok_def)
      then show ?thesis using old that by simp
    qed
    moreover have "g < length (hc_gos (sv_checker sv1))" using g g' by (simp add: grown_def)
    ultimately have "hc_gos (sv_checker sv') ! g = hc_gos (sv_checker sv1) ! g"
      by (simp add: sv' stop_removed_keeps)
    then show ?thesis using g g' by (simp add: grown_def nth_append)
  qed
  have len: "length (hc_gos (sv_checker sv')) = ?k + length extra" using arg_cong [OF svcs, of length] by simp
  have old_svc: "ck_svc (hc_gos (sv_checker sv') ! g) < e" if "g < ?k" for g
  proof -
    have "ck_svc (hc_gos (sv_checker sv') ! g) = ck_svc (hc_gos (sv_checker sv) ! g)"
      using arg_cong [OF svcs, of "\<lambda>xs. xs ! g"] that len by (simp add: nth_append)
    moreover have "ck_svc (hc_gos (sv_checker sv) ! g) < h_entry_next (sv_heap sv)"
      using assms(1) nth_mem [OF that] by (simp add: sv_ok_def)
    moreover have "h_entry_next (sv_heap sv) \<le> e" using e(2) by (simp add: fresh_entry_def)
    ultimately show ?thesis by simp
  qed
  have "(\<exists>c \<in> set (hc_gos (sv_checker sv')). ck_svc c = e \<and> \<not> ck_cancelled c) \<longleftrightarrow> (\<exists>c \<in> set extra. ck_svc c = e)"
  proof
    assume "\<exists>c \<in> set (hc_gos (sv_checker sv')). ck_svc c = e \<and> \<not> ck_cancelled c"
    then obtain g where g': "g < ?k + length extra" "ck_svc (hc_gos (sv_checker sv') ! g) = e"
      using len by (auto simp: in_set_conv_nth)
    then have "?k \<le> g" using old_svc [of g] by (metis less_irrefl not_le)
    then show "\<exists>c \<in> set extra. ck_svc c = e" using kept [of g] g' by (auto intro!: bexI [of _ "extra ! (g - ?k)"])
  next
    assume "\<exists>c \<in> set extra. ck_svc c = e"
    then obtain j where j: "j < length extra" "ck_svc (extra ! j) = e" by (auto simp: in_set_conv_nth)
    then have "hc_gos (sv_checker sv') ! (?k + j) = extra ! j" using kept [of "?k + j"] by simp
    moreover have "\<not> ck_cancelled (extra ! j)" using g j by (auto simp: grown_def)
    ultimately show "\<exists>c \<in> set (hc_gos (sv_checker sv')). ck_svc c = e \<and> \<not> ck_cancelled c"
      using j len by (metis add_less_cancel_left nth_mem)
  qed
  moreover have "\<forall>c \<in> set (hc_gos (sv_checker sv')). ck_svc c \<noteq> e" if "\<not> (\<exists>c \<in> set extra. ck_svc c = e)"
  proof
    fix c assume "c \<in> set (hc_gos (sv_checker sv'))"
    then obtain g where g': "g < ?k + length extra" "c = hc_gos (sv_checker sv') ! g" using len by (auto simp: in_set_conv_nth)
    then show "ck_svc c \<noteq> e"
      using old_svc [of g] kept [of g] that nth_mem [of "g - ?k" extra] by (cases "g < ?k") auto
  qed
  ultimately show thesis
    using that [of e extra] e g svcs by (simp add: sv' sv1_def [symmetric] fresh_entry_def)
qed

text \<open>One tick of some goroutine, whatever the probes find.\<close>

definition ticks :: "health_checker \<Rightarrow> gw_heap \<Rightarrow> gw_heap \<Rightarrow> bool" where
  "ticks hc h h' \<longleftrightarrow> (\<exists>c \<in> set (hc_gos hc). \<exists>order probes.
     mset order = mset (se_Instances (h_entry h (ck_svc c))) \<and> tick (ck_svc c) order probes h = Some h')"

lemma check_each_inst: "check_each cfg probes rs h = Some h' \<Longrightarrow> r \<notin> set rs \<Longrightarrow> h_inst h' r = h_inst h r"
proof (induction rs arbitrary: h)
  case (Cons r' rs)
  then obtain h1 where "checkInstance cfg r' (probes r') h = Some h1" "check_each cfg probes rs h1 = Some h'"
    by (auto split: option.splits)
  with Cons show ?case by (auto simp: checkInstance_def Let_def split: probe.splits if_splits)
qed simp

lemma ticks_frame:
  assumes "(ticks hc)\<^sup>*\<^sup>* h h'" and "\<forall>c \<in> set (hc_gos hc). r \<notin> set (se_Instances (h_entry h (ck_svc c)))"
  shows "h_entry h' = h_entry h \<and> h_inst h' r = h_inst h r"
  using assms
proof (induction rule: rtranclp_induct)
  case (step h1 h2)
  then obtain c order probes where c: "c \<in> set (hc_gos hc)" "mset order = mset (se_Instances (h_entry h1 (ck_svc c)))"
    "tick (ck_svc c) order probes h1 = Some h2" by (auto simp: ticks_def)
  have same: "h_entry h1 = h_entry h" "h_inst h1 r = h_inst h r" using step by simp_all
  have "r \<notin> set order" using c(1,2) step.prems same(1) by (metis mset_eq_setD)
  then show ?case using tick_entry [OF c(3)] check_each_inst same c(3) by (metis tick_def)
qed simp

lemma ticks_entry: "(ticks hc)\<^sup>*\<^sup>* h h' \<Longrightarrow> h_entry h' = h_entry h"
  by (induction rule: rtranclp_induct) (auto simp: ticks_def tick_entry)

text \<open>
  C26: After a reload the name of a configured service resolves to a new entry that lists one
  instance per configured one, all of them healthy whatever was known before; and a live
  goroutine checks that entry exactly when none ran for the name before the reload. For a
  service that was already known the goroutine stays on the entry that was replaced.
\<close>

theorem reload_detaches_checker:
  assumes "sv_ok sv" and "distinct (map svc_Name (cf_Services cfg))" and "svc \<in> set (cf_Services cfg)"
  shows "\<exists>e. Lookup (sv_reg (applyServiceDiff iter cfg sv)) (svc_Name svc) = Some e
    \<and> length (HealthyInstances (sv_heap (applyServiceDiff iter cfg sv)) e) = length (svc_Instances svc)
    \<and> ((\<exists>c \<in> set (hc_gos (sv_checker (applyServiceDiff iter cfg sv))). ck_svc c = e \<and> \<not> ck_cancelled c)
       \<longleftrightarrow> hc_cancels (sv_checker sv) (svc_Name svc) = None)"
proof -
  obtain e where e: "sv_reg (applyServiceDiff iter cfg sv) (svc_Name svc) = Some e"
    "fresh_entry sv (applyServiceDiff iter cfg sv) svc e"
    "(\<exists>c \<in> set (hc_gos (sv_checker (applyServiceDiff iter cfg sv))). ck_svc c = e \<and> \<not> ck_cancelled c)
      \<longleftrightarrow> hc_cancels (sv_checker sv) (svc_Name svc) = None"
    by (rule diff_facts [OF assms refl])
  have "HealthyInstances (sv_heap (applyServiceDiff iter cfg sv)) e
      = se_Instances (h_entry (sv_heap (applyServiceDiff iter cfg sv)) e)"
    using e(2) by (simp add: HealthyInstances_def fresh_entry_def)
  then show ?thesis using e by (simp add: Lookup_def fresh_entry_def)
qed

text \<open>Services before any reload: what \<open>main\<close> starts from.\<close>

definition no_services :: services where
  "no_services = \<lparr>sv_heap = \<lparr>h_inst = h_inst sample_heap, h_inst_next = 0, h_entry = h_entry sample_heap, h_entry_next = 0\<rparr>,
     sv_reg = new_registry, sv_checker = new_health_checker, sv_lbs = Map.empty\<rparr>"

lemma sv_ok_none: "sv_ok no_services"
  by (simp add: sv_ok_def no_services_def new_health_checker_def)

lemma sv_ok_fold: "sv_ok sv \<Longrightarrow> sv_ok (fold apply_service svcs sv)"
  by (induction svcs arbitrary: sv) (simp_all add: sv_ok_apply)

lemma sv_ok_diff: "sv_ok sv \<Longrightarrow> sv_ok (applyServiceDiff iter cfg sv)"
proof -
  assume "sv_ok sv"
  then have ok: "sv_ok (fold apply_service (cf_Services cfg) sv)" by (rule sv_ok_fold)
  have gos: "ck_svc ` set (hc_gos (stop_removed new names hc)) = ck_svc ` set (hc_gos hc)" for new names hc
    using arg_cong [OF stop_removed_frame(1) [of new names hc], of set] by simp
  have len: "length (hc_gos (stop_removed new names hc)) = length (hc_gos hc)" for new names hc
    using arg_cong [OF stop_removed_frame(1) [of new names hc], of length] by simp
  have "sv_ok (sv1\<lparr>sv_checker := stop_removed new names (sv_checker sv1)\<rparr>)" if "sv_ok sv1" for sv1 new names
    unfolding sv_ok_def
  proof (intro conjI ballI)
    fix c
    assume "c \<in> set (hc_gos (sv_checker (sv1\<lparr>sv_checker := stop_removed new names (sv_checker sv1)\<rparr>)))"
    then have "ck_svc c \<in> ck_svc ` set (hc_gos (sv_checker sv1))" using gos by fastforce
    then show "ck_svc c < h_entry_next (sv_heap (sv1\<lparr>sv_checker := stop_removed new names (sv_checker sv1)\<rparr>))"
      using that by (auto simp: sv_ok_def)
  qed (use that in \<open>simp_all add: sv_ok_def len stop_removed_frame(2)\<close>)
  then show ?thesis using ok by (simp add: applyServiceDiff_def Let_def)
qed

abbreviation sample_services :: services where
  "sample_services \<equiv> applyServiceDiff (\<lambda>_. []) (sample_config 8080) no_services"

lemma sample_config_services: "cf_Services (sample_config n) = [sample_service ''s'' ''random'']"
  by (simp add: sample_config_def)


lemma sample_known: "hc_cancels (sv_checker sample_services) ''s'' = Some 0"
  by (simp add: applyServiceDiff_def sample_config_services stop_removed_def Let_def
      apply_service_facts(10) no_services_def new_health_checker_def sample_service_def)

theorem reload_detaches_checker_witness:
  "\<exists>e. Lookup (sv_reg (applyServiceDiff (\<lambda>_. []) (sample_config 8080) sample_services)) ''s'' = Some e
    \<and> (\<forall>c \<in> set (hc_gos (sv_checker (applyServiceDiff (\<lambda>_. []) (sample_config 8080) sample_services))).
         ck_svc c = e \<longrightarrow> ck_cancelled c)"
proof -
  have ok: "sv_ok sample_services" by (rule sv_ok_diff [OF sv_ok_none])
  have mem: "sample_service ''s'' ''random'' \<in> set (cf_Services (sample_config 8080))"
    and dist: "distinct (map svc_Name (cf_Services (sample_config 8080)))"
    by (simp_all add: sample_config_def)
  note sample_known
  moreover have "svc_Name (sample_service ''s'' ''random'') = ''s''" by (simp add: sample_service_def)
  ultimately show ?thesis
    using reload_detaches_checker [OF ok dist mem, of "\<lambda>_. []"] by auto
qed

text \<open>
  The instances of a service that was known before the reload are never marked
  unhealthy again: whatever the health checks find from then on, every instance of the entry
  the name resolves to stays in the healthy set, so a dead one keeps receiving its share of
  the traffic.
\<close>

theorem reloaded_service_unchecked:
  assumes "sv_ok sv" and "distinct (map svc_Name (cf_Services cfg))" and "svc \<in> set (cf_Services cfg)"
    and known: "hc_cancels (sv_checker sv) (svc_Name svc) \<noteq> None"
    and "(ticks (sv_checker (applyServiceDiff iter cfg sv)))\<^sup>*\<^sup>* (sv_heap (applyServiceDiff iter cfg sv)) h"
  shows "\<exists>e. Lookup (sv_reg (applyServiceDiff iter cfg sv)) (svc_Name svc) = Some e
    \<and> HealthyInstances h e = se_Instances (h_entry h e) \<and> length (se_Instances (h_entry h e)) = length (svc_Instances svc)"
proof -
  define sv' where "sv' = applyServiceDiff iter cfg sv"
  obtain e where e: "sv_reg sv' (svc_Name svc) = Some e" "fresh_entry sv sv' svc e"
    and none: "\<forall>c \<in> set (hc_gos (sv_checker sv')). ck_svc c \<noteq> e"
    by (rule diff_facts [OF assms(1-3) sv'_def]) (use known in blast)
  have ok: "sv_ok sv'" unfolding sv'_def by (rule sv_ok_diff [OF assms(1)])
  have inst: "h_inst h r = h_inst (sv_heap sv') r \<and> h_entry h = h_entry (sv_heap sv')"
    if "r \<in> set (se_Instances (h_entry (sv_heap sv') e))" for r
  proof -
    have "r \<notin> set (se_Instances (h_entry (sv_heap sv') (ck_svc c)))" if "c \<in> set (hc_gos (sv_checker sv'))" for c
      using none that ok \<open>r \<in> _\<close> e(2) by (cases "ck_svc c < e") (fastforce simp: sv_ok_def fresh_entry_def nat_neq_iff)+
    then show ?thesis using ticks_frame [of "sv_checker sv'" "sv_heap sv'" h r] assms(5) by (simp add: sv'_def)
  qed
  have entry: "h_entry h = h_entry (sv_heap sv')" using ticks_entry assms(5) by (simp add: sv'_def)
  have "HealthyInstances h e = se_Instances (h_entry h e)"
    using inst e(2) by (simp add: HealthyInstances_def entry fresh_entry_def)
  then show ?thesis using e entry by (simp add: sv'_def [symmetric] Lookup_def fresh_entry_def)
qed

theorem reloaded_service_unchecked_witness:
  "\<exists>e. Lookup (sv_reg (applyServiceDiff (\<lambda>_. []) (sample_config 8080) sample_services)) ''s'' = Some e
    \<and> length (HealthyInstances (sv_heap (applyServiceDiff (\<lambda>_. []) (sample_config 8080) sample_services)) e) = 1"
proof -
  have mem: "sample_service ''s'' ''random'' \<in> set (cf_Services (sample_config 8080))"
    and dist: "distinct (map svc_Name (cf_Services (sample_config 8080)))"
    by (simp_all add: sample_config_def)
  have known: "hc_cancels (sv_checker sample_services) (svc_Name (sample_service ''s'' ''random'')) \<noteq> None"
    using sample_known by (simp add: sample_service_def)
  from reloaded_service_unchecked [OF sv_ok_diff [OF sv_ok_none] dist mem known rtranclp.rtrancl_refl [of "ticks _"]]
  obtain e where e: "Lookup (sv_reg (applyServiceDiff (\<lambda>_. []) (sample_config 8080) sample_services)) ''s'' = Some e"
    "HealthyInstances (sv_heap (applyServiceDiff (\<lambda>_. []) (sample_config 8080) sample_services)) e
      = se_Instances (h_entry (sv_heap (applyServiceDiff (\<lambda>_. []) (sample_config 8080) sample_services)) e)"
    "length (se_Instances (h_entry (sv_heap (applyServiceDiff (\<lambda>_. []) (sample_config 8080) sample_services)) e)) = 1"
    by (auto simp: sample_service_def)
  then show ?thesis by (intro exI [of _ e]) simp
qed

subsection \<open>What else a reload does to the services\<close>

lemma finite_reg_fold: "finite (dom (sv_reg sv)) \<Longrightarrow> finite (dom (sv_reg (fold apply_service svcs sv)))"
  by (induction svcs arbitrary: sv) (simp_all add: apply_service_facts(8))

text \<open>Ranging over a map visits every key.\<close>

definition visits_all :: "(string set \<Rightarrow> string list) \<Rightarrow> bool" where
  "visits_all iter \<longleftrightarrow> (\<forall>S. finite S \<longrightarrow> set (iter S) = S)"

text \<open>
  A service that the new configuration no longer has keeps its registry entry, with the
  instances as they were last known, while its health checks stop: removing a service takes
  nothing away from a request that asks the registry for it.
\<close>

theorem removed_service_stays_registered:
  assumes "name \<notin> svc_Name ` set (cf_Services cfg)" and "distinct (map svc_Name (cf_Services cfg))"
    and "Lookup (sv_reg sv) name = Some e" and "e < h_entry_next (sv_heap sv)"
    and "finite (dom (sv_reg sv))" and "visits_all iter"
  shows "Lookup (sv_reg (applyServiceDiff iter cfg sv)) name = Some e
    \<and> h_entry (sv_heap (applyServiceDiff iter cfg sv)) e = h_entry (sv_heap sv) e
    \<and> hc_cancels (sv_checker (applyServiceDiff iter cfg sv)) name = None"
proof -
  define sv1 where "sv1 = fold apply_service (cf_Services cfg) sv"
  obtain extra where "grown sv sv1 extra" "sv_reg sv1 name = sv_reg sv name"
    using apply_services [OF assms(2) sv1_def] assms(1) by blast
  moreover have "set (iter (dom (sv_reg sv1))) = dom (sv_reg sv1)"
    using assms(5,6) finite_reg_fold by (simp add: visits_all_def sv1_def)
  ultimately show ?thesis
    using assms by (simp add: applyServiceDiff_def Let_def sv1_def [symmetric] Lookup_def ServiceNames_def
        stop_removed_frame(2) grown_def domIff)
qed

theorem removed_service_stays_registered_witness:
  "Lookup (sv_reg sample_services) ''s'' = Some 0
   \<and> Lookup (sv_reg (applyServiceDiff sorted_list_of_set ((sample_config 8080)\<lparr>cf_Services := []\<rparr>) sample_services)) ''s'' = Some 0
   \<and> hc_cancels (sv_checker sample_services) ''s'' \<noteq> None
   \<and> hc_cancels (sv_checker (applyServiceDiff sorted_list_of_set ((sample_config 8080)\<lparr>cf_Services := []\<rparr>) sample_services)) ''s'' = None"
proof -
  have reg: "sv_reg sample_services = [''s'' \<mapsto> 0]" and nxt: "h_entry_next (sv_heap sample_services) = 1"
    by (simp_all add: applyServiceDiff_def sample_config_services Let_def apply_service_facts(1,8)
        no_services_def new_registry_def sample_service_def)
  have "visits_all sorted_list_of_set" by (simp add: visits_all_def)
  from removed_service_stays_registered [of "''s''" "(sample_config 8080)\<lparr>cf_Services := []\<rparr>" sample_services 0, OF _ _ _ _ _ this]
  show ?thesis using reg nxt sample_known by (simp add: Lookup_def)
qed

text \<open>
  The balancer a reload leaves for a service depends on its old balancer: \<open>random\<close>
  replaces whatever was there, every other strategy keeps an existing balancer, and a
  service without one gets round robin. So a change from \<open>random\<close> to \<open>round-robin\<close> or
  \<open>smart\<close> has no effect, and \<open>smart\<close> on a new service gives round robin.
\<close>

theorem reload_balancer_choice:
  assumes "sv_ok sv" and "distinct (map svc_Name (cf_Services cfg))" and "svc \<in> set (cf_Services cfg)"
  shows "sv_lbs (applyServiceDiff iter cfg sv) (svc_Name svc) =
    Some (if svc_LBStrategy svc = ''random'' then LbRandom
          else case sv_lbs sv (svc_Name svc) of Some lb \<Rightarrow> lb | None \<Rightarrow> LbRoundRobin NewRoundRobin)"
proof -
  have "sv_lbs (applyServiceDiff iter cfg sv) (svc_Name svc) = update_lb svc (sv_lbs sv) (svc_Name svc)"
    by (rule diff_facts [OF assms refl])
  then show ?thesis by (auto simp: update_lb_def split: option.split)
qed

theorem reload_balancer_choice_witness:
  "sv_lbs (applyServiceDiff (\<lambda>_. []) ((sample_config 8080)\<lparr>cf_Services := [sample_service ''s'' ''smart'']\<rparr>)
     (no_services\<lparr>sv_lbs := [''s'' \<mapsto> LbRandom]\<rparr>)) ''s'' = Some LbRandom"
proof -
  have ok: "sv_ok (no_services\<lparr>sv_lbs := [''s'' \<mapsto> LbRandom]\<rparr>)" using sv_ok_none by (simp add: sv_ok_def)
  have mem: "sample_service ''s'' ''smart'' \<in> set (cf_Services ((sample_config 8080)\<lparr>cf_Services := [sample_service ''s'' ''smart'']\<rparr>))"
    and dist: "distinct (map svc_Name (cf_Services ((sample_config 8080)\<lparr>cf_Services := [sample_service ''s'' ''smart'']\<rparr>)))"
    by simp_all
  from reload_balancer_choice [OF ok dist mem, of "\<lambda>_. []"] show ?thesis by (simp add: sample_service_def)
qed

end
