(* ===== verification/Hot_Reload.thy ===== *)
theory Hot_Reload
  imports Gateway_Runtime Service_Diff Observability
begin

section \<open>The reloader (\<open>internal/runtime/reloader.go\<close>)\<close>

text \<open>
  The loop that takes configurations from the loader, applies the services, builds a runtime,
  swaps it in and closes the old one after a drain window. Its state holds the loader, the
  holder, the services and the goroutines that wait to close replaced runtimes.
\<close>

subsection \<open>The reloader\<close>

abbreviation DrainWindow :: duration where "DrainWindow \<equiv> 30 * second"

text \<open>
  \<open>rl_retiring\<close>: the goroutines that sleep, with the runtime each will close and when it
  wakes; \<open>rl_watcher\<close>: the loader's goroutine that watches the file; \<open>rl_closed\<close>: the runtimes closed, with their wake and closing times; \<open>rl_world\<close>:
  what the plugins' \<open>Close\<close> methods act on; \<open>rl_metrics\<close>: the updates made through the metrics
  pointer, which is taken not to be nil, oldest first.
\<close>

record 'w Reloader =
  rl_loader :: loader
  rl_watcher :: watcher
  rl_ch :: nat
  rl_running :: bool
  rl_holder :: "'w RuntimeHolder"
  rl_services :: services
  rl_versionCount :: "64 word"
  rl_metrics :: "metric_update list"
  rl_retiring :: "('w GatewayRuntime option \<times> gotime) list"
  rl_closed :: "('w GatewayRuntime \<times> gotime \<times> gotime) list"
  rl_world :: 'w

definition NewReloader :: "loader \<Rightarrow> 'w RuntimeHolder \<Rightarrow> services \<Rightarrow> 'w \<Rightarrow> 'w Reloader" where
  "NewReloader ld holder sv world =
     \<lparr>rl_loader = ld, rl_watcher = new_watcher, rl_ch = 0, rl_running = False, rl_holder = holder, rl_services = sv, rl_versionCount = 0,
      rl_metrics = [], rl_retiring = [], rl_closed = [], rl_world = world\<rparr>"

definition applyReload :: "'w reload_env \<Rightarrow> gotime \<Rightarrow> config \<Rightarrow> 'w Reloader \<Rightarrow> 'w Reloader" where
  "applyReload env now newCfg rl =
     (let ver = rl_versionCount rl + 1;
          rl1 = rl\<lparr>rl_versionCount := ver, rl_services := applyServiceDiff (en_iter env) newCfg (rl_services rl)\<rparr>
      in case runtime_Build env newCfg ver of
           Inl e \<Rightarrow> rl1\<lparr>rl_metrics := rl_metrics rl1 @ [Update ConfigReloadFailures [] OpInc]\<rparr>
         | Inr newRT \<Rightarrow>
             let (oldRT, holder) = holder_Swap newRT (rl_holder rl1)
             in rl1\<lparr>rl_holder := holder, rl_metrics := rl_metrics rl1 @ [Update RuntimeVersion [] (OpSet (f_of_int (uint ver))),
                      Update ConfigReloads [''success''] OpInc],
                    rl_retiring := rl_retiring rl1 @ [(oldRT, now + DrainWindow)]\<rparr>)"

text \<open>\<open>Start\<close> subscribes a channel of capacity one and starts the loop.\<close>

definition reloader_Start :: "'w Reloader \<Rightarrow> 'w Reloader" where
  "reloader_Start rl =
     rl\<lparr>rl_ch := length (ld_subscribers (rl_loader rl)),
        rl_loader := Subscribe \<lparr>ch_cap = 1, ch_buf = []\<rparr> (rl_loader rl), rl_running := True\<rparr>"

text \<open>
  The events: the context ends, the channel is closed, the loop receives from its channel (a
  no-op while it is empty), a sleeping goroutine wakes, somebody forces a reload of the file,
  the loader's watcher gets an event or its timer runs.
\<close>

datatype reload_event = CtxDone | ChannelClosed | Received gotime | Drained nat gotime | Forced config_source | Watched watch_event

definition recv_config :: "'w Reloader \<Rightarrow> (config \<times> 'w Reloader) option" where
  "recv_config rl =
     (let subs = ld_subscribers (rl_loader rl)
      in case ch_buf (subs ! rl_ch rl) of
           [] \<Rightarrow> None
         | cfg # rest \<Rightarrow> Some (cfg, rl\<lparr>rl_loader := (rl_loader rl)\<lparr>ld_subscribers :=
             subs[rl_ch rl := (subs ! rl_ch rl)\<lparr>ch_buf := rest\<rparr>]\<rparr>\<rparr>))"

definition drain :: "'w reload_env \<Rightarrow> nat \<Rightarrow> gotime \<Rightarrow> 'w Reloader \<Rightarrow> 'w Reloader" where
  "drain env i now rl =
     (if i < length (rl_retiring rl) \<and> snd (rl_retiring rl ! i) \<le> now
      then let (oldRT, wake) = rl_retiring rl ! i;
               rl1 = rl\<lparr>rl_retiring := take i (rl_retiring rl) @ drop (Suc i) (rl_retiring rl)\<rparr>
           in case oldRT of
                None \<Rightarrow> rl1
              | Some rt \<Rightarrow> rl1\<lparr>rl_closed := rl_closed rl1 @ [(rt, wake, now)],
                              rl_world := runtime_Close (en_iter env) rt (rl_world rl1)\<rparr>
      else rl)"

fun reloader_step :: "'w reload_env \<Rightarrow> reload_event \<Rightarrow> 'w Reloader \<Rightarrow> 'w Reloader" where
  "reloader_step env CtxDone rl = rl\<lparr>rl_running := False\<rparr>"
| "reloader_step env ChannelClosed rl = rl\<lparr>rl_running := False\<rparr>"
| "reloader_step env (Received now) rl =
     (if rl_running rl then (case recv_config rl of None \<Rightarrow> rl | Some (cfg, rl1) \<Rightarrow> applyReload env now cfg rl1) else rl)"
| "reloader_step env (Drained i now) rl = drain env i now rl"
| "reloader_step env (Forced src) rl = rl\<lparr>rl_loader := snd (ForceReload (en_rx env) src (rl_loader rl))\<rparr>"
| "reloader_step env (Watched ev) rl =
     (let (w, l) = watch_step (en_rx env) ev (rl_watcher rl, rl_loader rl) in rl\<lparr>rl_watcher := w, rl_loader := l\<rparr>)"

subsection \<open>The life of a runtime\<close>

text \<open>
  A reload whose build fails leaves the current runtime in place and counts a failure,
  but the services were already updated: the gateway then routes with the old configuration
  over the new services.
\<close>

theorem failed_reload_half_applied:
  assumes "runtime_Build env cfg (rl_versionCount rl + 1) = Inl err"
  shows "rh_current (rl_holder (applyReload env now cfg rl)) = rh_current (rl_holder rl)
    \<and> rl_retiring (applyReload env now cfg rl) = rl_retiring rl
    \<and> rl_metrics (applyReload env now cfg rl) = rl_metrics rl @ [Update ConfigReloadFailures [] OpInc]
    \<and> rl_services (applyReload env now cfg rl) = applyServiceDiff (en_iter env) cfg (rl_services rl)"
  using assms by (simp add: applyReload_def Let_def)

lemma reload_ok:
  assumes "runtime_Build env cfg (rl_versionCount rl + 1) = Inr rt"
  shows "applyReload env now cfg rl = rl\<lparr>rl_versionCount := rl_versionCount rl + 1,
     rl_services := applyServiceDiff (en_iter env) cfg (rl_services rl), rl_holder := \<lparr>rh_current = Some rt\<rparr>,
     rl_metrics := rl_metrics rl @ [Update RuntimeVersion [] (OpSet (f_of_int (uint (rl_versionCount rl + 1)))), Update ConfigReloads [''success''] OpInc],
     rl_retiring := rl_retiring rl @ [(rh_current (rl_holder rl), now + DrainWindow)]\<rparr>"
  using assms by (cases "rl_holder rl") (simp add: applyReload_def holder_Swap_def Let_def)

text \<open>The runtimes that exist, each where it is in its life.\<close>

definition runtimes :: "'w Reloader \<Rightarrow> 'w GatewayRuntime list" where
  "runtimes rl = map fst (rl_closed rl) @ concat (map (\<lambda>(rt, wake). case rt of Some x \<Rightarrow> [x] | None \<Rightarrow> []) (rl_retiring rl))
     @ (case rh_current (rl_holder rl) of Some x \<Rightarrow> [x] | None \<Rightarrow> [])"

definition rl_inv :: "'w Reloader \<Rightarrow> bool" where
  "rl_inv rl \<longleftrightarrow> distinct (map (unat \<circ> gr_Version) (runtimes rl))
     \<and> (\<forall>rt \<in> set (runtimes rl). unat (gr_Version rt) \<le> unat (rl_versionCount rl))
     \<and> (\<forall>(rt, wake, closed_at) \<in> set (rl_closed rl). wake \<le> closed_at)"

lemma runtimes_drain: "mset (runtimes (drain env i now rl)) = mset (runtimes rl)"
proof (cases "i < length (rl_retiring rl) \<and> snd (rl_retiring rl ! i) \<le> now")
  case True
  obtain old wake where r: "rl_retiring rl ! i = (old, wake)" by fastforce
  define pre where "pre = take i (rl_retiring rl)"
  define post where "post = drop (Suc i) (rl_retiring rl)"
  have split: "rl_retiring rl = pre @ (old, wake) # post"
    using True r id_take_nth_drop [of i "rl_retiring rl"] by (simp add: pre_def post_def)
  have "drain env i now rl = (case old of None \<Rightarrow> rl\<lparr>rl_retiring := pre @ post\<rparr>
      | Some rt \<Rightarrow> rl\<lparr>rl_retiring := pre @ post, rl_closed := rl_closed rl @ [(rt, wake, now)],
          rl_world := runtime_Close (en_iter env) rt (rl_world rl)\<rparr>)"
    using True r by (simp add: drain_def Let_def pre_def post_def split: option.split)
  then show ?thesis by (cases old) (simp_all add: runtimes_def split)
qed (auto simp: drain_def)

lemma closed_drain: "\<forall>(rt, wake, t) \<in> set (rl_closed rl). wake \<le> t \<Longrightarrow> \<forall>(rt, wake, t) \<in> set (rl_closed (drain env i now rl)). wake \<le> t"
  by (auto simp: drain_def Let_def split: prod.splits option.splits)

lemma version_drain: "rl_versionCount (drain env i now rl) = rl_versionCount rl"
  by (auto simp: drain_def Let_def split: prod.splits option.splits)

lemma runtimes_reload:
  "runtime_Build env cfg (rl_versionCount rl + 1) = Inr rt \<Longrightarrow> runtimes (applyReload env now cfg rl) = runtimes rl @ [rt]"
  by (simp add: reload_ok runtimes_def)

lemma distinct_mset: "mset xs = mset ys \<Longrightarrow> distinct (map f xs) \<longleftrightarrow> distinct (map f ys)"
  by (metis mset_eq_imp_distinct_iff mset_map)

lemma Build_version: "runtime_Build env cfg v = Inr rt \<Longrightarrow> gr_Version rt = v"
  by (auto simp: runtime_Build_def split: option.splits sum.splits)

lemma reload_inv:
  assumes "rl_inv rl" and "Suc (unat (rl_versionCount rl)) < 2 ^ 64"
  shows "rl_inv (applyReload env now cfg rl) \<and> unat (rl_versionCount (applyReload env now cfg rl)) = Suc (unat (rl_versionCount rl))"
proof -
  have v: "unat (rl_versionCount rl + 1) = Suc (unat (rl_versionCount rl))"
    using assms(2) by (simp add: unat_word_ariths)
  show ?thesis
  proof (cases "runtime_Build env cfg (rl_versionCount rl + 1)")
    case (Inl err)
    then have "runtimes (applyReload env now cfg rl) = runtimes rl" "rl_closed (applyReload env now cfg rl) = rl_closed rl"
      "rl_versionCount (applyReload env now cfg rl) = rl_versionCount rl + 1"
      by (simp_all add: applyReload_def runtimes_def Let_def)
    then show ?thesis using assms(1) v by (fastforce simp: rl_inv_def)
  next
    case (Inr rt)
    have new: "unat (gr_Version rt) = Suc (unat (rl_versionCount rl))" using Build_version [OF Inr] v by simp
    then have "unat (gr_Version rt) \<notin> (unat \<circ> gr_Version) ` set (runtimes rl)"
      using assms(1) by (fastforce simp: rl_inv_def)
    moreover have "rl_closed (applyReload env now cfg rl) = rl_closed rl"
      "rl_versionCount (applyReload env now cfg rl) = rl_versionCount rl + 1"
      by (simp_all add: reload_ok [OF Inr])
    moreover have "unat (gr_Version x) \<le> Suc (unat (rl_versionCount rl))" if "x \<in> set (runtimes rl)" for x
      using assms(1) that by (simp add: rl_inv_def le_SucI)
    ultimately show ?thesis
      using assms(1) new v by (simp add: rl_inv_def runtimes_reload [OF Inr])
  qed
qed

lemma recv_frame: "recv_config rl = Some (cfg, rl1) \<Longrightarrow>
    runtimes rl1 = runtimes rl \<and> rl_closed rl1 = rl_closed rl \<and> rl_versionCount rl1 = rl_versionCount rl"
  by (auto simp: recv_config_def Let_def runtimes_def split: list.splits)

lemma reloader_step_inv:
  assumes "rl_inv rl" and "Suc (unat (rl_versionCount rl)) < 2 ^ 64"
  shows "rl_inv (reloader_step env ev rl)
    \<and> unat (rl_versionCount (reloader_step env ev rl)) \<le> Suc (unat (rl_versionCount rl))"
proof (cases ev)
  case (Received now)
  show ?thesis
  proof (cases "recv_config rl")
    case (Some p)
    obtain cfg rl1 where p: "p = (cfg, rl1)" by fastforce
    note f = recv_frame [OF Some [unfolded p]]
    have "rl_inv rl1" using assms(1) f by (simp add: rl_inv_def)
    then show ?thesis
      using reload_inv [of rl1 env now cfg] assms f Some by (simp add: Received p)
  qed (use assms Received in simp)
next
  case (Drained i now)
  have "distinct (map (unat \<circ> gr_Version) (runtimes (drain env i now rl)))"
    "set (runtimes (drain env i now rl)) = set (runtimes rl)"
    using assms(1) distinct_mset [OF runtimes_drain [of env i now rl], of "unat \<circ> gr_Version"]
      mset_eq_setD [OF runtimes_drain [of env i now rl]] by (simp_all add: rl_inv_def)
  then show ?thesis
    using assms(1) closed_drain [of rl env i now] by (simp add: Drained rl_inv_def version_drain)
qed (use assms in \<open>auto simp: rl_inv_def runtimes_def split: prod.split\<close>)

lemma reloader_run_inv:
  "rl_inv rl \<Longrightarrow> unat (rl_versionCount rl) + length es < 2 ^ 64 \<Longrightarrow> rl_inv (fold (reloader_step env) es rl)"
proof (induction es arbitrary: rl)
  case (Cons ev es)
  have "Suc (unat (rl_versionCount rl)) < 2 ^ 64" using Cons.prems(2) by simp
  from reloader_step_inv [OF Cons.prems(1) this, of env ev] show ?case
    using Cons.IH [of "reloader_step env ev rl"] Cons.prems(2) by simp
qed simp




lemma recv_retirements: "recv_config rl = Some (cfg, rl1) \<Longrightarrow>
    rl_retiring rl1 = rl_retiring rl \<and> rl_closed rl1 = rl_closed rl \<and> rl_holder rl1 = rl_holder rl"
  by (auto simp: recv_config_def Let_def split: list.splits)





definition sample_runtime :: "exchange GatewayRuntime" where
  "sample_runtime = \<lparr>gr_Version = 0, gr_Router = \<lparr>ro_exact = Map.empty, ro_prefix = [], ro_regexes = []\<rparr>,
     gr_PluginChains = Map.empty\<rparr>"

definition sample_reloader :: "exchange Reloader" where
  "sample_reloader = reloader_Start (NewReloader \<lparr>ld_current = sample_chain_config, ld_subscribers = []\<rparr>
     (NewRuntimeHolder (Some sample_runtime)) no_services \<lparr>ex_w = new_rw, ex_r = sample_request\<rparr>)"

theorem failed_reload_half_applied_witness:
  "\<exists>err. runtime_Build sample_env (sample_chain_config\<lparr>cf_Plugins := []\<rparr>) 1 = Inl err
    \<and> rh_current (rl_holder (applyReload sample_env 5 (sample_chain_config\<lparr>cf_Plugins := []\<rparr>) sample_reloader)) = Some sample_runtime
    \<and> Lookup (sv_reg (rl_services (applyReload sample_env 5 (sample_chain_config\<lparr>cf_Plugins := []\<rparr>) sample_reloader))) ''s'' \<noteq> None"
proof -
  let ?cfg = "sample_chain_config\<lparr>cf_Plugins := []\<rparr>"
  obtain err where err: "runtime_Build sample_env ?cfg (rl_versionCount sample_reloader + 1) = Inl err"
    by (simp add: runtime_Build_def sample_env_def sample_chain_config_def sample_route_def router_New_def buildRoute_def
      plugin_Build_def name_to_type_def insertion_sort_def Let_def)
  have "Lookup (sv_reg (applyServiceDiff (en_iter sample_env) ?cfg no_services)) ''s'' \<noteq> None"
    by (simp add: applyServiceDiff_def sample_chain_config_def sample_config_def Lookup_def apply_service_facts(8)
        sample_service_def Let_def)
  moreover have "rl_services sample_reloader = no_services" "rl_versionCount sample_reloader = 0"
    "rh_current (rl_holder sample_reloader) = Some sample_runtime"
    by (simp_all add: sample_reloader_def reloader_Start_def NewReloader_def NewRuntimeHolder_def)
  ultimately show ?thesis using failed_reload_half_applied [OF err, of 5] err by auto
qed

subsection \<open>Whatever is reloaded, every matched route has its chain\<close>

definition plugins_of :: "'w reload_env \<Rightarrow> config \<Rightarrow> RouteConfig \<Rightarrow> 'w plugin list \<Rightarrow> bool" where
  "plugins_of env cfg rc ps \<longleftrightarrow> list_all2 (\<lambda>r p. \<exists>ty f. name_to_type (cf_Plugins cfg) (pr_Name r) = Some ty
     \<and> en_pluginReg env ty = Some f \<and> f (pr_Config r) = Some p) (sort_key pr_Order (rc_Plugins rc)) ps"

definition live_inv :: "'w reload_env \<Rightarrow> 'w Reloader \<Rightarrow> bool" where
  "live_inv env rl \<longleftrightarrow> loader_inv (en_rx env) (rl_loader rl) \<and> rl_ch rl < length (ld_subscribers (rl_loader rl))
     \<and> (\<exists>rt cfg v. rh_current (rl_holder rl) = Some rt \<and> settled (en_rx env) cfg \<and> runtime_Build env cfg v = Inr rt)"

lemma loader_inv_force: "loader_inv rx l \<Longrightarrow> loader_inv rx (snd (ForceReload rx src l))"
  by (auto simp: ForceReload_def split: sum.split intro: fanOut_inv load_settled)

lemma subscribers_force [simp]: "length (ld_subscribers (snd (ForceReload rx src l))) = length (ld_subscribers l)"
  by (simp add: ForceReload_def fanOut_def split: sum.split)

lemma subscribers_watch: "length (ld_subscribers (snd (watch_step rx e s))) = length (ld_subscribers (snd s))"
  by (cases s; cases e) (auto simp: timer_AfterFunc_def fanOut_def Let_def split: option.split sum.split)

lemma live_inv_recv:
  assumes "live_inv env rl" and "recv_config rl = Some (cfg, rl1)"
  shows "settled (en_rx env) cfg \<and> live_inv env rl1"
proof -
  let ?subs = "ld_subscribers (rl_loader rl)"
  have ch: "?subs ! rl_ch rl \<in> set ?subs" using assms(1) by (simp add: live_inv_def)
  obtain rest where b: "ch_buf (?subs ! rl_ch rl) = cfg # rest"
    and r: "rl1 = rl\<lparr>rl_loader := (rl_loader rl)\<lparr>ld_subscribers := ?subs[rl_ch rl := (?subs ! rl_ch rl)\<lparr>ch_buf := rest\<rparr>]\<rparr>\<rparr>"
    using assms(2) by (auto simp: recv_config_def Let_def split: list.splits)
  have all: "\<forall>ch \<in> set ?subs. \<forall>c \<in> set (ch_buf ch). settled (en_rx env) c" using assms(1) by (simp add: live_inv_def loader_inv_def)
  then have "\<forall>c \<in> set (cfg # rest). settled (en_rx env) c" using ch b by metis
  moreover have "\<forall>ch \<in> set (?subs[rl_ch rl := (?subs ! rl_ch rl)\<lparr>ch_buf := rest\<rparr>]). \<forall>c \<in> set (ch_buf ch). settled (en_rx env) c"
    by (rule ball_update) (use all calculation in simp_all)
  ultimately show ?thesis using assms(1) by (simp add: live_inv_def loader_inv_def r)
qed

lemma live_inv_apply: "live_inv env rl \<Longrightarrow> settled (en_rx env) cfg \<Longrightarrow> live_inv env (applyReload env now cfg rl)"
  by (auto simp: live_inv_def applyReload_def holder_Swap_def Let_def split: sum.split)

lemma live_inv_step [gw_inv]: "live_inv env rl \<Longrightarrow> live_inv env (reloader_step env ev rl)"
proof (cases ev)
  case (Received now)
  assume "live_inv env rl"
  then show ?thesis using live_inv_recv [of env rl] live_inv_apply [of env]
    by (cases "recv_config rl") (auto simp: Received)
next
  case (Drained i now)
  assume "live_inv env rl"
  then show ?thesis by (simp add: Drained live_inv_def drain_def Let_def split: prod.split option.split)
next
  case (Forced src)
  assume "live_inv env rl"
  then show ?thesis by (auto simp: Forced live_inv_def loader_inv_force)
next
  case (Watched e)
  assume "live_inv env rl"
  then show ?thesis using loader_step_inv [of "en_rx env" "(rl_watcher rl, rl_loader rl)" "Watch e"]
      subscribers_watch [of "en_rx env" e "(rl_watcher rl, rl_loader rl)"]
    by (auto simp: Watched live_inv_def split: prod.split)
qed (simp_all add: live_inv_def)

lemma live_inv_run: "live_inv env rl \<Longrightarrow> live_inv env (fold (reloader_step env) es rl)"
  by (induction es arbitrary: rl) (simp_all add: live_inv_step)

lemma live_inv_start:
  assumes "NewLoader (en_rx env) src = Inr l0" and "runtime_Build env (ld_current l0) v0 = Inr rt0"
  shows "live_inv env (reloader_Start (NewReloader l0 (NewRuntimeHolder (Some rt0)) sv world))"
proof -
  have "settled (en_rx env) (ld_current l0)" "ld_subscribers l0 = []"
    using assms(1) load_settled by (auto simp: NewLoader_def split: sum.splits)
  then show ?thesis using assms(2)
    by (auto simp: live_inv_def loader_inv_def reloader_Start_def NewReloader_def NewRuntimeHolder_def Subscribe_def)
qed

text \<open>
  C37: No reload opens a route. From a start on a valid configuration, after any sequence of
  reloads, forced or by the file watcher (of any files), receptions and drains, there is a current runtime, and every
  route it can match comes from a configuration that passed \<open>Validate\<close> and has a chain with
  exactly the plugins that configuration lists for it, in ascending order of \<open>order\<close>.
\<close>

theorem live_routes_guarded:
  assumes "NewLoader (en_rx env) src = Inr l0" and "runtime_Build env (ld_current l0) v0 = Inr rt0"
    and "slice_sort (en_psrt env)" and "slice_sort (en_rsrt env)"
    and "rl = fold (reloader_step env) es (reloader_Start (NewReloader l0 (NewRuntimeHolder (Some rt0)) sv world))"
  shows "\<exists>rt cfg. holder_Get (rl_holder rl) = Some rt \<and> valid_config (en_rx env) cfg
    \<and> (\<forall>method path route. Match (gr_Router rt) method path = Some route \<longrightarrow>
         (\<exists>rc \<in> set (cf_Routes cfg). rc_ID rc = rt_ID route
            \<and> (\<exists>ps. gr_PluginChains rt (rt_ID route) = Some ps \<and> plugins_of env cfg rc ps)))"
proof -
  have "live_inv env rl" unfolding assms(5) by (rule live_inv_run [OF live_inv_start [OF assms(1,2)]])
  then obtain rt cfg v where rt: "rh_current (rl_holder rl) = Some rt" and s: "settled (en_rx env) cfg"
    and b: "runtime_Build env cfg v = Inr rt" by (auto simp: live_inv_def)
  have valid: "valid_config (en_rx env) cfg" using s valid_config_iff [of "en_rx env" cfg] by (simp add: settled_def)
  have "\<exists>rc \<in> set (cf_Routes cfg). rc_ID rc = rt_ID route
      \<and> (\<exists>ps. gr_PluginChains rt (rt_ID route) = Some ps \<and> plugins_of env cfg rc ps)"
    if m: "Match (gr_Router rt) method path = Some route" for "method" path route
  proof -
    have "router_New (en_psrt env) (en_rsrt env) (en_rx env) (cf_Routes cfg) = Some (gr_Router rt)"
      using b by (auto simp: runtime_Build_def split: option.splits sum.splits)
    from Match_configured [OF assms(4) this m] obtain rc where rc: "rc \<in> set (cf_Routes cfg)" "rc_ID rc = rt_ID route"
      using built_facts(4) by metis
    then show ?thesis using runtime_chains_ordered [OF b assms(3) valid rc(1)] by (auto simp: plugins_of_def)
  qed
  then show ?thesis using rt valid by (auto simp: holder_Get_def)
qed

theorem live_routes_guarded_witness:
  "\<exists>l0 rt0 rt cfg. NewLoader (en_rx sample_env) (Parsed sample_chain_config) = Inr l0
    \<and> runtime_Build sample_env (ld_current l0) 0 = Inr rt0
    \<and> holder_Get (rl_holder (fold (reloader_step sample_env) [Forced BadYaml, Forced (Parsed sample_chain_config), Received 5]
          (reloader_Start (NewReloader l0 (NewRuntimeHolder (Some rt0)) no_services \<lparr>ex_w = new_rw, ex_r = sample_request\<rparr>)))) = Some rt
    \<and> valid_config (en_rx sample_env) cfg
    \<and> (\<forall>path route. Match (gr_Router rt) ''GET'' path = Some route \<longrightarrow> gr_PluginChains rt (rt_ID route) \<noteq> None)"
proof -
  let ?cfg = "snd (Validate (\<lambda>_. None) sample_chain_config)"
  let ?l0 = "\<lparr>ld_current = ?cfg, ld_subscribers = []\<rparr>"
  have "fst (Validate (\<lambda>_. None) sample_chain_config) = []"
    by (simp add: valid_config_iff valid_config_def sample_chain_config_def sample_config_def route_ok_def sample_route_def
        service_ok_def sample_service_def)
  then have l: "NewLoader (en_rx sample_env) (Parsed sample_chain_config) = Inr ?l0"
    by (simp add: NewLoader_def loadAndValidate_def sample_env_def split_beta)
  obtain rt0 where r: "runtime_Build sample_env (ld_current ?l0) 0 = Inr rt0"
    by (simp add: runtime_Build_def sample_env_def Validate_def validate_routes.simps sample_chain_config_def sample_config_def
        sample_service_def sample_route_def router_New_def buildRoute_def plugin_Build_def name_to_type_def insertion_sort_def Let_def)
  have "slice_sort (en_psrt sample_env)" "slice_sort (en_rsrt sample_env)"
    by (simp_all add: sample_env_def isort.slice_sort_axioms)
  from live_routes_guarded [OF l r this refl, of "[Forced BadYaml, Forced (Parsed sample_chain_config), Received 5]" no_services
      "\<lparr>ex_w = new_rw, ex_r = sample_request\<rparr>"] l r
  show ?thesis by fastforce
qed

text \<open>
  A reload whose build fails keeps the current runtime and counts a failure, as the
  code's comment says, but the services have been replaced by then: the name of a service that
  was known, and which the kept runtime routes to, now resolves to a new entry with the
  instances of the rejected configuration, all healthy, that no goroutine checks.
\<close>

theorem failed_reload_replaces_services:
  assumes "runtime_Build env cfg (rl_versionCount rl + 1) = Inl err" and "sv_ok (rl_services rl)"
    and "distinct (map svc_Name (cf_Services cfg))" and "svc \<in> set (cf_Services cfg)"
    and "hc_cancels (sv_checker (rl_services rl)) (svc_Name svc) \<noteq> None"
    and "rl' = applyReload env now cfg rl" and "sv' = rl_services rl'"
  shows "rl_holder rl' = rl_holder rl \<and> rl_metrics rl' = rl_metrics rl @ [Update ConfigReloadFailures [] OpInc]
    \<and> (\<exists>e. Lookup (sv_reg sv') (svc_Name svc) = Some e \<and> h_entry_next (sv_heap (rl_services rl)) \<le> e
         \<and> length (HealthyInstances (sv_heap sv') e) = length (svc_Instances svc)
         \<and> (\<forall>c \<in> set (hc_gos (sv_checker sv')). ck_svc c \<noteq> e))"
proof -
  have rl': "rl_holder rl' = rl_holder rl" "rl_metrics rl' = rl_metrics rl @ [Update ConfigReloadFailures [] OpInc]"
    "sv' = applyServiceDiff (en_iter env) cfg (rl_services rl)"
    using assms(1) by (simp_all add: assms(6,7) applyReload_def Let_def)
  obtain e where e: "sv_reg sv' (svc_Name svc) = Some e" "fresh_entry (rl_services rl) sv' svc e"
    "\<forall>c \<in> set (hc_gos (sv_checker sv')). ck_svc c \<noteq> e"
    by (rule diff_facts [OF assms(2-4) rl'(3)]) (use assms(5) in blast)
  have "HealthyInstances (sv_heap sv') e = se_Instances (h_entry (sv_heap sv') e)"
    using e(2) by (simp add: HealthyInstances_def fresh_entry_def)
  then show ?thesis using e rl' by (simp add: Lookup_def fresh_entry_def)
qed

theorem failed_reload_replaces_services_witness:
  "\<exists>rl'. rl' = applyReload sample_env 5 (sample_chain_config\<lparr>cf_Plugins := []\<rparr>) (sample_reloader\<lparr>rl_services := sample_services\<rparr>)
    \<and> rl_holder rl' = rl_holder sample_reloader
    \<and> (\<exists>e. Lookup (sv_reg (rl_services rl')) ''s'' = Some e \<and> (\<forall>c \<in> set (hc_gos (sv_checker (rl_services rl'))). ck_svc c \<noteq> e))"
proof -
  let ?cfg = "sample_chain_config\<lparr>cf_Plugins := []\<rparr>"
  let ?rl = "sample_reloader\<lparr>rl_services := sample_services\<rparr>"
  obtain err where err: "runtime_Build sample_env ?cfg (rl_versionCount ?rl + 1) = Inl err"
    by (simp add: runtime_Build_def sample_env_def sample_chain_config_def sample_route_def router_New_def buildRoute_def
      plugin_Build_def name_to_type_def insertion_sort_def Let_def)
  obtain svc where svc: "svc \<in> set (cf_Services ?cfg)" "svc_Name svc = ''s''" "distinct (map svc_Name (cf_Services ?cfg))"
    by (auto simp: sample_chain_config_def sample_config_def sample_service_def)
  have ok: "sv_ok (rl_services ?rl)" "hc_cancels (sv_checker (rl_services ?rl)) (svc_Name svc) \<noteq> None"
    using sample_known svc(2) sv_ok_diff [OF sv_ok_none] by simp_all
  show ?thesis
    using failed_reload_replaces_services [OF err ok(1) svc(3,1) ok(2) refl refl, of 5] svc(2) by auto
qed

subsection \<open>Requests in flight\<close>

text \<open>Version \<open>v\<close> is closed at \<open>bound\<close> or later, if at all, and is not to be closed earlier.\<close>

definition open_until :: "64 word \<Rightarrow> gotime \<Rightarrow> 'w Reloader \<Rightarrow> bool" where
  "open_until v bound rl \<longleftrightarrow> (\<forall>(rt, wake) \<in> set (rl_retiring rl). \<forall>x. rt = Some x \<longrightarrow> gr_Version x = v \<longrightarrow> bound \<le> wake)
     \<and> (\<forall>(rt, wake, closed_at) \<in> set (rl_closed rl). gr_Version rt = v \<longrightarrow> bound \<le> closed_at)"

lemma open_until_current:
  assumes "rl_inv rl" and "rh_current (rl_holder rl) = Some rt"
  shows "open_until (gr_Version rt) bound rl"
proof -
  have d: "distinct (map (unat \<circ> gr_Version) (runtimes rl))" using assms(1) by (simp add: rl_inv_def)
  have other: "gr_Version x \<noteq> gr_Version rt" if "x \<in> fst ` set (rl_closed rl) \<or> (\<exists>wake. (Some x, wake) \<in> set (rl_retiring rl))" for x
    using d that assms(2) by (fastforce simp: runtimes_def image_iff)
  then show ?thesis by (force simp: open_until_def)
qed

lemma open_until_frame:
  "open_until v bound rl \<Longrightarrow> set (rl_retiring rl') \<subseteq> set (rl_retiring rl) \<Longrightarrow> rl_closed rl' = rl_closed rl \<Longrightarrow> open_until v bound rl'"
  unfolding open_until_def by (simp add: Ball_def subset_iff) blast

lemma open_until_apply:
  "open_until v bound rl \<Longrightarrow> bound \<le> now + DrainWindow \<Longrightarrow> open_until v bound (applyReload env now cfg rl)"
  by (auto simp: open_until_def applyReload_def holder_Swap_def Let_def split: sum.split)

lemma open_until_drain:
  assumes "open_until v bound rl"
  shows "open_until v bound (drain env i now rl)"
proof (cases "i < length (rl_retiring rl) \<and> snd (rl_retiring rl ! i) \<le> now")
  case True
  obtain old wake where r: "rl_retiring rl ! i = (old, wake)" by fastforce
  then have m: "(old, wake) \<in> set (rl_retiring rl)" "wake \<le> now" using True by (auto simp: in_set_conv_nth)
  let ?rest = "take i (rl_retiring rl) @ drop (Suc i) (rl_retiring rl)"
  have "set ?rest \<subseteq> set (rl_retiring rl)" using set_take_subset set_drop_subset by fastforce
  then have kept: "open_until v bound (rl\<lparr>rl_retiring := ?rest\<rparr>)"
    by (intro open_until_frame [OF assms]) simp_all
  show ?thesis
  proof (cases old)
    case None
    then show ?thesis using kept True r by (simp add: drain_def Let_def)
  next
    case (Some rt)
    have "bound \<le> now" if "gr_Version rt = v" using assms m that Some unfolding open_until_def by fastforce
    then show ?thesis using kept True r Some by (simp add: drain_def Let_def open_until_def)
  qed
qed (use assms in \<open>auto simp: drain_def\<close>)

lemma open_until_step [gw_inv]:
  assumes "open_until v (t + DrainWindow) rl" and "\<And>now. ev = Received now \<Longrightarrow> t \<le> now"
  shows "open_until v (t + DrainWindow) (reloader_step env ev rl)"
proof (cases ev)
  case (Received now)
  have recv: "open_until v (t + DrainWindow) rl1" if "recv_config rl = Some (cfg, rl1)" for cfg rl1
    using open_until_frame [OF assms(1)] recv_retirements [OF that] by simp
  show ?thesis using assms Received recv open_until_apply [of v "t + DrainWindow"]
    by (auto split: option.split)
next
  case (Drained i now)
  then show ?thesis using open_until_drain [OF assms(1)] by simp
qed (use assms(1) in \<open>simp_all add: open_until_def split_beta\<close>)

lemma open_until_run:
  "open_until v (t + DrainWindow) rl \<Longrightarrow> \<forall>now. Received now \<in> set es \<longrightarrow> t \<le> now \<Longrightarrow>
    open_until v (t + DrainWindow) (fold (reloader_step env) es rl)"
proof (induction es arbitrary: rl)
  case (Cons ev es)
  have "open_until v (t + DrainWindow) (reloader_step env ev rl)"
    by (rule open_until_step [OF Cons.prems(1)]) (use Cons.prems(2) in simp)
  then show ?case using Cons.IH Cons.prems(2) by simp
qed simp

text \<open>
  C15: A request keeps its plugins for the whole drain window: the runtime that it captured at a
  time \<open>t\<close>, after any history of reloads, is not closed before \<open>t\<close> plus 30 seconds, whatever
  is reloaded, received or drained from then on.
\<close>

theorem in_flight_runtime_open:
  assumes "gr_Version rt0 = 0" and "length before < 2 ^ 64"
    and "rl = fold (reloader_step env) before (reloader_Start (NewReloader ld (NewRuntimeHolder (Some rt0)) sv world))"
    and "holder_Get (rl_holder rl) = Some rt" and "\<And>now. Received now \<in> set afterwards \<Longrightarrow> t \<le> now"
    and "(rt', wake, closed_at) \<in> set (rl_closed (fold (reloader_step env) afterwards rl))" and "gr_Version rt' = gr_Version rt"
  shows "t + DrainWindow \<le> closed_at"
proof -
  have "rl_inv rl"
    unfolding assms(3) using assms(1,2)
    by (intro reloader_run_inv)
       (simp_all add: rl_inv_def runtimes_def reloader_Start_def NewReloader_def NewRuntimeHolder_def)
  then have "open_until (gr_Version rt) (t + DrainWindow) rl"
    using open_until_current assms(4) by (simp add: holder_Get_def)
  from open_until_run [OF this, of afterwards env] assms(5-7) show ?thesis by (auto simp: open_until_def)
qed

text \<open>A reload to the same file and the closing of the runtime it replaced.\<close>

lemma sample_reload_closes:
  "(sample_runtime, 5 + DrainWindow, 6 + DrainWindow) \<in> set (rl_closed (fold (reloader_step sample_env)
      [Forced (Parsed sample_chain_config), Received 5, Drained 0 (6 + DrainWindow)] sample_reloader))"
proof -
  let ?cfg = "snd (Validate (\<lambda>_. None) sample_chain_config)"
  have "fst (Validate (\<lambda>_. None) sample_chain_config) = []"
    by (simp add: valid_config_iff valid_config_def sample_chain_config_def sample_config_def route_ok_def sample_route_def
        service_ok_def sample_service_def)
  then have l: "loadAndValidate (en_rx sample_env) (Parsed sample_chain_config) = Inr ?cfg"
    by (simp add: loadAndValidate_def sample_env_def split_beta)
  obtain rt where rt: "runtime_Build sample_env ?cfg 1 = Inr rt"
    by (simp add: runtime_Build_def sample_env_def Validate_def validate_routes.simps sample_chain_config_def sample_config_def
        sample_service_def sample_route_def router_New_def buildRoute_def plugin_Build_def name_to_type_def insertion_sort_def Let_def)
  define rl1 where "rl1 = reloader_step sample_env (Forced (Parsed sample_chain_config)) sample_reloader"
  have rl1: "rl_running rl1" "rl_versionCount rl1 = 0" "rl_retiring rl1 = []" "rh_current (rl_holder rl1) = Some sample_runtime"
    "ld_subscribers (rl_loader rl1) ! rl_ch rl1 = \<lparr>ch_cap = 1, ch_buf = [?cfg]\<rparr>"
    by (simp_all add: rl1_def ForceReload_def l sample_reloader_def reloader_Start_def NewReloader_def NewRuntimeHolder_def
        Subscribe_def fanOut_def chan_offer_def)
  obtain rl2 where rl2: "recv_config rl1 = Some (?cfg, rl2)" "rl_versionCount rl2 = 0" "rl_retiring rl2 = []"
    "rh_current (rl_holder rl2) = Some sample_runtime"
    using rl1 by (simp add: recv_config_def Let_def)
  define rl3 where "rl3 = reloader_step sample_env (Received 5) rl1"
  have "rl_retiring rl3 = [(Some sample_runtime, 5 + DrainWindow)]"
    using rl1(1) rt rl2 by (simp add: rl3_def reload_ok)
  then have "(sample_runtime, 5 + DrainWindow, 6 + DrainWindow) \<in> set (rl_closed (reloader_step sample_env (Drained 0 (6 + DrainWindow)) rl3))"
    by (simp add: drain_def Let_def)
  then show ?thesis unfolding rl3_def rl1_def by (simp only: fold_simps)
qed


theorem in_flight_runtime_open_witness:
  "\<exists>closed_at. (sample_runtime, 5 + DrainWindow, closed_at) \<in> set (rl_closed (fold (reloader_step sample_env)
      [Forced (Parsed sample_chain_config), Received 5, Drained 0 (6 + DrainWindow)] sample_reloader))
    \<and> 4 + DrainWindow \<le> closed_at"
proof -
  have v: "gr_Version sample_runtime = 0" by (simp add: sample_runtime_def)
  have g: "holder_Get (rl_holder sample_reloader) = Some sample_runtime"
    by (simp add: holder_Get_def sample_reloader_def reloader_Start_def NewReloader_def NewRuntimeHolder_def)
  have "4 + DrainWindow \<le> 6 + DrainWindow"
    by (rule in_flight_runtime_open [where before = "[]" and rl = sample_reloader, OF v _ _ g _ sample_reload_closes refl])
      (simp_all add: sample_reloader_def)
  then show ?thesis using sample_reload_closes by blast
qed

subsection \<open>Metrics\<close>

lemma reloader_step_emits: "emits_typed (Some (rl_metrics rl)) (Some (rl_metrics (reloader_step env ev rl)))"
proof (cases ev)
  case (Received now)
  have a: "emits_typed (Some (rl_metrics rl1)) (Some (rl_metrics (applyReload env now cfg rl1)))" for cfg rl1
    by (auto simp: applyReload_def emits_typed_def Let_def split: sum.split prod.split)
  have "rl_metrics rl1 = rl_metrics rl" if "recv_config rl = Some (cfg, rl1)" for cfg rl1
    using that by (auto simp: recv_config_def Let_def split: list.splits)
  then show ?thesis using a by (auto simp: Received split: option.split) metis
next
  case (Drained i now)
  then show ?thesis by (simp add: drain_def Let_def split: prod.split option.split)
qed (simp_all split: prod.split)

end
