(* ===== verification/Forwarding.thy ===== *)
theory Forwarding
  imports Go_Http Config
begin

section \<open>Headers and transports (\<open>internal/proxy/headers.go\<close>, \<open>transport.go\<close>)\<close>

text \<open>
  Which headers pass the gateway, in both directions, and the transport of a service.
\<close>

subsection \<open>Headers\<close>

definition hopByHopHeaders :: "string list" where
  "hopByHopHeaders = [''Connection'', ''Keep-Alive'', ''Proxy-Authenticate'', ''Proxy-Authorization'', ''Te'', ''Trailers'',
     ''Transfer-Encoding'', ''Upgrade'']"

definition StripInboundHeaders :: "request \<Rightarrow> request" where
  "StripInboundHeaders r =
     r\<lparr>rq_Header := fold h_Del hopByHopHeaders
         (h_Del ''X-Real-IP'' (h_Del ''X-Forwarded-Proto'' (h_Del ''X-Forwarded-Host'' (h_Del ''X-Forwarded-For'' (rq_Header r)))))\<rparr>"

definition SetForwardingHeaders :: "request \<Rightarrow> header \<Rightarrow> header" where
  "SetForwardingHeaders inbound outbound =
     (let clientIP = (case SplitHostPort (rq_RemoteAddr inbound) of Some (host, port) \<Rightarrow> host | None \<Rightarrow> rq_RemoteAddr inbound);
          h1 = h_Set ''X-Forwarded-For'' clientIP outbound;
          h2 = h_Set ''X-Forwarded-Host'' (rq_Host inbound) h1
      in h_Set ''X-Forwarded-Proto'' (if rq_TLS inbound then ''https'' else ''http'') h2)"

definition StripHopByHopFromResponse :: "header \<Rightarrow> header" where
  "StripHopByHopFromResponse h = fold h_Del hopByHopHeaders h"

subsection \<open>Transports\<close>

definition defaultTransportConfig :: TransportConfig where
  "defaultTransportConfig = \<lparr>tc_MaxIdleConns = 100, tc_MaxIdleConnsPerHost = 10, tc_MaxConnsPerHost = 0,
     tc_IdleConnTimeout = 90 * second, tc_TLSHandshakeTimeout = 10 * second\<rparr>"

record http_transport =
  tr_MaxIdleConns :: int
  tr_MaxIdleConnsPerHost :: int
  tr_MaxConnsPerHost :: int
  tr_IdleConnTimeout :: duration
  tr_TLSHandshakeTimeout :: duration
  tr_ForceAttemptHTTP2 :: bool

definition buildTransport :: "TransportConfig \<Rightarrow> http_transport" where
  "buildTransport cfg =
     \<lparr>tr_MaxIdleConns = (if tc_MaxIdleConns cfg = 0 then tc_MaxIdleConns defaultTransportConfig else tc_MaxIdleConns cfg),
      tr_MaxIdleConnsPerHost = (if tc_MaxIdleConnsPerHost cfg = 0 then tc_MaxIdleConnsPerHost defaultTransportConfig
        else tc_MaxIdleConnsPerHost cfg),
      tr_MaxConnsPerHost = tc_MaxConnsPerHost cfg,
      tr_IdleConnTimeout = (if tc_IdleConnTimeout cfg = 0 then tc_IdleConnTimeout defaultTransportConfig else tc_IdleConnTimeout cfg),
      tr_TLSHandshakeTimeout = (if tc_TLSHandshakeTimeout cfg = 0 then tc_TLSHandshakeTimeout defaultTransportConfig
        else tc_TLSHandshakeTimeout cfg),
      tr_ForceAttemptHTTP2 = True\<rparr>"

type_synonym transport_registry = "string \<rightharpoonup> http_transport"

definition transport_Register :: "string \<Rightarrow> TransportConfig \<Rightarrow> transport_registry \<Rightarrow> transport_registry" where
  "transport_Register serviceName cfg r = r(serviceName \<mapsto> buildTransport cfg)"

definition transport_Get :: "transport_registry \<Rightarrow> string \<Rightarrow> http_transport" where
  "transport_Get r serviceName = (case r serviceName of Some t \<Rightarrow> t | None \<Rightarrow> buildTransport defaultTransportConfig)"

subsection \<open>What is stripped\<close>

lemma canon_tables:
  "CanonicalHeaderKey ''X-Forwarded-For'' = ''X-Forwarded-For''"
  "CanonicalHeaderKey ''X-Forwarded-Host'' = ''X-Forwarded-Host''"
  "CanonicalHeaderKey ''X-Forwarded-Proto'' = ''X-Forwarded-Proto''"
  "CanonicalHeaderKey ''X-Real-IP'' = ''X-Real-Ip''"
  by code_simp+

lemma canon_hop: "list_all (\<lambda>h. CanonicalHeaderKey h = h) hopByHopHeaders"
  by code_simp

lemma fold_Del: "fold h_Del hs m k = (if k \<in> CanonicalHeaderKey ` set hs then None else m k)"
  by (induction hs arbitrary: m) (auto simp: h_Del_def)

lemma canon_hops: "CanonicalHeaderKey ` set hopByHopHeaders = set hopByHopHeaders"
  using canon_hop by (auto simp: list_all_iff)

lemma strip_header:
  "rq_Header (StripInboundHeaders r) k =
     (if k \<in> set hopByHopHeaders \<or> k \<in> {''X-Real-Ip'', ''X-Forwarded-Proto'', ''X-Forwarded-Host'', ''X-Forwarded-For''} then None
      else rq_Header r k)"
  by (simp add: StripInboundHeaders_def fold_Del canon_hops) (auto simp: h_Del_def canon_tables)

text \<open>The client's address as the gateway sees it.\<close>

definition peer :: "request \<Rightarrow> string" where
  "peer r = (case SplitHostPort (rq_RemoteAddr r) of Some (host, port) \<Rightarrow> host | None \<Rightarrow> rq_RemoteAddr r)"

end
