(* ===== verification/Proxy.thy ===== *)
theory Proxy
  imports Forwarding Plugin_Chain Service_Diff Circuit_Breaker
begin

section \<open>The reverse proxy (\<open>internal/proxy\<close>)\<close>

text \<open>
  One request, from the service's breaker to the reply: pick an instance, forward, retry.
  The request is modelled alone; what other goroutines and the network do between and
  during its attempts is an argument, one \<open>attempt\<close> record for each turn of the loop.
\<close>

subsection \<open>The balancer interface\<close>

text \<open>The dynamic dispatch of \<open>lb.Next\<close> and of the callback it returns.\<close>

definition lb_Next ::
  "(nat \<Rightarrow> string) \<Rightarrow> (nat \<Rightarrow> bool) \<Rightarrow> 's skipper \<Rightarrow> nat list \<Rightarrow> draws \<Rightarrow> balancer \<Rightarrow> 's
    \<Rightarrow> (lb_error + nat \<times> string option) \<times> balancer \<times> 's" where
  "lb_Next idof healthy sk instances d lb s =
     (case lb of
        LbRandom \<Rightarrow> (case random_Next healthy sk instances d () s of (res, _, s') \<Rightarrow>
          (map_sum (\<lambda>e. e) (\<lambda>(i, _). (i, None)) res, LbRandom, s'))
      | LbRoundRobin rr \<Rightarrow> (case rr_Next healthy sk instances d rr s of (res, rr', s') \<Rightarrow>
          (map_sum (\<lambda>e. e) (\<lambda>(i, _). (i, None)) res, LbRoundRobin rr', s'))
      | LbSmart sb \<Rightarrow> (case smart_Next idof healthy sk instances d sb s of (res, sb', s') \<Rightarrow>
          (map_sum (\<lambda>e. e) (\<lambda>(i, iid). (i, Some iid)) res, LbSmart sb', s')))"

definition lb_done :: "string option \<Rightarrow> duration \<Rightarrow> bool \<Rightarrow> balancer \<Rightarrow> balancer" where
  "lb_done cb latency err lb =
     (case (cb, lb) of (Some iid, LbSmart sb) \<Rightarrow> LbSmart (smart_done iid latency err sb) | _ \<Rightarrow> lb)"

subsection \<open>One upstream request\<close>

text \<open>
  A request body is a stream that \<open>http.Client\<close> closes when the call is over, also when it
  failed; \<open>http.NoBody\<close> can be read again. \<open>ConnError\<close> is any error; a reply's body is what
  \<open>io.Copy\<close> delivered of it. \<open>at_reply t k out\<close> is what the transport \<open>t\<close> makes of \<open>out\<close> as the
  \<open>k\<close>-th round trip of an attempt: inside one round trip the transport adds \<open>User-Agent\<close> and
  \<open>Accept-Encoding\<close>, chunks a body of unknown length, and may replay an idempotent request on a
  fresh connection.
\<close>

datatype req_body = NoBody | Stream string | ClosedBody

record out_request =
  or_Method :: string
  or_URL :: string
  or_Header :: header
  or_Body :: req_body

datatype upstream_reply = ConnError | Reply int header string

record attempt =
  at_now :: gotime
  at_heap :: gw_heap
  at_draws :: draws
  at_urlOk :: "string \<Rightarrow> bool"
  at_reply :: "http_transport \<Rightarrow> nat \<Rightarrow> out_request \<Rightarrow> upstream_reply"
  at_done :: gotime
  at_jitter :: nat
  at_cancelled :: bool

text \<open>
  What \<open>client.Do\<close> needs of \<open>net/url\<close>: \<open>base.Parse(location)\<close>, whether the host of the second
  URL is the host of the first or a subdomain of it, and \<open>refererForURL\<close> of the last URL, the
  new one and an explicit \<open>Referer\<close>.
\<close>

record url_ops =
  uo_Parse :: "string \<Rightarrow> string \<Rightarrow> string option"
  uo_isDomainOrSubdomain :: "string \<Rightarrow> string \<Rightarrow> bool"
  uo_refererForURL :: "string \<Rightarrow> string \<Rightarrow> string \<Rightarrow> string"

text \<open>\<open>pe_uri\<close> is \<open>r.URL.RequestURI()\<close>; \<open>pe_svc\<close> points to the service entry.\<close>

record proxy_env =
  pe_req :: request
  pe_uri :: string
  pe_svc :: nat
  pe_start :: gotime
  pe_transports :: transport_registry
  pe_urls :: url_ops
  pe_attempts :: "nat \<Rightarrow> attempt"

text \<open>
  \<open>px_log\<close> records the calls of \<open>client.Do\<close>: the instance, the round trips the call made, and
  what it returned. \<open>px_waits\<close> are the pauses before retries.
\<close>

type_synonym trip = "out_request \<times> upstream_reply"
type_synonym do_call = "nat \<times> trip list \<times> upstream_reply"

record proxy_state =
  px_w :: response_writer
  px_ctx :: GatewayContext
  px_body :: req_body
  px_lb :: balancer
  px_scb :: "circuit_breaker option"
  px_icbs :: "string \<rightharpoonup> circuit_breaker"
  px_log :: "do_call list"
  px_waits :: "duration list"

text \<open>\<open>w.Header().Add\<close> for every value; the keys of a parsed header are canonical.\<close>

definition add_header :: "header \<Rightarrow> header \<Rightarrow> header" where
  "add_header h new = (\<lambda>k. case new k of
     Some (v # vs) \<Rightarrow> Some ((case h k of Some us \<Rightarrow> us | None \<Rightarrow> []) @ v # vs)
   | _ \<Rightarrow> h k)"

definition close_body :: "req_body \<Rightarrow> req_body" where
  "close_body b = (case b of NoBody \<Rightarrow> NoBody | _ \<Rightarrow> ClosedBody)"

text \<open>The request handed to \<open>client.Do\<close>.\<close>

definition out_request_for :: "proxy_env \<Rightarrow> string \<Rightarrow> req_body \<Rightarrow> out_request" where
  "out_request_for en upstream body =
     \<lparr>or_Method = rq_Method (pe_req en), or_URL = upstream @ pe_uri en,
      or_Header = SetForwardingHeaders (pe_req en) (\<lambda>k. if k \<in> set hopByHopHeaders then None else rq_Header (pe_req en) k),
      or_Body = body\<rparr>"

text \<open>
  \<open>client.Do\<close> of a client without \<open>CheckRedirect\<close>: it follows up to ten requests in all. A 301,
  302 or 303 is followed with \<open>GET\<close> (or \<open>HEAD\<close>) and no body; a 307 or 308 with the same method,
  but only when the first request had no body, since the code sets no \<open>GetBody\<close>. The headers of
  the first request are copied, credentials only within the domain.
\<close>

definition redirectBehavior :: "string \<Rightarrow> int \<Rightarrow> out_request \<Rightarrow> string option" where
  "redirectBehavior reqMethod status ireq =
     (if status \<in> {301, 302, 303} then Some (if reqMethod \<in> {''GET'', ''HEAD''} then reqMethod else ''GET'')
      else if status \<in> {307, 308} then (if or_Body ireq = NoBody then Some reqMethod else None)
      else None)"

definition credential_headers :: "string set" where
  "credential_headers = {''Authorization'', ''Www-Authenticate'', ''Cookie'', ''Cookie2''}"

definition redirected :: "url_ops \<Rightarrow> out_request \<Rightarrow> out_request \<Rightarrow> string \<Rightarrow> string \<Rightarrow> out_request" where
  "redirected ops ireq prev redirectMethod url =
     (let copied = (\<lambda>k. if k \<in> credential_headers \<and> \<not> uo_isDomainOrSubdomain ops (or_URL prev) url then None else or_Header ireq k);
          ref = uo_refererForURL ops (or_URL prev) url (h_Get copied ''Referer'')
      in \<lparr>or_Method = redirectMethod, or_URL = url, or_Header = (if ref = [] then copied else h_Set ''Referer'' ref copied),
          or_Body = NoBody\<rparr>)"

text \<open>
  The round trips from the \<open>k\<close>-th on, with \<open>left\<close> requests allowed, and what \<open>Do\<close> returns; an
  eleventh request is the error \<open>stopped after 10 redirects\<close>.
\<close>

fun client_send :: "url_ops \<Rightarrow> (nat \<Rightarrow> out_request \<Rightarrow> upstream_reply) \<Rightarrow> out_request \<Rightarrow> nat \<Rightarrow> nat \<Rightarrow> out_request
    \<Rightarrow> trip list \<times> upstream_reply" where
  "client_send ops send ireq k 0 req = ([], ConnError)"
| "client_send ops send ireq k (Suc left) req =
     (let resp = send k req
      in case resp of
           ConnError \<Rightarrow> ([(req, resp)], ConnError)
         | Reply status h body \<Rightarrow>
             (case redirectBehavior (or_Method req) status ireq of
                None \<Rightarrow> ([(req, resp)], resp)
              | Some redirectMethod \<Rightarrow>
                  let loc = h_Get h ''Location''
                  in if loc = [] then ([(req, resp)], resp)
                     else case uo_Parse ops (or_URL req) loc of
                            None \<Rightarrow> ([(req, resp)], ConnError)
                          | Some url \<Rightarrow>
                              let (trips, res) = client_send ops send ireq (Suc k) left (redirected ops ireq req redirectMethod url)
                              in ((req, resp) # trips, res)))"

definition client_Do :: "url_ops \<Rightarrow> (nat \<Rightarrow> out_request \<Rightarrow> upstream_reply) \<Rightarrow> out_request \<Rightarrow> trip list \<times> upstream_reply" where
  "client_Do ops send req = client_send ops send req 0 10 req"

text \<open>The status and whether there was an error.\<close>

definition doRequest ::
  "proxy_env \<Rightarrow> attempt \<Rightarrow> nat \<Rightarrow> string \<Rightarrow> string \<Rightarrow> proxy_state \<Rightarrow> (int \<times> bool) go \<times> proxy_state" where
  "doRequest en att i upstream svcName px =
     (if \<not> at_urlOk att (upstream @ pe_uri en) then (Ret (0, True), px)
      else let out = out_request_for en upstream (px_body px);
               (trips, reply) = client_Do (pe_urls en) (at_reply att (transport_Get (pe_transports en) svcName)) out;
               px1 = px\<lparr>px_body := close_body (px_body px), px_log := px_log px @ [(i, trips, reply)]\<rparr>
           in case reply of
                ConnError \<Rightarrow> (Ret (0, True), px1)
              | Reply status header body \<Rightarrow>
                  let w1 = rw_map (\<lambda>h. add_header h (StripHopByHopFromResponse header)) (px_w px1)
                  in case WriteHeader status w1 of
                       Panic \<Rightarrow> (Panic, px1\<lparr>px_w := w1\<rparr>)
                     | Ret w2 \<Rightarrow> (Ret (status, False), px1\<lparr>px_w := if body = [] then w2 else rw_Copy body w2\<rparr>))"

subsection \<open>The retry loop\<close>

record ProxyError =
  pr_StatusCode :: int
  pr_Message :: string

definition ProxyError_text :: "ProxyError \<Rightarrow> string" where
  "ProxyError_text e = ''proxy error '' @ itoa (pr_StatusCode e) @ '': '' @ pr_Message e"

abbreviation minRemainingForRetry :: duration where "minRemainingForRetry \<equiv> 200 * millisecond"
abbreviation maxRetries :: nat where "maxRetries \<equiv> 2"

definition retryableStatusCodes :: "int set" where
  "retryableStatusCodes = {502, 503, 504}"

definition isIdempotentRequest :: "request \<Rightarrow> bool" where
  "isIdempotentRequest r =
     (if rq_Method r \<in> {''GET'', ''HEAD'', ''OPTIONS'', ''PUT'', ''DELETE''} then True
      else if rq_Method r \<in> {''POST'', ''PATCH''} then h_Get (rq_Header r) ''X-Idempotency-Key'' \<noteq> []
      else False)"

text \<open>The closure \<open>isSkipped\<close>.\<close>

definition isSkipped :: "gw_heap \<Rightarrow> gotime \<Rightarrow> nat \<Rightarrow> (string \<rightharpoonup> circuit_breaker) \<Rightarrow> bool \<times> (string \<rightharpoonup> circuit_breaker)" where
  "isSkipped h now i cbs =
     (case cbs (inst_ID (h_inst h i)) of
        None \<Rightarrow> (False, cbs)
      | Some cb \<Rightarrow> (let (ok, cb1) = cb_allow now cb in (\<not> ok, cbs(inst_ID (h_inst h i) \<mapsto> cb1))))"

definition report_instance :: "string \<Rightarrow> (circuit_breaker \<Rightarrow> circuit_breaker) \<Rightarrow> proxy_state \<Rightarrow> proxy_state" where
  "report_instance iid f px = px\<lparr>px_icbs := (px_icbs px)(iid := map_option f (px_icbs px iid))\<rparr>"

definition report_service :: "(circuit_breaker \<Rightarrow> circuit_breaker) \<Rightarrow> proxy_state \<Rightarrow> proxy_state" where
  "report_service f px = px\<lparr>px_scb := map_option f (px_scb px)\<rparr>"

definition upd_gw :: "(GatewayContext \<Rightarrow> GatewayContext) \<Rightarrow> proxy_state \<Rightarrow> proxy_state" where
  "upd_gw f px = px\<lparr>px_ctx := f (px_ctx px)\<rparr>"

definition report_done :: "string option \<Rightarrow> duration \<Rightarrow> bool \<Rightarrow> proxy_state \<Rightarrow> proxy_state" where
  "report_done cb latency err px = px\<lparr>px_lb := lb_done cb latency err (px_lb px)\<rparr>"

text \<open>One turn of the loop: what the function returns with, or \<open>None\<close> to go round again.\<close>

definition proxy_attempt :: "proxy_env \<Rightarrow> nat \<Rightarrow> proxy_state \<Rightarrow> ProxyError option go option \<times> proxy_state" where
  "proxy_attempt en n px =
     (let att = pe_attempts en n; now = at_now att; h = at_heap att; svcName = se_Name (h_entry h (pe_svc en))
      in if (case rq_Deadline (pe_req en) of Some deadline \<Rightarrow> deadline - now < minRemainingForRetry | None \<Rightarrow> False)
         then (Some (Ret (Some \<lparr>pr_StatusCode = 504, pr_Message = ''upstream deadline exceeded''\<rparr>)),
               upd_gw (\<lambda>g. g\<lparr>gw_FailureReason := ''deadline_exceeded''\<rparr>) px)
         else
           let (res, lb, icbs) = lb_Next (\<lambda>i. inst_ID (h_inst h i)) (\<lambda>i. IsHealthy (h_inst h i)) (Some (isSkipped h now))
                 (HealthyInstances h (pe_svc en)) (at_draws att) (px_lb px) (px_icbs px);
               px1 = px\<lparr>px_lb := lb, px_icbs := icbs\<rparr>
           in case res of
                Inl e \<Rightarrow> (Some (Ret (Some \<lparr>pr_StatusCode = 503, pr_Message = ''no healthy upstream instances''\<rparr>)),
                  report_service (cb_failure now) (upd_gw (\<lambda>g. g\<lparr>gw_FailureReason := ''no_healthy_instances''\<rparr>) px1))
              | Inr (i, cb) \<Rightarrow>
                  let inst = h_inst h i;
                      px2 = upd_gw (\<lambda>g. g\<lparr>gw_SelectedInstance := inst_Address inst, gw_ServiceName := svcName\<rparr>) px1
                  in case doRequest en att i (''http://'' @ inst_Address inst) svcName px2 of
                       (Panic, px3) \<Rightarrow> (Some Panic, px3)
                     | (Ret (status, err), px3) \<Rightarrow>
                         if \<not> err \<and> status \<notin> retryableStatusCodes
                         then (Some (Ret None), report_service cb_success (report_instance (inst_ID inst) cb_success
                                (report_done cb (at_done att - now) False px3)))
                         else
                           let reason = (if err then ''connection_error'' else ''upstream_'' @ itoa status);
                               px4 = report_instance (inst_ID inst) (cb_failure (at_done att))
                                 (report_done cb (at_done att - now) True px3)
                           in if \<not> isIdempotentRequest (pe_req en) \<or> n \<ge> maxRetries
                              then (Some (Ret (Some \<lparr>pr_StatusCode = (if status \<noteq> 0 then status else 502), pr_Message = reason\<rparr>)),
                                    report_service (cb_failure (at_done att)) (upd_gw (\<lambda>g. g\<lparr>gw_FailureReason := reason\<rparr>) px4))
                              else
                                let px5 = (upd_gw (\<lambda>g. g\<lparr>gw_RetryCount := gw_RetryCount g + 1\<rparr>) px4)
                                      \<lparr>px_waits := px_waits px4 @ [int n * (100 * millisecond) + int (at_jitter att) * millisecond]\<rparr>
                                in if at_cancelled att
                                   then (Some (Ret (Some \<lparr>pr_StatusCode = 504, pr_Message = ''context cancelled during retry''\<rparr>)), px5)
                                   else (None, px5))"

fun proxy_loop :: "proxy_env \<Rightarrow> nat list \<Rightarrow> proxy_state \<Rightarrow> ProxyError option go \<times> proxy_state" where
  "proxy_loop en [] px = (Ret (Some \<lparr>pr_StatusCode = 502, pr_Message = ''all retries exhausted''\<rparr>), px)"
| "proxy_loop en (n # ns) px =
     (case proxy_attempt en n px of
        (Some res, px1) \<Rightarrow> (res, px1)
      | (None, px1) \<Rightarrow> proxy_loop en ns px1)"

definition ProxyRequest :: "proxy_env \<Rightarrow> proxy_state \<Rightarrow> ProxyError option go \<times> proxy_state" where
  "ProxyRequest en px =
     (case gwctx_MustFrom (pe_req en) of
        Panic \<Rightarrow> (Panic, px)
      | Ret g \<Rightarrow>
          let (ok, scb) = (case px_scb px of
                None \<Rightarrow> (True, None)
              | Some cb \<Rightarrow> (let (ok, cb1) = cb_allow (pe_start en) cb in (ok, Some cb1)));
              px1 = px\<lparr>px_ctx := g, px_scb := scb\<rparr>
          in if \<not> ok
             then (Ret (Some \<lparr>pr_StatusCode = 503, pr_Message = ''service circuit open''\<rparr>),
                   upd_gw (\<lambda>g. g\<lparr>gw_CircuitState := CircuitOpen, gw_FailureReason := ''circuit_open''\<rparr>) px1)
             else proxy_loop en [0..<Suc maxRetries] (upd_gw (\<lambda>g. g\<lparr>gw_CircuitState := CircuitClosed\<rparr>) px1))"

subsection \<open>The interface of the balancers\<close>

interpretation lbs: load_balancer "lb_Next idof" for idof
proof unfold_locales
  fix healthy :: "nat \<Rightarrow> bool" and sk :: "'s skipper" and "is" d s el s' and lb :: balancer
  assume d: "fair_draws d" "length is < 2 ^ 63" and e: "filterEligible healthy sk is s = (el, s')" "el \<noteq> []"
  show "\<exists>i c lb'. i \<in> set el \<and> lb_Next idof healthy sk is d lb s = (Inr (i, c), lb', s')"
  proof (cases lb)
    case LbRandom
    then show ?thesis using rnd.next_some [OF d e, of "()"] by (force simp: lb_Next_def)
  next
    case (LbRoundRobin rb)
    then show ?thesis using rr.next_some [OF d e, of rb] by (force simp: lb_Next_def)
  next
    case (LbSmart sb)
    then show ?thesis using smart.next_some [OF d e, of idof sb] by (force simp: lb_Next_def)
  qed
qed (auto simp: lb_Next_def rr.next_none rnd.next_none smart.next_none split: balancer.split)

subsection \<open>What the loop keeps\<close>

lemma px_frame [simp]:
  "px_w (report_instance iid f px) = px_w px" "px_log (report_instance iid f px) = px_log px" "px_body (report_instance iid f px) = px_body px"
  "px_w (report_service f px) = px_w px" "px_log (report_service f px) = px_log px" "px_body (report_service f px) = px_body px"
  "px_w (upd_gw g px) = px_w px" "px_log (upd_gw g px) = px_log px" "px_body (upd_gw g px) = px_body px"
  "px_w (report_done cb l e px) = px_w px" "px_log (report_done cb l e px) = px_log px" "px_body (report_done cb l e px) = px_body px"
  by (simp_all add: report_instance_def report_service_def upd_gw_def report_done_def)

text \<open>One turn either makes no upstream request or is one \<open>doRequest\<close> as far as these go.\<close>

lemma proxy_attempt_cases:
  obtains (quiet) res px1 where "proxy_attempt en n px = (Some res, px1)"
      "px_w px1 = px_w px" "px_log px1 = px_log px" "px_body px1 = px_body px"
  | (call) att i upst svc px2 px3 m res px1 where "proxy_attempt en n px = (res, px1)" "doRequest en att i upst svc px2 = (m, px3)"
      "px_w px2 = px_w px" "px_log px2 = px_log px" "px_body px2 = px_body px"
      "px_w px1 = px_w px3" "px_log px1 = px_log px3" "px_body px1 = px_body px3"
      "res = None \<longrightarrow> isIdempotentRequest (pe_req en) \<and> n < maxRetries"
proof -
  let ?att = "pe_attempts en n"
  let ?h = "at_heap ?att"
  obtain res lb icbs where nx: "lb_Next (\<lambda>i. inst_ID (h_inst ?h i)) (\<lambda>i. IsHealthy (h_inst ?h i)) (Some (isSkipped ?h (at_now ?att)))
                 (HealthyInstances ?h (pe_svc en)) (at_draws ?att) (px_lb px) (px_icbs px) = (res, lb, icbs)"
    by (metis prod_cases3)
  show thesis
  proof (cases "\<exists>i cb. res = Inr (i, cb) \<and> \<not> (case rq_Deadline (pe_req en) of Some deadline \<Rightarrow>
      deadline - at_now ?att < minRemainingForRetry | None \<Rightarrow> False)")
    case False
    show thesis
      by (rule quiet [of "the (fst (proxy_attempt en n px))" "snd (proxy_attempt en n px)"])
        (use False nx in \<open>auto simp: proxy_attempt_def Let_def split: sum.splits prod.splits\<close>)
  next
    case True
    then obtain i cb where r: "res = Inr (i, cb)" and d: "\<not> (case rq_Deadline (pe_req en) of Some deadline \<Rightarrow>
      deadline - at_now ?att < minRemainingForRetry | None \<Rightarrow> False)" by blast
    let ?px2 = "upd_gw (\<lambda>g. g\<lparr>gw_SelectedInstance := inst_Address (h_inst ?h i), gw_ServiceName := se_Name (h_entry ?h (pe_svc en))\<rparr>)
        (px\<lparr>px_lb := lb, px_icbs := icbs\<rparr>)"
    obtain m px3 where dr: "doRequest en ?att i (''http://'' @ inst_Address (h_inst ?h i)) (se_Name (h_entry ?h (pe_svc en))) ?px2 = (m, px3)"
      by fastforce
    obtain out px1 where o: "proxy_attempt en n px = (out, px1)" by fastforce
    have "px_w px1 = px_w px3 \<and> px_log px1 = px_log px3 \<and> px_body px1 = px_body px3
        \<and> (out = None \<longrightarrow> isIdempotentRequest (pe_req en) \<and> n < maxRetries)"
      using o nx r d dr by (auto simp: proxy_attempt_def Let_def split: go.splits if_splits prod.splits)
    then show thesis using call [OF o dr] by simp
  qed
qed

lemma proxy_loop_keeps:
  assumes step: "\<And>att i upst svc px m px'. Inv (px_w px) (px_log px) (px_body px) \<Longrightarrow>
      doRequest en att i upst svc px = (m, px') \<Longrightarrow> Inv (px_w px') (px_log px') (px_body px')"
  shows "Inv (px_w px) (px_log px) (px_body px) \<Longrightarrow> proxy_loop en ns px = (res, px') \<Longrightarrow> Inv (px_w px') (px_log px') (px_body px')"
proof (induction ns arbitrary: px)
  case (Cons n ns)
  show ?case
  proof (cases en n px rule: proxy_attempt_cases)
    case (quiet r px1)
    then show ?thesis using Cons.prems by simp
  next
    case (call att i upst svc px2 px3 m r px1)
    have "Inv (px_w px3) (px_log px3) (px_body px3)"
      by (rule step [OF _ call(2)]) (simp add: call(3-5) Cons.prems(1))
    then have inv: "Inv (px_w px1) (px_log px1) (px_body px1)" by (simp add: call(6-8))
    show ?thesis using Cons.IH [OF inv] Cons.prems(2) call(1) inv by (cases r) simp_all
  qed
qed simp

subsection \<open>The round trips of one call\<close>

text \<open>The second trip answers a redirect of the first, in a call that started with \<open>ireq\<close>.\<close>

definition follows :: "url_ops \<Rightarrow> out_request \<Rightarrow> trip \<Rightarrow> trip \<Rightarrow> bool" where
  "follows ops ireq t t' \<longleftrightarrow> (\<exists>status h body redirectMethod url. snd t = Reply status h body
     \<and> redirectBehavior (or_Method (fst t)) status ireq = Some redirectMethod
     \<and> uo_Parse ops (or_URL (fst t)) (h_Get h ''Location'') = Some url
     \<and> fst t' = redirected ops ireq (fst t) redirectMethod url)"

definition call_of :: "url_ops \<Rightarrow> out_request \<Rightarrow> trip list \<Rightarrow> bool" where
  "call_of ops out trips \<longleftrightarrow> trips \<noteq> [] \<and> fst (hd trips) = out \<and> length trips \<le> 10 \<and> successively (follows ops out) trips"

lemma client_send_trips:
  "client_send ops send ireq k (Suc left) req = (trips, res) \<Longrightarrow>
    trips \<noteq> [] \<and> fst (hd trips) = req \<and> length trips \<le> Suc left \<and> successively (follows ops ireq) trips"
proof (induction left arbitrary: k req trips)
  case (Suc left)
  show ?case
  proof (cases "length trips \<le> 1")
    case True
    then show ?thesis using Suc.prems
      by (cases trips) (auto simp: Let_def split: upstream_reply.splits option.splits if_splits prod.splits)
  next
    case False
    then obtain status h body redirectMethod url rest where 1: "send k req = Reply status h body"
      "redirectBehavior (or_Method req) status ireq = Some redirectMethod" "uo_Parse ops (or_URL req) (h_Get h ''Location'') = Some url"
      and rest: "client_send ops send ireq (Suc k) (Suc left) (redirected ops ireq req redirectMethod url) = (rest, res)"
        "trips = (req, send k req) # rest"
      using Suc.prems by (auto simp: Let_def simp del: client_send.simps(2) simp: client_send.simps(2) [where left = "Suc left"]
        split: upstream_reply.splits option.splits if_splits prod.splits)
    have "follows ops ireq (req, send k req) (hd rest)"
      using Suc.IH [OF rest(1)] 1 by (auto simp: follows_def)
    then show ?thesis using Suc.IH [OF rest(1)] rest(2) by (simp add: successively_Cons)
  qed
qed (auto simp: Let_def split: upstream_reply.splits option.splits if_splits prod.splits)

lemma client_Do_call: "client_Do ops send out = (trips, res) \<Longrightarrow> call_of ops out trips"
  using client_send_trips [of ops send out 0 9 out trips res] by (simp add: client_Do_def call_of_def)

lemma followed_trip:
  "successively (follows ops ireq) trips \<Longrightarrow> t \<in> set (tl trips) \<Longrightarrow> \<exists>prev \<in> set trips. follows ops ireq prev t"
proof (induction trips)
  case (Cons a ts)
  show ?case
  proof (cases "t = hd ts \<and> ts \<noteq> []")
    case False
    then have "t \<in> set (tl ts)" using Cons.prems(2) by (cases ts) auto
    then show ?thesis using Cons by (cases ts) (auto simp: successively_Cons)
  qed (use Cons.prems in \<open>auto simp: successively_Cons\<close>)
qed simp

text \<open>When the call had a body and was no \<open>HEAD\<close>, everything after its first trip is a \<open>GET\<close> without one.\<close>

lemma redirects_GET:
  assumes "successively (follows ops ireq) trips" and "or_Body ireq \<noteq> NoBody" and "or_Method (fst (hd trips)) \<noteq> ''HEAD''"
    and "t \<in> set (tl trips)"
  shows "or_Method (fst t) = ''GET'' \<and> or_Body (fst t) = NoBody"
  using assms
proof (induction trips)
  case (Cons a ts)
  then obtain b us where ts: "ts = b # us" by (cases ts) auto
  then have "follows ops ireq a b" using Cons.prems(1) by simp
  then have b: "or_Method (fst b) = ''GET'' \<and> or_Body (fst b) = NoBody"
    using Cons.prems(2,3) by (auto simp: follows_def redirected_def redirectBehavior_def Let_def split: if_splits)
  show ?case
  proof (cases "t = b")
    case False
    then have "t \<in> set (tl ts)" using Cons.prems(4) ts by simp
    then show ?thesis using Cons.IH Cons.prems(1,2) b ts by simp
  qed (use b in simp)
qed simp

lemma redirected_key:
  "k \<noteq> ''Referer'' \<Longrightarrow> or_Header (redirected ops ireq prev redirectMethod url) k = or_Header ireq k
    \<or> k \<in> credential_headers \<and> or_Header (redirected ops ireq prev redirectMethod url) k = None"
proof -
  have "CanonicalHeaderKey ''Referer'' = ''Referer''" by code_simp
  then show "k \<noteq> ''Referer'' \<Longrightarrow> ?thesis" by (simp add: redirected_def h_Set_def Let_def)
qed

lemma redirected_header:
  assumes "successively (follows ops ireq) trips" and "t \<in> set (tl trips)" and "k \<noteq> ''Referer''"
  shows "or_Header (fst t) k = or_Header ireq k \<or> k \<in> credential_headers \<and> or_Header (fst t) k = None"
proof -
  obtain prev redirectMethod url where "fst t = redirected ops ireq prev redirectMethod url"
    using followed_trip [OF assms(1,2)] by (auto simp: follows_def)
  then show ?thesis using redirected_key [OF assms(3)] by metis
qed

subsection \<open>How often the upstream is called\<close>

lemma doRequest_log:
  "doRequest en att i upst svc px = (m, px') \<Longrightarrow> px_log px' = px_log px \<and> px_body px' = px_body px \<or>
     (\<exists>trips reply. px_log px' = px_log px @ [(i, trips, reply)] \<and> px_body px' = close_body (px_body px)
        \<and> call_of (pe_urls en) (out_request_for en upst (px_body px)) trips)"
  by (cases "client_Do (pe_urls en) (at_reply att (transport_Get (pe_transports en) svc)) (out_request_for en upst (px_body px))")
    (auto simp: doRequest_def Let_def split: if_splits upstream_reply.splits go.splits dest: client_Do_call)

lemma proxy_loop_log:
  "proxy_loop en ns px = (res, px') \<Longrightarrow> length (px_log px') \<le> length (px_log px)
    + (if isIdempotentRequest (pe_req en) then length ns else min 1 (length ns))"
proof (induction ns arbitrary: px)
  case (Cons n ns)
  show ?case
  proof (cases en n px rule: proxy_attempt_cases)
    case (quiet r px1)
    then show ?thesis using Cons.prems by simp
  next
    case (call att i upst svc px2 px3 m r px1)
    have one: "length (px_log px1) \<le> Suc (length (px_log px))"
      using doRequest_log [OF call(2)] call(4,7) by auto
    show ?thesis
    proof (cases r)
      case None
      then show ?thesis using Cons.IH [of px1] Cons.prems call(1,9) one by simp
    next
      case (Some x)
      then show ?thesis using Cons.prems call(1) one by auto
    qed
  qed
qed simp

lemma loop_calls:
  assumes "px_log px = []"
  shows "length (px_log (snd (ProxyRequest en px))) \<le> (if isIdempotentRequest (pe_req en) then 3 else 1)"
proof (cases "fst (ProxyRequest en px) = Panic \<and> gwctx_MustFrom (pe_req en) = Panic")
  case False
  have "length (px_log (snd (proxy_loop en [0..<Suc maxRetries] px2))) \<le> (if isIdempotentRequest (pe_req en) then 3 else 1)"
    if "px_log px2 = []" for px2
    using proxy_loop_log [OF prod.collapse [symmetric], of en "[0..<Suc maxRetries]" px2] that
    by (simp split: if_splits)
  then show ?thesis
    using assms by (auto simp: ProxyRequest_def Let_def split: go.split option.splits prod.splits)
qed (use assms in \<open>simp add: ProxyRequest_def\<close>)

subsection \<open>What the upstream receives\<close>

lemma ProxyRequest_keeps:
  assumes step: "\<And>att i upst svc px m px'. Inv (px_w px) (px_log px) (px_body px) \<Longrightarrow>
      doRequest en att i upst svc px = (m, px') \<Longrightarrow> Inv (px_w px') (px_log px') (px_body px')"
    and start: "Inv (px_w px) (px_log px) (px_body px)"
  shows "Inv (px_w (snd (ProxyRequest en px))) (px_log (snd (ProxyRequest en px))) (px_body (snd (ProxyRequest en px)))"
proof -
  have loop: "Inv (px_w (snd (proxy_loop en ns px2))) (px_log (snd (proxy_loop en ns px2))) (px_body (snd (proxy_loop en ns px2)))"
    if "Inv (px_w px2) (px_log px2) (px_body px2)" for px2 ns
  proof -
    obtain res px' where run: "proxy_loop en ns px2 = (res, px')" by fastforce
    have "Inv (px_w px') (px_log px') (px_body px')"
      by (rule proxy_loop_keeps [where Inv = Inv, OF step that run])
    then show ?thesis by (simp add: run)
  qed
  show ?thesis
    using start loop by (auto simp: ProxyRequest_def Let_def split: go.split option.split prod.split)
qed

lemma out_header:
  "or_Header (out_request_for en upst body) k =
     (if k = ''X-Forwarded-For'' then Some [peer (pe_req en)]
      else if k = ''X-Forwarded-Host'' then Some [rq_Host (pe_req en)]
      else if k = ''X-Forwarded-Proto'' then Some [if rq_TLS (pe_req en) then ''https'' else ''http'']
      else if k \<in> set hopByHopHeaders then None else rq_Header (pe_req en) k)"
  by (simp add: out_request_for_def SetForwardingHeaders_def h_Set_def canon_tables peer_def Let_def)

text \<open>Every call is one of the request, with a body only as long as none was closed.\<close>

lemma logged_calls:
  assumes "px_log px = []" and "(i, trips, reply) \<in> set (px_log (snd (ProxyRequest en px)))"
  shows "\<exists>upst body. call_of (pe_urls en) (out_request_for en upst body) trips \<and> (px_body px \<noteq> NoBody \<longrightarrow> body \<noteq> NoBody)"
proof -
  define Inv where "Inv = (\<lambda>(w :: response_writer) (calls :: do_call list) (b :: req_body).
    (px_body px \<noteq> NoBody \<longrightarrow> b \<noteq> NoBody) \<and> (\<forall>(i, trips, reply) \<in> set calls. \<exists>upst body.
      call_of (pe_urls en) (out_request_for en upst body) trips \<and> (px_body px \<noteq> NoBody \<longrightarrow> body \<noteq> NoBody)))"
  have "Inv (px_w (snd (ProxyRequest en px))) (px_log (snd (ProxyRequest en px))) (px_body (snd (ProxyRequest en px)))"
  proof (rule ProxyRequest_keeps)
    fix att i upst svc m and px1 px2 :: proxy_state
    assume inv: "Inv (px_w px1) (px_log px1) (px_body px1)" and d: "doRequest en att i upst svc px1 = (m, px2)"
    have closed: "b \<noteq> NoBody \<Longrightarrow> close_body b \<noteq> NoBody" for b by (simp add: close_body_def split: req_body.split)
    from doRequest_log [OF d] show "Inv (px_w px2) (px_log px2) (px_body px2)"
    proof
      assume "\<exists>trips reply. px_log px2 = px_log px1 @ [(i, trips, reply)] \<and> px_body px2 = close_body (px_body px1)
        \<and> call_of (pe_urls en) (out_request_for en upst (px_body px1)) trips"
      then show ?thesis using inv closed unfolding Inv_def by fastforce
    qed (use inv in \<open>simp add: Inv_def\<close>)
  qed (use assms(1) in \<open>simp add: Inv_def\<close>)
  then show ?thesis using assms(2) unfolding Inv_def by blast
qed

text \<open>
  C5: For one request the proxy calls \<open>client.Do\<close> at most three times, and at most once when the
  request is not idempotent: a \<open>POST\<close> or \<open>PATCH\<close> without \<open>X-Idempotency-Key\<close>, or a method the
  code does not know, is never retried. The client has no \<open>CheckRedirect\<close>, so one call is up to
  ten round trips when upstreams answer with redirects; those after the first are \<open>GET\<close>s without
  a body if the request had a body and was no \<open>HEAD\<close>. So a \<open>POST\<close> with a body is sent to an
  upstream once; one without a body is sent again where a 307 or 308 points to.
\<close>

theorem retries_bounded:
  assumes "px_log px = []"
  shows "length (px_log (snd (ProxyRequest en px))) \<le> (if isIdempotentRequest (pe_req en) then 3 else 1)
    \<and> (\<forall>(i, trips, reply) \<in> set (px_log (snd (ProxyRequest en px))). 1 \<le> length trips \<and> length trips \<le> 10
        \<and> or_Method (fst (hd trips)) = rq_Method (pe_req en)
        \<and> (px_body px \<noteq> NoBody \<and> rq_Method (pe_req en) \<noteq> ''HEAD'' \<longrightarrow>
            (\<forall>(out, resp) \<in> set (tl trips). or_Method out = ''GET'' \<and> or_Body out = NoBody)))"
proof (intro conjI ballI)
  show "length (px_log (snd (ProxyRequest en px))) \<le> (if isIdempotentRequest (pe_req en) then 3 else 1)"
    by (rule loop_calls [OF assms])
next
  fix entry assume "entry \<in> set (px_log (snd (ProxyRequest en px)))"
  moreover obtain i trips reply where "entry = (i, trips, reply)" by (rule prod_cases3)
  ultimately have e: "entry = (i, trips, reply)" "(i, trips, reply) \<in> set (px_log (snd (ProxyRequest en px)))" by simp_all
  obtain upst body where c: "call_of (pe_urls en) (out_request_for en upst body) trips" "px_body px \<noteq> NoBody \<longrightarrow> body \<noteq> NoBody"
    using logged_calls [OF assms e(2)] by blast
  have trips: "trips \<noteq> []" "fst (hd trips) = out_request_for en upst body" "length trips \<le> 10"
    "successively (follows (pe_urls en) (out_request_for en upst body)) trips" using c(1) by (simp_all add: call_of_def)
  have later: "or_Method (fst t) = ''GET'' \<and> or_Body (fst t) = NoBody"
    if "px_body px \<noteq> NoBody" "rq_Method (pe_req en) \<noteq> ''HEAD''" "t \<in> set (tl trips)" for t
    using redirects_GET [OF trips(4) _ _ that(3)] that(1,2) c(2) trips(2) by (simp add: out_request_for_def)
  have "Suc 0 \<le> length trips" using trips(1) by (cases trips) simp_all
  then show "case entry of (i, trips, reply) \<Rightarrow> 1 \<le> length trips \<and> length trips \<le> 10 \<and> or_Method (fst (hd trips)) = rq_Method (pe_req en)
        \<and> (px_body px \<noteq> NoBody \<and> rq_Method (pe_req en) \<noteq> ''HEAD'' \<longrightarrow>
            (\<forall>(out, resp) \<in> set (tl trips). or_Method out = ''GET'' \<and> or_Body out = NoBody))"
    using trips(2,3) later by (fastforce simp: e(1) out_request_for_def)
qed

text \<open>The header the gateway sends for the request.\<close>

definition forwarded_header :: "request \<Rightarrow> header" where
  "forwarded_header r k =
     (if k = ''X-Forwarded-For'' then Some [peer r]
      else if k = ''X-Forwarded-Host'' then Some [rq_Host r]
      else if k = ''X-Forwarded-Proto'' then Some [if rq_TLS r then ''https'' else ''http'']
      else if k \<in> set hopByHopHeaders then None else rq_Header r k)"

text \<open>
  C9: The first request of every call carries the gateway's own \<open>X-Forwarded-For\<close>, \<open>-Host\<close> and
  \<open>-Proto\<close>, whatever the client or a plugin put there, none of the hop-by-hop headers of the
  code's table, and all other headers of the request unchanged, with the request's method. What
  the call sends after a redirect carries the same header, but for a \<open>Referer\<close> and for
  credentials that are dropped. Only these three are replaced: an \<open>X-Forwarded-Port\<close> or
  \<open>-Prefix\<close> of the client passes unchanged, against the comments in \<open>headers.go\<close>, which promise
  that all \<open>X-Forwarded-*\<close> headers are replaced.
\<close>

theorem forwarding_headers_authoritative:
  assumes "px_log px = []" and "(i, trips, reply) \<in> set (px_log (snd (ProxyRequest en px)))"
  shows "or_Method (fst (hd trips)) = rq_Method (pe_req en)
    \<and> or_Header (fst (hd trips)) k = forwarded_header (pe_req en) k
    \<and> (\<forall>(out, resp) \<in> set (tl trips). or_Header out k = forwarded_header (pe_req en) k
        \<or> k = ''Referer'' \<or> k \<in> credential_headers \<and> or_Header out k = None)"
proof -
  obtain upst body where c: "call_of (pe_urls en) (out_request_for en upst body) trips"
    using logged_calls [OF assms] by blast
  then have trips: "fst (hd trips) = out_request_for en upst body"
    "successively (follows (pe_urls en) (out_request_for en upst body)) trips" by (simp_all add: call_of_def)
  have h: "or_Header (out_request_for en upst body) k = forwarded_header (pe_req en) k" by (simp add: out_header forwarded_header_def)
  have "\<forall>(out, resp) \<in> set (tl trips). or_Header out k = forwarded_header (pe_req en) k
        \<or> k = ''Referer'' \<or> k \<in> credential_headers \<and> or_Header out k = None"
    using redirected_header [OF trips(2), of _ k] h by fastforce
  then show ?thesis using h by (simp add: trips(1) out_request_for_def)
qed

subsection \<open>A request body is sent once\<close>

text \<open>
  Only the first call can carry a request body. The stream is closed when that
  call ends, and the code keeps no copy, so a retried \<open>PUT\<close>, or a \<open>POST\<close> with an
  idempotency key, goes out over a closed body.
\<close>

theorem retries_lose_the_body:
  assumes "px_log px = []" and "0 < k" and "k < length (px_log (snd (ProxyRequest en px)))"
    and "px_log (snd (ProxyRequest en px)) ! k = (i, trips, reply)" and "px_body px = Stream content"
  shows "or_Body (fst (hd trips)) = ClosedBody"
proof -
  define Inv where "Inv = (\<lambda>(w :: response_writer) (calls :: do_call list) b.
    (if calls = [] then b = Stream content else b = ClosedBody)
    \<and> (\<forall>k. 0 < k \<and> k < length calls \<longrightarrow> or_Body (fst (hd (fst (snd (calls ! k))))) = ClosedBody))"
  have "Inv (px_w (snd (ProxyRequest en px))) (px_log (snd (ProxyRequest en px))) (px_body (snd (ProxyRequest en px)))"
  proof (rule ProxyRequest_keeps)
    fix att i upst svc m and px1 px2 :: proxy_state
    assume inv: "Inv (px_w px1) (px_log px1) (px_body px1)" and d: "doRequest en att i upst svc px1 = (m, px2)"
    then show "Inv (px_w px2) (px_log px2) (px_body px2)"
    proof (cases "px_log px2 = px_log px1 \<and> px_body px2 = px_body px1")
      case True
      then show ?thesis using inv by (simp add: Inv_def)
    next
      case False
      then obtain trips reply where "px_log px2 = px_log px1 @ [(i, trips, reply)]"
        "px_body px2 = close_body (px_body px1)" "or_Body (fst (hd trips)) = px_body px1"
        using doRequest_log [OF d] by (auto simp: call_of_def out_request_for_def)
      moreover have "px_body px1 = (if px_log px1 = [] then Stream content else ClosedBody)"
        and "\<forall>k. 0 < k \<and> k < length (px_log px1) \<longrightarrow> or_Body (fst (hd (fst (snd (px_log px1 ! k))))) = ClosedBody"
        using inv unfolding Inv_def by (simp split: if_splits, blast)
      ultimately show ?thesis
        by (cases "px_log px1 = []") (auto simp: Inv_def close_body_def nth_append less_Suc_eq)
    qed
  qed (use assms(1,5) in \<open>simp add: Inv_def\<close>)
  then have "or_Body (fst (hd (fst (snd (px_log (snd (ProxyRequest en px)) ! k))))) = ClosedBody"
    using assms(2,3) unfolding Inv_def by blast
  then show ?thesis using assms(4) by simp
qed

subsection \<open>What the client receives\<close>

text \<open>The replies that the calls returned, in order: status, header and body.\<close>

definition replies :: "do_call list \<Rightarrow> (int \<times> header \<times> string) list" where
  "replies calls = concat (map (\<lambda>(i, trips, reply). case reply of Reply status h body \<Rightarrow> [(status, h, body)] | ConnError \<Rightarrow> []) calls)"

abbreviation bodies :: "(int \<times> header \<times> string) list \<Rightarrow> string" where
  "bodies rs \<equiv> concat (map (\<lambda>(status, h, body). body) rs)"

definition first_reply_sent :: "response_writer \<Rightarrow> (int \<times> header \<times> string) list \<Rightarrow> bool" where
  "first_reply_sent w rs = (case rs of
        [] \<Rightarrow> rw_sent w = None \<and> rw_body w = [] \<and> rw_written w = 0 \<and> rw_header w ''Content-Length'' = None
      | (status, h, body) # rest \<Rightarrow> (\<exists>h'. rw_sent w = Some (status, h') \<and> declared_length h' = declared_length h)
          \<and> (\<not> bodyAllowed status \<longrightarrow> rw_body w = [])
          \<and> (bodyAllowed status \<and> declared_length h = None \<longrightarrow> rw_body w = bodies rs)
          \<and> (bodyAllowed status \<and> declared_length h = Some (length body) \<longrightarrow> rw_body w = body \<and> length body \<le> rw_written w))"

definition relayed :: "response_writer \<Rightarrow> do_call list \<Rightarrow> bool" where
  "relayed w calls \<longleftrightarrow> ((\<forall>(status, h, body) \<in> set (replies calls). 200 \<le> status \<and> status \<le> 999) \<longrightarrow> first_reply_sent w (replies calls))"

lemma replies_snoc: "replies (calls @ [(i, trips, reply)])
    = replies calls @ (case reply of Reply status h body \<Rightarrow> [(status, h, body)] | ConnError \<Rightarrow> [])"
  by (simp add: replies_def)

lemma relayed_same: "relayed w calls \<Longrightarrow> replies calls' = replies calls \<Longrightarrow> relayed w calls'"
  by (simp only: relayed_def)

abbreviation relay_header :: "header \<Rightarrow> header \<Rightarrow> header" where
  "relay_header new h \<equiv> add_header h (StripHopByHopFromResponse new)"

lemma declared_relay: "h ''Content-Length'' = None \<Longrightarrow> declared_length (relay_header new h) = declared_length new"
proof -
  assume none: "h ''Content-Length'' = None"
  have key: "CanonicalHeaderKey ''Content-Length'' = ''Content-Length''" by code_simp
  have "StripHopByHopFromResponse new ''Content-Length'' = new ''Content-Length''"
    by (simp add: StripHopByHopFromResponse_def fold_Del canon_hops) (simp add: hopByHopHeaders_def)
  then have "h_Get (relay_header new h) ''Content-Length'' = h_Get new ''Content-Length''"
    by (simp add: h_Get_def key add_header_def none split: option.split list.split)
  then show ?thesis by (simp add: declared_length_def)
qed

lemma copy_first:
  assumes "rw_sent w = Some (status, h)" and "rw_body w = []" and "rw_written w = 0"
    and "w' = (if body = [] then w else rw_Copy body w)"
  shows "rw_sent w' = Some (status, h) \<and> (\<not> bodyAllowed status \<longrightarrow> rw_body w' = [])
    \<and> (bodyAllowed status \<and> declared_length h = None \<longrightarrow> rw_body w' = body)
    \<and> (bodyAllowed status \<and> declared_length h = Some (length body) \<longrightarrow> rw_body w' = body \<and> length body \<le> rw_written w')"
  using assms by (cases "declared_length h") (auto simp: rw_Copy_def rw_Write_def)

lemma copy_later:
  assumes "rw_sent w = Some (status, h)" and "w' = (if body = [] then w else rw_Copy body w)"
  shows "rw_sent w' = Some (status, h) \<and> (\<not> bodyAllowed status \<longrightarrow> rw_body w' = rw_body w)
    \<and> (bodyAllowed status \<and> declared_length h = None \<longrightarrow> rw_body w' = rw_body w @ body)
    \<and> (bodyAllowed status \<and> declared_length h = Some n \<and> n \<le> rw_written w \<longrightarrow> rw_body w' = rw_body w \<and> n \<le> rw_written w')"
  using assms by (cases "declared_length h"; cases body) (auto simp: rw_Copy_def rw_Write_def)

lemma relay_write:
  assumes inv: "relayed (px_w px) (px_log px)" and "200 \<le> status" and "status \<le> 999"
    and w: "WriteHeader status (rw_map (relay_header h) (px_w px)) = Ret w2"
    and logged: "replies calls' = replies (px_log px) @ [(status, h, body)]"
  shows "relayed (if body = [] then w2 else rw_Copy body w2) calls'"
proof (cases "\<forall>(s, g, b) \<in> set (replies (px_log px)). 200 \<le> s \<and> s \<le> 999")
  case True
  then have first: "first_reply_sent (px_w px) (replies (px_log px))" using inv unfolding relayed_def by blast
  show ?thesis
  proof (cases "replies (px_log px)")
    case Nil
    then have px: "rw_sent (px_w px) = None" "rw_body (px_w px) = []" "rw_written (px_w px) = 0" "rw_header (px_w px) ''Content-Length'' = None"
      using first by (simp_all add: first_reply_sent_def)
    then have "w2 = (rw_map (relay_header h) (px_w px))\<lparr>rw_sent := Some (status, relay_header h (rw_header (px_w px)))\<rparr>"
      using w assms(2,3) by (simp add: WriteHeader_def rw_map_def)
    then have w2: "rw_sent w2 = Some (status, relay_header h (rw_header (px_w px)))" "rw_body w2 = []" "rw_written w2 = 0"
      by (simp_all add: rw_map_def px)
    from copy_first [OF w2 refl, of body, unfolded declared_relay [of "rw_header (px_w px)" h, OF px(4)]]
    have "first_reply_sent (if body = [] then w2 else rw_Copy body w2) (replies calls')"
      using declared_relay [of "rw_header (px_w px)" h, OF px(4)] unfolding logged Nil first_reply_sent_def by simp
    then show ?thesis by (simp add: relayed_def)
  next
    case (Cons p rest)
    obtain s0 h0 b0 where p: "p = (s0, h0, b0)" by (cases p) auto
    then obtain h' where h': "rw_sent (px_w px) = Some (s0, h')" "declared_length h' = declared_length h0"
      using first Cons by (auto simp: first_reply_sent_def)
    then have w2: "w2 = rw_map (relay_header h) (px_w px)" using w by (simp add: WriteHeader_def)
    then have same: "rw_sent w2 = Some (s0, h')" "rw_body w2 = rw_body (px_w px)" "rw_written w2 = rw_written (px_w px)"
      using h'(1) by (simp_all add: rw_map_def)
    from copy_later [OF same(1) refl, of body "length b0", unfolded h'(2) same(2,3)]
    have "first_reply_sent (if body = [] then w2 else rw_Copy body w2) (replies calls')"
      using first h'(2) unfolding logged Cons p first_reply_sent_def by simp
    then show ?thesis by (simp add: relayed_def)
  qed
next
  case False
  then show ?thesis using logged by (auto simp: relayed_def)
qed

lemma doRequest_relay:
  assumes inv: "relayed (px_w px) (px_log px)" and d: "doRequest en att i upst svc px = (m, px')"
  shows "relayed (px_w px') (px_log px')"
proof (cases "at_urlOk att (upst @ pe_uri en)")
  case True
  obtain trips reply where do: "client_Do (pe_urls en) (at_reply att (transport_Get (pe_transports en) svc))
      (out_request_for en upst (px_body px)) = (trips, reply)" by fastforce
  show ?thesis
  proof (cases reply)
    case ConnError
    then have "px_w px' = px_w px" "replies (px_log px') = replies (px_log px)"
      using d True do by (auto simp: doRequest_def Let_def replies_snoc)
    then show ?thesis using inv by (simp add: relayed_same)
  next
    case (Reply status h body)
    have calls: "replies (px_log px') = replies (px_log px) @ [(status, h, body)]"
      using d True Reply do by (auto simp: doRequest_def Let_def replies_snoc split: go.splits)
    show ?thesis
    proof (cases "200 \<le> status \<and> status \<le> 999")
      case ok: True
      obtain w2 where w2: "WriteHeader status (rw_map (relay_header h) (px_w px)) = Ret w2"
        using ok by (cases "WriteHeader status (rw_map (relay_header h) (px_w px))") (auto simp: WriteHeader_def split: if_splits)
      then have "px_w px' = (if body = [] then w2 else rw_Copy body w2)"
        using d True Reply do by (auto simp: doRequest_def Let_def)
      then show ?thesis using relay_write [OF inv _ _ w2 calls] ok by simp
    next
      case False
      then show ?thesis using calls by (auto simp: relayed_def)
    qed
  qed
qed (use inv d in \<open>simp add: doRequest_def\<close>)

text \<open>A writer that nothing has been written to, and whose header declares no length.\<close>

definition fresh_writer :: "response_writer \<Rightarrow> bool" where
  "fresh_writer w \<longleftrightarrow> rw_sent w = None \<and> rw_body w = [] \<and> rw_written w = 0 \<and> rw_header w ''Content-Length'' = None"

lemma ProxyRequest_relays:
  assumes "px_log px = []" and "fresh_writer (px_w px)"
  shows "relayed (px_w (snd (ProxyRequest en px))) (px_log (snd (ProxyRequest en px)))"
proof (rule ProxyRequest_keeps [where Inv = "\<lambda>w calls b. relayed w calls"])
  fix att i upst svc m and px1 px2 :: proxy_state
  assume inv: "relayed (px_w px1) (px_log px1)" and d: "doRequest en att i upst svc px1 = (m, px2)"
  show "relayed (px_w px2) (px_log px2)" using doRequest_relay [OF inv d] .
qed (use assms in \<open>simp add: relayed_def replies_def first_reply_sent_def fresh_writer_def\<close>)

text \<open>
  C22: The client's status is the first reply's, also when the caller then retries: \<open>doRequest\<close>
  sends header and body before the caller looks whether the status is one to retry. If that
  reply declared the length of its body, the client gets that body, and the server refuses the
  bodies of the later replies; if it declared none, the client gets the bodies of all replies
  one after the other. A \<open>GET\<close> answered 503, then 200, reaches the client as a 503. With no
  reply at all nothing has been sent.
\<close>

theorem client_gets_first_status:
  assumes "px_log px = []" and "fresh_writer (px_w px)"
    and "\<forall>(status, h, body) \<in> set (replies (px_log (snd (ProxyRequest en px)))). 200 \<le> status \<and> status \<le> 999"
  shows "case replies (px_log (snd (ProxyRequest en px))) of
      [] \<Rightarrow> rw_sent (px_w (snd (ProxyRequest en px))) = None \<and> rw_body (px_w (snd (ProxyRequest en px))) = []
    | (status, h, body) # rest \<Rightarrow>
        (\<exists>h'. rw_sent (px_w (snd (ProxyRequest en px))) = Some (status, h'))
        \<and> (\<not> bodyAllowed status \<longrightarrow> rw_body (px_w (snd (ProxyRequest en px))) = [])
        \<and> (bodyAllowed status \<and> declared_length h = Some (length body) \<longrightarrow> rw_body (px_w (snd (ProxyRequest en px))) = body)
        \<and> (bodyAllowed status \<and> declared_length h = None \<longrightarrow>
            rw_body (px_w (snd (ProxyRequest en px))) = body @ bodies rest)"
proof -
  have "first_reply_sent (px_w (snd (ProxyRequest en px))) (replies (px_log (snd (ProxyRequest en px))))"
    using ProxyRequest_relays [OF assms(1,2), of en] assms(3) unfolding relayed_def by blast
  then show ?thesis by (auto simp: first_reply_sent_def split: list.splits prod.splits)
qed

subsection \<open>Probes that are never reported\<close>

text \<open>
  C23: A request that the service's open breaker admits as its probe and that finds less than
  200 ms of its deadline left returns 504 without calling an upstream and without reporting
  anything. If no other admitted request of the service is in flight, the breaker is half open
  for ever: whatever the later requests do, reporting one outcome for each admitted one, it
  stays as it is and refuses them all.
\<close>

theorem service_probe_leaks:
  assumes "gwctx_From (pe_req en) = Some g" and "px_scb px = Some cb" and "cb_st cb = StateOpen"
    and "reset_timeout (cb_cfg cb) \<le> pe_start en - cb_opened_at cb"
    and "rq_Deadline (pe_req en) = Some deadline" and "deadline - at_now (pe_attempts en 0) < minRemainingForRetry"
  shows "\<exists>px' cb'. ProxyRequest en px = (Ret (Some \<lparr>pr_StatusCode = 504, pr_Message = ''upstream deadline exceeded''\<rparr>), px')
    \<and> px_scb px' = Some cb' \<and> cb_st cb' = StateHalfOpen \<and> px_log px' = px_log px
    \<and> (\<forall>s. client_step\<^sup>*\<^sup>* (cb', 0) s \<longrightarrow> s = (cb', 0) \<and> (\<forall>t. \<not> fst (cb_allow t (fst s))))"
proof -
  let ?cb = "transition StateHalfOpen cb"
  have "cb_allow (pe_start en) cb = (True, ?cb)" using assms(3,4) by (simp add: cb_allow_def)
  moreover have half: "cb_st ?cb = StateHalfOpen" by (simp add: transition_def Let_def)
  ultimately obtain px' where "ProxyRequest en px = (Ret (Some \<lparr>pr_StatusCode = 504, pr_Message = ''upstream deadline exceeded''\<rparr>), px')"
    "px_scb px' = Some ?cb" "px_log px' = px_log px"
    using assms(1,2,5,6)
    by (simp add: ProxyRequest_def gwctx_MustFrom_def Let_def upt_conv_Cons proxy_attempt_def upd_gw_def)
  moreover have "\<forall>s. client_step\<^sup>*\<^sup>* (?cb, 0) s \<longrightarrow> s = (?cb, 0) \<and> (\<forall>t. \<not> fst (cb_allow t (fst s)))"
  proof (intro allI impI)
    fix s assume "client_step\<^sup>*\<^sup>* (?cb, 0) s"
    then have "s = (?cb, 0)" by (rule half_open_deadlock [OF half])
    then show "s = (?cb, 0) \<and> (\<forall>t. \<not> fst (cb_allow t (fst s)))" using half_open_rejects [OF half] by simp
  qed
  ultimately show ?thesis using half by blast
qed

subsection \<open>Probes of the instances that were not chosen\<close>

text \<open>The breakers after every instance of a list was asked.\<close>

lemma skip_fold_other:
  "\<forall>i \<in> set is. inst_ID (h_inst h i) \<noteq> iid \<Longrightarrow>
    fold (\<lambda>i s. snd (isSkipped h now i s)) is cbs iid = cbs iid"
proof (induction "is" arbitrary: cbs)
  case (Cons i "is")
  have "snd (isSkipped h now i cbs) iid = cbs iid"
    using Cons.prems by (auto simp: isSkipped_def split: option.split prod.split)
  then show ?case using Cons by simp
qed simp

lemma skip_fold:
  "distinct (map (\<lambda>i. inst_ID (h_inst h i)) is) \<Longrightarrow> j \<in> set is \<Longrightarrow> cbs (inst_ID (h_inst h j)) = Some cb \<Longrightarrow>
    fold (\<lambda>i s. snd (isSkipped h now i s)) is cbs (inst_ID (h_inst h j)) = Some (snd (cb_allow now cb))"
proof (induction "is" arbitrary: cbs)
  case (Cons i "is")
  show ?case
  proof (cases "i = j")
    case True
    then have "\<forall>k \<in> set is. inst_ID (h_inst h k) \<noteq> inst_ID (h_inst h j)" using Cons.prems(1) by (auto simp: image_iff)
    then show ?thesis
      using skip_fold_other [of "is" h "inst_ID (h_inst h j)" now] True Cons.prems(3)
      by (simp add: isSkipped_def split_beta)
  next
    case False
    then have j: "j \<in> set is" "inst_ID (h_inst h i) \<noteq> inst_ID (h_inst h j)" using Cons.prems(1,2) by force+
    then have "snd (isSkipped h now i cbs) (inst_ID (h_inst h j)) = Some cb"
      using Cons.prems(3) by (auto simp: isSkipped_def split: option.split prod.split)
    then show ?thesis using Cons.IH Cons.prems(1) j by simp
  qed
qed simp

lemma doRequest_icbs: "doRequest en att i upst svc px = (m, px') \<Longrightarrow> px_icbs px' = px_icbs px"
  by (auto simp: doRequest_def Let_def split: if_splits upstream_reply.splits go.splits prod.splits)

lemma icbs_frame [simp]:
  "px_icbs (report_service f px) = px_icbs px" "px_icbs (upd_gw g px) = px_icbs px" "px_icbs (report_done cb l e px) = px_icbs px"
  "px_icbs (report_instance iid f px) = (px_icbs px)(iid := map_option f (px_icbs px iid))"
  by (simp_all add: report_instance_def report_service_def upd_gw_def report_done_def)

text \<open>An attempt that called instance \<open>i\<close>: the breakers are those after the choice, but for \<open>i\<close>'s.\<close>

lemma attempt_icbs:
  assumes run: "proxy_attempt en n px = (res, px')" and one: "px_log px' = px_log px @ [(i, out, reply)]"
    and h: "h = at_heap (pe_attempts en n)"
    and d: "fair_draws (at_draws (pe_attempts en n))" "length (HealthyInstances h (pe_svc en)) < 2 ^ 63"
  shows "iid \<noteq> inst_ID (h_inst h i) \<Longrightarrow> px_icbs px' iid
    = fold (\<lambda>i s. snd (isSkipped h (at_now (pe_attempts en n)) i s)) (HealthyInstances h (pe_svc en)) (px_icbs px) iid"
proof -
  let ?att = "pe_attempts en n"
  let ?idof = "\<lambda>i. inst_ID (h_inst h i)" and ?ok = "\<lambda>i. IsHealthy (h_inst h i)"
  let ?sk = "isSkipped h (at_now ?att)"
  assume iid: "iid \<noteq> inst_ID (h_inst h i)"
  obtain r lb icbs where nx: "lb_Next ?idof ?ok (Some ?sk) (HealthyInstances h (pe_svc en)) (at_draws ?att) (px_lb px) (px_icbs px)
      = (r, lb, icbs)" by (metis prod_cases3)
  have "filter ?ok (HealthyInstances h (pe_svc en)) = HealthyInstances h (pe_svc en)"
    by (simp add: HealthyInstances_def)
  then have icbs: "icbs = fold (\<lambda>i s. snd (?sk i s)) (HealthyInstances h (pe_svc en)) (px_icbs px)"
    using lbs.next_skipper_state [OF d, of ?idof ?ok "Some ?sk" "px_lb px" "px_icbs px"] nx
    by (simp add: eligible_asks_all)
  have changed: "px_log px' \<noteq> px_log px" using one by simp
  show ?thesis
  proof (cases r)
    case (Inl e)
    then show ?thesis using run nx changed by (auto simp: proxy_attempt_def h Let_def split: if_splits)
  next
    case (Inr p)
    obtain k cb where p: "p = (k, cb)" by fastforce
    define px2 where "px2 = upd_gw (\<lambda>g. g\<lparr>gw_SelectedInstance := inst_Address (h_inst h k),
        gw_ServiceName := se_Name (h_entry h (pe_svc en))\<rparr>) (px\<lparr>px_lb := lb, px_icbs := icbs\<rparr>)"
    obtain m px3 where dr: "doRequest en ?att k (''http://'' @ inst_Address (h_inst h k)) (se_Name (h_entry h (pe_svc en))) px2 = (m, px3)"
      by fastforce
    have c: "px_icbs px3 = icbs" "px_log px2 = px_log px" using doRequest_icbs [OF dr] by (simp_all add: px2_def)
    have "px_log px' = px_log px3 \<and> (\<exists>f. px_icbs px' = icbs \<or> px_icbs px' = icbs(?idof k := map_option f (icbs (?idof k))))"
      using run nx [unfolded h] Inr p dr [unfolded px2_def h] changed c(1)
      by (auto simp: proxy_attempt_def h Let_def split: go.splits if_splits prod.splits)
    moreover have "px_log px3 \<noteq> px_log px2 \<Longrightarrow> \<exists>out reply. px_log px3 = px_log px2 @ [(k, out, reply)]"
      using doRequest_log [OF dr] by blast
    ultimately have "k = i" "px_icbs px' = icbs \<or> (\<exists>f. px_icbs px' = icbs(?idof k := map_option f (icbs (?idof k))))"
      using one c(2) by (metis append1_eq_conv prod.inject not_Cons_self2 self_append_conv, blast)
    then show ?thesis using iid icbs by auto
  qed
qed

text \<open>
  Choosing an instance calls \<open>Allow\<close> on the breaker of every healthy instance, but only
  the chosen one is reported. So after an attempt every other healthy instance whose
  breaker was due for a probe is left half open: it has spent its probe on being looked at,
  and unless a request admitted before reports to it, no request will reach it again.
\<close>

theorem instance_probe_leaks:
  assumes "proxy_attempt en n px = (res, px')" and "px_log px' = px_log px @ [(i, out, reply)]"
    and h: "h = at_heap (pe_attempts en n)"
    and "fair_draws (at_draws (pe_attempts en n))" and "length (HealthyInstances h (pe_svc en)) < 2 ^ 63"
    and "distinct (map (\<lambda>i. inst_ID (h_inst h i)) (HealthyInstances h (pe_svc en)))"
    and "j \<in> set (HealthyInstances h (pe_svc en))" and "inst_ID (h_inst h j) \<noteq> inst_ID (h_inst h i)"
    and "px_icbs px (inst_ID (h_inst h j)) = Some cb" and "cb_st cb = StateOpen"
    and "reset_timeout (cb_cfg cb) \<le> at_now (pe_attempts en n) - cb_opened_at cb"
  shows "\<exists>cb'. px_icbs px' (inst_ID (h_inst h j)) = Some cb' \<and> (\<forall>t. cb_allow t cb' = (False, cb'))"
proof -
  have "px_icbs px' (inst_ID (h_inst h j)) = Some (snd (cb_allow (at_now (pe_attempts en n)) cb))"
    using attempt_icbs [OF assms(1-5) assms(8)] skip_fold [of h _ j "px_icbs px" cb "at_now (pe_attempts en n)", OF assms(6,7,9)] by simp
  moreover have "cb_st (snd (cb_allow (at_now (pe_attempts en n)) cb)) = StateHalfOpen"
    using assms(10,11) by (simp add: cb_allow_def transition_def Let_def)
  ultimately show ?thesis using half_open_rejects by blast
qed

subsection \<open>A run\<close>

definition sample_ctx :: GatewayContext where
  "sample_ctx = \<lparr>gw_RequestID = [], gw_TraceID = [], gw_ClientIP = None, gw_StartTime = 0, gw_RouteID = [], gw_AuthClaims = None,
     gw_UserID = [], gw_CircuitState = CircuitClosed, gw_SelectedInstance = [], gw_ServiceName = [], gw_RetryCount = 0,
     gw_FailureReason = []\<rparr>"

definition sample_attempt :: "upstream_reply \<Rightarrow> attempt" where
  "sample_attempt reply = \<lparr>at_now = 0, at_heap = sample_heap, at_draws = \<lparr>dr_explore = 0, dr_target = 0, dr_intn = (\<lambda>_. 0)\<rparr>,
     at_urlOk = (\<lambda>_. True), at_reply = (\<lambda>_ _ _. reply), at_done = 0, at_jitter = 0, at_cancelled = False\<rparr>"

text \<open>Every location is absolute, every redirect leaves the domain, and the \<open>Referer\<close> is the last URL.\<close>

definition sample_urls :: url_ops where
  "sample_urls = \<lparr>uo_Parse = (\<lambda>_ loc. Some loc), uo_isDomainOrSubdomain = (\<lambda>_ _. False), uo_refererForURL = (\<lambda>prev _ _. prev)\<rparr>"

text \<open>The first attempt is answered 503 with the header \<open>h\<close>, the others 200.\<close>

definition sample_relay :: "string \<Rightarrow> header \<Rightarrow> proxy_env" where
  "sample_relay method h = \<lparr>pe_req = sample_request\<lparr>rq_Method := method, rq_Ctx := Some sample_ctx\<rparr>, pe_uri = ''/'', pe_svc = 0,
     pe_start = 0, pe_transports = Map.empty, pe_urls = sample_urls,
     pe_attempts = (\<lambda>n. sample_attempt (if n = 0 then Reply 503 h ''busy'' else Reply 200 Map.empty ''fine''))\<rparr>"

abbreviation sample_proxy :: "string \<Rightarrow> proxy_env" where
  "sample_proxy method \<equiv> sample_relay method Map.empty"

text \<open>The instance redirects to another host.\<close>

definition elsewhere :: upstream_reply where
  "elsewhere = Reply 302 [''Location'' \<mapsto> [''http://other/'']] []"

definition redirect_proxy :: "string \<Rightarrow> proxy_env" where
  "redirect_proxy method = (sample_proxy method)\<lparr>pe_attempts := (\<lambda>n. (sample_attempt elsewhere)
     \<lparr>at_reply := (\<lambda>_ k _. if k = 0 then elsewhere else Reply 200 Map.empty ''fine'')\<rparr>)\<rparr>"

definition sample_px :: "req_body \<Rightarrow> proxy_state" where
  "sample_px body = \<lparr>px_w = new_rw, px_ctx = sample_ctx, px_body = body, px_lb = LbRandom, px_scb = None, px_icbs = Map.empty,
     px_log = [], px_waits = []\<rparr>"

lemma sample_px_start: "px_log (sample_px b) = []" "px_body (sample_px b) = b" "fresh_writer (px_w (sample_px b))"
  by (simp_all add: sample_px_def fresh_writer_def new_rw_def)

lemma healthy_sample: "HealthyInstances sample_heap 0 = [0]"
  by (simp add: HealthyInstances_def sample_heap_def IsHealthy_def)

lemma next_sample: "lb_Next idof (\<lambda>i. IsHealthy (h_inst sample_heap i)) (Some (isSkipped sample_heap now)) [0]
    \<lparr>dr_explore = 0, dr_target = 0, dr_intn = (\<lambda>_. 0)\<rparr> LbRandom Map.empty = (Inr (0, None), LbRandom, Map.empty)"
  by (simp add: lb_Next_def random_Next_def isSkipped_def sample_heap_def IsHealthy_def)

lemma client_Do_plain: "redirectBehavior (or_Method out) status out = None \<Longrightarrow>
    client_Do ops (\<lambda>_ _. Reply status h body) out = ([(out, Reply status h body)], Reply status h body)"
  by (simp add: client_Do_def eval_nat_numeral Let_def)

lemma client_Do_elsewhere: "client_Do sample_urls (\<lambda>k _. if k = 0 then elsewhere else Reply 200 Map.empty ''fine'') out
    = ([(out, elsewhere), (redirected sample_urls out out (if or_Method out \<in> {''GET'', ''HEAD''} then or_Method out else ''GET'') ''http://other/'',
         Reply 200 Map.empty ''fine'')], Reply 200 Map.empty ''fine'')"
proof -
  have "h_Get [''Location'' \<mapsto> [''http://other/'']] ''Location'' = ''http://other/''" by code_simp
  then show ?thesis by (simp add: client_Do_def eval_nat_numeral elsewhere_def redirectBehavior_def sample_urls_def Let_def)
qed

lemma sample_run:
  "\<exists>out0 out1. px_log (snd (ProxyRequest (sample_relay ''PUT'' h) (sample_px body)))
    = [(0, [(out0, Reply 503 h ''busy'')], Reply 503 h ''busy''),
       (0, [(out1, Reply 200 Map.empty ''fine'')], Reply 200 Map.empty ''fine'')]"
  by (simp add: ProxyRequest_def sample_relay_def sample_px_def sample_attempt_def gwctx_MustFrom_def gwctx_From_def
      upt_conv_Cons proxy_attempt_def isIdempotentRequest_def healthy_sample next_sample doRequest_def Let_def
      client_Do_plain redirectBehavior_def WriteHeader_def rw_map_def new_rw_def
      retryableStatusCodes_def upd_gw_def report_instance_def report_done_def lb_done_def report_service_def sample_request_def)

lemma redirect_run:
  "\<exists>out0 out1. px_log (snd (ProxyRequest (redirect_proxy ''POST'') (sample_px body)))
    = [(0, [(out0, elsewhere), (out1, Reply 200 Map.empty ''fine'')], Reply 200 Map.empty ''fine'')]"
  by (simp add: ProxyRequest_def redirect_proxy_def sample_relay_def sample_px_def sample_attempt_def gwctx_MustFrom_def gwctx_From_def
      upt_conv_Cons proxy_attempt_def isIdempotentRequest_def healthy_sample next_sample doRequest_def Let_def
      client_Do_elsewhere WriteHeader_def rw_map_def new_rw_def
      retryableStatusCodes_def upd_gw_def report_instance_def report_done_def lb_done_def report_service_def sample_request_def)

theorem retries_bounded_witness:
  "length (px_log (snd (ProxyRequest (sample_proxy ''PUT'') (sample_px NoBody)))) \<le> 3
    \<and> length (px_log (snd (ProxyRequest (redirect_proxy ''POST'') (sample_px (Stream ''x''))))) \<le> 1
    \<and> (\<exists>i out0 resp0 out1 resp1 reply. (i, [(out0, resp0), (out1, resp1)], reply)
          \<in> set (px_log (snd (ProxyRequest (redirect_proxy ''POST'') (sample_px (Stream ''x'')))))
        \<and> or_Method out0 = ''POST'' \<and> or_Method out1 = ''GET'' \<and> or_Body out1 = NoBody)"
proof -
  have i: "isIdempotentRequest (pe_req (sample_proxy ''PUT''))" "\<not> isIdempotentRequest (pe_req (redirect_proxy ''POST''))"
    "rq_Method (pe_req (redirect_proxy ''POST'')) = ''POST''"
    by (simp_all add: isIdempotentRequest_def redirect_proxy_def sample_relay_def sample_request_def h_Get_def)
  obtain out0 out1 where r: "px_log (snd (ProxyRequest (redirect_proxy ''POST'') (sample_px (Stream ''x''))))
      = [(0, [(out0, elsewhere), (out1, Reply 200 Map.empty ''fine'')], Reply 200 Map.empty ''fine'')]"
    using redirect_run by blast
  have "or_Method out0 = ''POST'' \<and> or_Method out1 = ''GET'' \<and> or_Body out1 = NoBody"
    using retries_bounded [OF sample_px_start(1), of "redirect_proxy ''POST''" "Stream ''x''"] by (simp add: r i(3) sample_px_start(2))
  then show ?thesis
    using retries_bounded [OF sample_px_start(1), of "sample_proxy ''PUT''" NoBody]
      retries_bounded [OF sample_px_start(1), of "redirect_proxy ''POST''" "Stream ''x''"] i(1,2) by (simp add: r)
qed

theorem forwarding_headers_authoritative_witness:
  "\<exists>i out0 resp0 out1 resp1 reply. (i, [(out0, resp0), (out1, resp1)], reply)
        \<in> set (px_log (snd (ProxyRequest (redirect_proxy ''POST'') (sample_px NoBody))))
    \<and> or_Header out0 ''X-Forwarded-For'' = Some [peer sample_request] \<and> or_Header out1 ''X-Forwarded-For'' = Some [peer sample_request]"
proof -
  obtain out0 out1 where r: "px_log (snd (ProxyRequest (redirect_proxy ''POST'') (sample_px NoBody)))
      = [(0, [(out0, elsewhere), (out1, Reply 200 Map.empty ''fine'')], Reply 200 Map.empty ''fine'')]"
    using redirect_run by blast
  then have m: "(0, [(out0, elsewhere), (out1, Reply 200 Map.empty ''fine'')], Reply 200 Map.empty ''fine'')
      \<in> set (px_log (snd (ProxyRequest (redirect_proxy ''POST'') (sample_px NoBody))))" by simp
  have "peer (pe_req (redirect_proxy ''POST'')) = peer sample_request"
    by (simp add: peer_def redirect_proxy_def sample_relay_def split: option.split)
  with forwarding_headers_authoritative [OF sample_px_start(1) m, of "''X-Forwarded-For''"]
  have "or_Header out0 ''X-Forwarded-For'' = Some [peer sample_request] \<and> or_Header out1 ''X-Forwarded-For'' = Some [peer sample_request]"
    by (auto simp: forwarded_header_def credential_headers_def)
  with m show ?thesis by blast
qed

theorem retries_lose_the_body_witness:
  "\<exists>i trips reply. px_log (snd (ProxyRequest (sample_proxy ''PUT'') (sample_px (Stream ''x'')))) ! 1 = (i, trips, reply)
    \<and> or_Body (fst (hd trips)) = ClosedBody"
proof -
  obtain out0 out1 where r: "px_log (snd (ProxyRequest (sample_proxy ''PUT'') (sample_px (Stream ''x''))))
      = [(0, [(out0, Reply 503 Map.empty ''busy'')], Reply 503 Map.empty ''busy''),
         (0, [(out1, Reply 200 Map.empty ''fine'')], Reply 200 Map.empty ''fine'')]"
    using sample_run by blast
  have "or_Body (fst (hd [(out1, Reply 200 Map.empty ''fine'')])) = ClosedBody"
    by (rule retries_lose_the_body [OF sample_px_start(1) _ _ _ sample_px_start(2), of 1 "sample_proxy ''PUT''" "''x''" 0]) (simp_all add: r)
  then show ?thesis by (simp add: r)
qed

text \<open>Without a declared length the client gets both bodies, with one the first only.\<close>

theorem client_gets_first_status_witness:
  "(\<exists>h. rw_sent (px_w (snd (ProxyRequest (sample_proxy ''PUT'') (sample_px NoBody)))) = Some (503, h))
    \<and> rw_body (px_w (snd (ProxyRequest (sample_proxy ''PUT'') (sample_px NoBody)))) = ''busyfine''
    \<and> rw_body (px_w (snd (ProxyRequest (sample_relay ''PUT'' [''Content-Length'' \<mapsto> [''4'']]) (sample_px NoBody)))) = ''busy''"
proof -
  have reps: "replies (px_log (snd (ProxyRequest (sample_relay ''PUT'' h) (sample_px NoBody)))) = [(503, h, ''busy''), (200, Map.empty, ''fine'')]" for h
    using sample_run [of h NoBody] by (auto simp: replies_def)
  have key: "CanonicalHeaderKey ''Content-Length'' = ''Content-Length''" by code_simp
  have lens: "declared_length Map.empty = None" "declared_length [''Content-Length'' \<mapsto> [''4'']] = Some (length ''busy'')" "bodyAllowed 503"
    by (simp_all add: declared_length_def parse_length_def h_Get_def key undec_def bodyAllowed_def)
  have ok: "\<forall>(status, h, body) \<in> set (replies (px_log (snd (ProxyRequest (sample_relay ''PUT'' h) (sample_px NoBody))))). 200 \<le> status \<and> status \<le> 999" for h
    by (simp add: reps)
  show ?thesis
    using client_gets_first_status [OF sample_px_start(1,3) ok, of Map.empty]
      client_gets_first_status [OF sample_px_start(1,3) ok, of "[''Content-Length'' \<mapsto> [''4'']]"]
    by (simp add: reps lens)
qed

text \<open>An open breaker whose reset timeout has passed.\<close>

definition due_cb :: circuit_breaker where
  "due_cb = (new_cb \<lparr>failure_threshold = 1, success_threshold = 1, reset_timeout = 10\<rparr> False)\<lparr>cb_st := StateOpen, cb_opened_at := -10\<rparr>"

lemma due_cb: "cb_st due_cb = StateOpen" "reset_timeout (cb_cfg due_cb) = 10" "cb_opened_at due_cb = -10"
  by (simp_all add: due_cb_def new_cb_def with_defaults_def Let_def)

theorem service_probe_leaks_witness:
  "\<exists>px' cb'. snd (ProxyRequest ((sample_proxy ''GET'')\<lparr>pe_req := (pe_req (sample_proxy ''GET''))\<lparr>rq_Deadline := Some 100\<rparr>\<rparr>)
       ((sample_px NoBody)\<lparr>px_scb := Some due_cb\<rparr>)) = px'
    \<and> px_scb px' = Some cb' \<and> cb_st cb' = StateHalfOpen \<and> (\<forall>s. client_step\<^sup>*\<^sup>* (cb', 0) s \<longrightarrow> (\<forall>t. \<not> fst (cb_allow t (fst s))))"
proof -
  let ?en = "(sample_proxy ''GET'')\<lparr>pe_req := (pe_req (sample_proxy ''GET''))\<lparr>rq_Deadline := Some 100\<rparr>\<rparr>"
  let ?px = "(sample_px NoBody)\<lparr>px_scb := Some due_cb\<rparr>"
  have c: "gwctx_From (pe_req ?en) = Some sample_ctx" "px_scb ?px = Some due_cb" "rq_Deadline (pe_req ?en) = Some 100"
    "reset_timeout (cb_cfg due_cb) \<le> pe_start ?en - cb_opened_at due_cb"
    "100 - at_now (pe_attempts ?en 0) < minRemainingForRetry"
    by (simp_all add: gwctx_From_def sample_relay_def sample_attempt_def due_cb)
  from service_probe_leaks [OF c(1,2) due_cb(1) c(4,3,5)] obtain px' cb' where
    "ProxyRequest ?en ?px = (Ret (Some \<lparr>pr_StatusCode = 504, pr_Message = ''upstream deadline exceeded''\<rparr>), px')"
    "px_scb px' = Some cb'" "cb_st cb' = StateHalfOpen"
    "\<forall>s. client_step\<^sup>*\<^sup>* (cb', 0) s \<longrightarrow> s = (cb', 0) \<and> (\<forall>t. \<not> fst (cb_allow t (fst s)))" by blast
  then show ?thesis by (intro exI [of _ px'] exI [of _ cb']) simp
qed

text \<open>Two healthy instances, \<open>i0\<close> and \<open>i1\<close>; the balancer picks the first.\<close>

definition two_heap :: gw_heap where
  "two_heap = sample_heap\<lparr>h_inst := \<lambda>r. (h_inst sample_heap r)\<lparr>inst_ID := if r = 0 then ''i0'' else ''i1''\<rparr>,
     h_entry := \<lambda>e. (h_entry sample_heap e)\<lparr>se_Instances := [0, 1]\<rparr>\<rparr>"

definition two_proxy :: proxy_env where
  "two_proxy = (sample_proxy ''GET'')\<lparr>pe_attempts := \<lambda>n. (sample_attempt (Reply 200 Map.empty ''fine''))\<lparr>at_heap := two_heap\<rparr>\<rparr>"

lemma healthy_two: "HealthyInstances two_heap 0 = [0, 1]"
  by (simp add: HealthyInstances_def two_heap_def sample_heap_def IsHealthy_def)

lemma two_run:
  "\<exists>res px' out. proxy_attempt two_proxy 0 ((sample_px NoBody)\<lparr>px_icbs := [''i1'' \<mapsto> due_cb]\<rparr>) = (res, px')
    \<and> px_log px' = px_log ((sample_px NoBody)\<lparr>px_icbs := [''i1'' \<mapsto> due_cb]\<rparr>) @ [(0, out, Reply 200 Map.empty ''fine'')]"
proof -
  have plain: "client_Do ops (\<lambda>_ _. Reply 200 Map.empty ''fine'') out = ([(out, Reply 200 Map.empty ''fine'')], Reply 200 Map.empty ''fine'')"
    for ops out by (rule client_Do_plain) (simp add: redirectBehavior_def)
  have ids: "inst_ID (h_inst two_heap 0) = ''i0''" "inst_ID (h_inst two_heap (Suc 0)) = ''i1''"
    "IsHealthy (h_inst two_heap 0)" "IsHealthy (h_inst two_heap (Suc 0))"
    by (simp_all add: two_heap_def sample_heap_def IsHealthy_def)
  show ?thesis
    by (simp add: two_proxy_def proxy_attempt_def sample_relay_def sample_px_def sample_attempt_def healthy_two lb_Next_def
      random_Next_def isSkipped_def ids cb_allow_def due_cb doRequest_def plain Let_def WriteHeader_def rw_map_def new_rw_def
      retryableStatusCodes_def sample_request_def)
qed

theorem instance_probe_leaks_witness:
  "\<exists>res px' cb'. proxy_attempt two_proxy 0 ((sample_px NoBody)\<lparr>px_icbs := [''i1'' \<mapsto> due_cb]\<rparr>) = (res, px')
    \<and> px_icbs px' ''i1'' = Some cb' \<and> (\<forall>t. \<not> fst (cb_allow t cb'))"
proof -
  obtain res px' out where r: "proxy_attempt two_proxy 0 ((sample_px NoBody)\<lparr>px_icbs := [''i1'' \<mapsto> due_cb]\<rparr>) = (res, px')"
    "px_log px' = px_log ((sample_px NoBody)\<lparr>px_icbs := [''i1'' \<mapsto> due_cb]\<rparr>) @ [(0, out, Reply 200 Map.empty ''fine'')]"
    using two_run by blast
  have h: "two_heap = at_heap (pe_attempts two_proxy 0)" "pe_svc two_proxy = 0" "at_now (pe_attempts two_proxy 0) = 0"
    "fair_draws (at_draws (pe_attempts two_proxy 0))"
    by (simp_all add: two_proxy_def sample_relay_def sample_attempt_def fair_draws_def)
  have ids: "inst_ID (h_inst two_heap 0) = ''i0''" "inst_ID (h_inst two_heap 1) = ''i1''"
    by (simp_all add: two_heap_def)
  have "\<exists>cb'. px_icbs px' (inst_ID (h_inst two_heap 1)) = Some cb' \<and> (\<forall>t. cb_allow t cb' = (False, cb'))"
    by (rule instance_probe_leaks [OF r h(1,4) _ _ _ _ _ due_cb(1)]) (simp_all add: h(2,3) healthy_two ids [simplified] due_cb(2,3))
  then show ?thesis using r(1) ids(2) by (metis fst_conv)
qed

subsection \<open>Whom the proxy calls\<close>

text \<open>
  A call whose first request goes to the healthy instance \<open>i\<close> of the service, as attempt \<open>n\<close> sees
  it, and whose every further one goes where the reply before it redirects.
\<close>

definition redirect_followed :: "url_ops \<Rightarrow> trip \<Rightarrow> trip \<Rightarrow> bool" where
  "redirect_followed ops t t' \<longleftrightarrow> (\<exists>status h body. snd t = Reply status h body \<and> status \<in> {301, 302, 303, 307, 308}
     \<and> uo_Parse ops (or_URL (fst t)) (h_Get h ''Location'') = Some (or_URL (fst t')))"

definition calls_healthy :: "proxy_env \<Rightarrow> nat \<Rightarrow> do_call \<Rightarrow> bool" where
  "calls_healthy en n call =
     (let h = at_heap (pe_attempts en n); (i, trips, reply) = call
      in i \<in> set (HealthyInstances h (pe_svc en)) \<and> IsHealthy (h_inst h i)
         \<and> trips \<noteq> [] \<and> or_URL (fst (hd trips)) = ''http://'' @ inst_Address (h_inst h i) @ pe_uri en
         \<and> successively (redirect_followed (pe_urls en)) trips)"

lemma follows_redirect: "follows ops ireq t t' \<Longrightarrow> redirect_followed ops t t'"
  by (auto simp: follows_def redirect_followed_def redirectBehavior_def redirected_def Let_def split: if_splits)

lemma call_follows: "call_of ops out trips \<Longrightarrow> successively (redirect_followed ops) trips"
  by (auto simp: call_of_def intro: successively_mono follows_redirect)

definition fair_attempts :: "proxy_env \<Rightarrow> bool" where
  "fair_attempts en \<longleftrightarrow> (\<forall>n \<le> maxRetries. fair_draws (at_draws (pe_attempts en n))
     \<and> length (HealthyInstances (at_heap (pe_attempts en n)) (pe_svc en)) < 2 ^ 63)"

lemma attempt_target:
  assumes "fair_attempts en" and "n \<le> maxRetries" and "proxy_attempt en n px = (res, px1)"
  shows "px_log px1 = px_log px \<or> (\<exists>entry. px_log px1 = px_log px @ [entry] \<and> calls_healthy en n entry)"
proof -
  let ?att = "pe_attempts en n"
  let ?h = "at_heap ?att"
  obtain nx lb icbs where nx: "lb_Next (\<lambda>i. inst_ID (h_inst ?h i)) (\<lambda>i. IsHealthy (h_inst ?h i)) (Some (isSkipped ?h (at_now ?att)))
      (HealthyInstances ?h (pe_svc en)) (at_draws ?att) (px_lb px) (px_icbs px) = (nx, lb, icbs)"
    by (metis prod_cases3)
  show ?thesis
  proof (cases "px_log px1 = px_log px")
    case False
    then obtain i cb where r: "nx = Inr (i, cb)"
      using assms(3) nx by (cases nx) (auto simp: proxy_attempt_def Let_def split: if_splits)
    have healthy: "IsHealthy (h_inst ?h i)" "i \<in> set (HealthyInstances ?h (pe_svc en))"
      using lbs.next_picks [OF _ _ nx [unfolded r]] assms(1,2) by (auto simp: fair_attempts_def)
    let ?up = "''http://'' @ inst_Address (h_inst ?h i)"
    let ?px2 = "upd_gw (\<lambda>g. g\<lparr>gw_SelectedInstance := inst_Address (h_inst ?h i), gw_ServiceName := se_Name (h_entry ?h (pe_svc en))\<rparr>)
        (px\<lparr>px_lb := lb, px_icbs := icbs\<rparr>)"
    obtain m px3 where dr: "doRequest en ?att i ?up (se_Name (h_entry ?h (pe_svc en))) ?px2 = (m, px3)" by fastforce
    have "px_log px1 = px_log px3"
      using assms(3) nx r dr False by (auto simp: proxy_attempt_def Let_def split: go.splits if_splits prod.splits)
    then obtain trips reply where one: "px_log px1 = px_log px @ [(i, trips, reply)]"
      and call: "call_of (pe_urls en) (out_request_for en ?up (px_body ?px2)) trips"
      using doRequest_log [OF dr] False by auto
    have "calls_healthy en n (i, trips, reply)"
      using healthy call call_follows [OF call] by (simp add: calls_healthy_def call_of_def out_request_for_def)
    then show ?thesis using one by blast
  qed simp
qed

lemma loop_targets:
  "fair_attempts en \<Longrightarrow> \<forall>n \<in> set ns. n \<le> maxRetries \<Longrightarrow> proxy_loop en ns px = (res, px') \<Longrightarrow>
    entry \<in> set (px_log px') \<Longrightarrow> entry \<in> set (px_log px) \<or> (\<exists>n \<le> maxRetries. calls_healthy en n entry)"
proof (induction ns arbitrary: px)
  case (Cons n ns)
  obtain r px1 where a: "proxy_attempt en n px = (r, px1)" by fastforce
  have "entry \<in> set (px_log px1) \<or> (\<exists>n \<le> maxRetries. calls_healthy en n entry)"
    using Cons a by (cases r) auto
  then show ?case using attempt_target [OF Cons.prems(1) _ a] Cons.prems(2) by auto
qed simp

text \<open>
  C32: Every call of the proxy starts at an instance that the registry lists for the service and
  that is healthy when the attempt looks, at its own address and with the client's request URI:
  through every balancer and every retry. Any further request of a call goes where the reply
  before it redirects, which may be any host: the client follows redirects.
\<close>

theorem proxy_calls_healthy:
  assumes "fair_attempts en" and "px_log px = []" and "entry \<in> set (px_log (snd (ProxyRequest en px)))"
  shows "\<exists>n \<le> maxRetries. calls_healthy en n entry"
proof -
  have run: "\<exists>n \<le> maxRetries. calls_healthy en n entry"
    if "entry \<in> set (px_log (snd (proxy_loop en [0..<3] px2)))" "px_log px2 = []" for px2
    using loop_targets [OF assms(1) _ prod.collapse [symmetric] that(1)] that(2) by auto
  show ?thesis
    using assms(2,3) by (auto simp: ProxyRequest_def Let_def split: go.splits option.splits prod.splits if_splits dest!: run)
qed

theorem proxy_calls_healthy_witness:
  "\<exists>out0 out1 reply. (0, [(out0, elsewhere), (out1, reply)], reply) \<in> set (px_log (snd (ProxyRequest (redirect_proxy ''POST'') (sample_px NoBody))))
    \<and> or_URL out0 = ''http://'' @ inst_Address (h_inst sample_heap 0) @ ''/'' \<and> or_URL out1 = ''http://other/''"
proof -
  obtain out0 out1 where r: "px_log (snd (ProxyRequest (redirect_proxy ''POST'') (sample_px NoBody)))
      = [(0, [(out0, elsewhere), (out1, Reply 200 Map.empty ''fine'')], Reply 200 Map.empty ''fine'')]"
    using redirect_run by blast
  then have m: "(0, [(out0, elsewhere), (out1, Reply 200 Map.empty ''fine'')], Reply 200 Map.empty ''fine'')
      \<in> set (px_log (snd (ProxyRequest (redirect_proxy ''POST'') (sample_px NoBody))))" by simp
  have "fair_attempts (redirect_proxy ''POST'')"
    by (simp add: fair_attempts_def fair_draws_def redirect_proxy_def sample_relay_def sample_attempt_def healthy_sample)
  from proxy_calls_healthy [OF this sample_px_start(1) m]
  have "or_URL out0 = ''http://'' @ inst_Address (h_inst sample_heap 0) @ ''/''" "redirect_followed sample_urls (out0, elsewhere) (out1, Reply 200 Map.empty ''fine'')"
    by (auto simp: calls_healthy_def redirect_proxy_def sample_relay_def sample_attempt_def)
  moreover have "h_Get [''Location'' \<mapsto> [''http://other/'']] ''Location'' = ''http://other/''" by code_simp
  ultimately show ?thesis using m by (auto simp: redirect_followed_def elsewhere_def sample_urls_def)
qed

end
