(* ===== verification/Middleware.thy ===== *)
theory Middleware
  imports Builtin_Plugins Forwarding
begin

section \<open>The middlewares (\<open>internal/middleware\<close>)\<close>

text \<open>
  Context injection, recovery and the deadline. A handler is a function on what it is given
  (the exchange, later with the body) that may panic.
\<close>

type_synonym 'x http_handler = "'x \<Rightarrow> unit go \<times> 'x"

subsection \<open>The middlewares\<close>

text \<open>
  \<open>ParseIP\<close> is \<open>net.ParseIP\<close>; a range is \<open>IPNet.Contains\<close> on addresses that parsed, and no
  range contains a nil address. The two \<open>uuid.New\<close> values and the time are arguments.
\<close>

record inject_env =
  ij_ParseIP :: "string \<Rightarrow> string option"
  ij_ranges :: "(string \<Rightarrow> bool) list"
  ij_requestUUID :: string
  ij_traceUUID :: string
  ij_now :: gotime

definition isTrusted :: "string option \<Rightarrow> (string \<Rightarrow> bool) list \<Rightarrow> bool" where
  "isTrusted ip ranges = (case ip of None \<Rightarrow> False | Some a \<Rightarrow> list_ex (\<lambda>cidr. cidr a) ranges)"

text \<open>The scan of \<open>splitTraceparent\<close>, with its indices.\<close>

function split_loop :: "string \<Rightarrow> nat \<Rightarrow> nat \<Rightarrow> string list \<Rightarrow> string list" where
  "split_loop s start i parts =
     (if i < length s
      then (if s ! i = CHR ''-'' then split_loop s (i + 1) (i + 1) (parts @ [drop start (take i s)])
            else split_loop s start (i + 1) parts)
      else parts @ [drop start s])"
  by pat_completeness auto
termination by (relation "measure (\<lambda>(s, start, i, parts). length s - i)") auto

definition splitTraceparent :: "string \<Rightarrow> string list" where
  "splitTraceparent s = split_loop s 0 0 []"

definition extractTraceID :: "string \<Rightarrow> string" where
  "extractTraceID traceparent =
     (if traceparent = [] then []
      else let parts = splitTraceparent traceparent
           in if length parts \<noteq> 4 \<or> parts ! 1 = [] then [] else parts ! 1)"

definition inject_ctx :: "inject_env \<Rightarrow> request \<Rightarrow> GatewayContext" where
  "inject_ctx en r =
     (let clientIP = (case SplitHostPort (rq_RemoteAddr r) of Some (host, port) \<Rightarrow> host | None \<Rightarrow> rq_RemoteAddr r);
          ip = ij_ParseIP en clientIP;
          given = h_Get (rq_Header r) ''X-Request-ID'';
          requestID = (if given = [] \<or> \<not> isTrusted ip (ij_ranges en) then ij_requestUUID en else given);
          trace = extractTraceID (h_Get (rq_Header r) ''Traceparent'');
          traceID = (if trace = [] then ij_traceUUID en else trace)
      in \<lparr>gw_RequestID = requestID, gw_TraceID = traceID, gw_ClientIP = ip, gw_StartTime = ij_now en, gw_RouteID = [],
          gw_AuthClaims = None, gw_UserID = [], gw_CircuitState = CircuitClosed, gw_SelectedInstance = [],
          gw_ServiceName = [], gw_RetryCount = 0, gw_FailureReason = []\<rparr>)"

definition InjectContext :: "inject_env \<Rightarrow> 'z exchange_scheme http_handler \<Rightarrow> 'z exchange_scheme http_handler" where
  "InjectContext en next_handler x =
     (let g = inject_ctx en (ex_r x)
      in next_handler (x\<lparr>ex_w := rw_map (h_Set ''X-Request-ID'' (gw_RequestID g)) (ex_w x), ex_r := NewContext g (ex_r x)\<rparr>))"

definition Recovery :: "'z exchange_scheme http_handler \<Rightarrow> 'z exchange_scheme http_handler" where
  "Recovery next_handler x =
     (case next_handler x of
        (Ret u, x1) \<Rightarrow> (Ret u, x1)
      | (Panic, x1) \<Rightarrow>
          (case http_Error (''{'' @ go_quote ''error'' @ '':'' @ go_quote ''internal server error'' @ ''}'') 500 (ex_w x1) of
             Ret w \<Rightarrow> (Ret (), x1\<lparr>ex_w := w\<rparr>)
           | Panic \<Rightarrow> (Panic, x1)))"

text \<open>\<open>context.WithTimeout\<close> keeps an earlier deadline.\<close>

definition WithTimeout :: "gotime option \<Rightarrow> gotime \<Rightarrow> duration \<Rightarrow> gotime" where
  "WithTimeout parent now timeout = (case parent of Some d \<Rightarrow> min d (now + timeout) | None \<Rightarrow> now + timeout)"

definition Timeout :: "gotime \<Rightarrow> duration \<Rightarrow> 'z exchange_scheme http_handler \<Rightarrow> 'z exchange_scheme http_handler" where
  "Timeout now globalTimeout next_handler x =
     (let timeout = (if globalTimeout = 0 then 30 * second else globalTimeout);
          deadline = WithTimeout (rq_Deadline (ex_r x)) now timeout
      in next_handler (x\<lparr>ex_r := (ex_r x)\<lparr>rq_Deadline := Some deadline\<rparr>\<rparr>))"

declare split_loop.simps [simp del]

subsection \<open>Splitting a traceparent\<close>

abbreviation dash_free :: "string \<Rightarrow> bool" where
  "dash_free s \<equiv> CHR ''-'' \<notin> set s"

text \<open>The same split by structural recursion; \<open>acc\<close> is the part being read.\<close>

fun split_dash :: "string \<Rightarrow> string \<Rightarrow> string list" where
  "split_dash acc [] = [acc]"
| "split_dash acc (c # cs) = (if c = CHR ''-'' then acc # split_dash [] cs else split_dash (acc @ [c]) cs)"

lemma split_loop_eq:
  "start \<le> i \<Longrightarrow> i \<le> length s \<Longrightarrow>
    split_loop s start i parts = parts @ split_dash (drop start (take i s)) (drop i s)"
proof (induction s start i parts rule: split_loop.induct)
  case (1 s start i parts)
  show ?case
  proof (cases "i < length s")
    case True
    have tk: "drop start (take (Suc i) s) = drop start (take i s) @ [s ! i]"
      using True "1.prems" by (simp add: take_Suc_conv_app_nth)
    have dr: "drop i s = s ! i # drop (Suc i) s" using True by (simp add: Cons_nth_drop_Suc)
    show ?thesis
    proof (cases "s ! i = CHR ''-''")
      case dash: True
      have "split_loop s (i + 1) (i + 1) (parts @ [drop start (take i s)])
          = (parts @ [drop start (take i s)]) @ split_dash (drop (i + 1) (take (i + 1) s)) (drop (i + 1) s)"
        using "1.IH"(1) [OF True dash] True by simp
      then show ?thesis using True dash dr by (simp add: split_loop.simps [of s start i])
    next
      case False
      have "split_loop s start (i + 1) parts = parts @ split_dash (drop start (take (i + 1) s)) (drop (i + 1) s)"
        using "1.IH"(2) [OF True False] True "1.prems" by simp
      then show ?thesis using True False dr tk by (simp add: split_loop.simps [of s start i])
    qed
  next
    case False
    then show ?thesis using "1.prems" by (subst split_loop.simps) simp
  qed
qed

lemma splitTraceparent_eq: "splitTraceparent s = split_dash [] s"
  using split_loop_eq [of 0 0 s "[]"] by (simp add: splitTraceparent_def)

lemma split_dash_nonempty [simp]: "split_dash acc s \<noteq> []"
  by (induction acc s rule: split_dash.induct) simp_all

lemma Join_Cons: "ps \<noteq> [] \<Longrightarrow> strings_Join sep (p # ps) = p @ sep @ strings_Join sep ps"
  by (cases ps) simp_all

lemma split_dash_join: "strings_Join ''-'' (split_dash acc s) = acc @ s"
  by (induction acc s rule: split_dash.induct) (simp_all add: Join_Cons)

lemma split_dash_free: "dash_free acc \<Longrightarrow> \<forall>p \<in> set (split_dash acc s). dash_free p"
  by (induction acc s rule: split_dash.induct) auto

lemma split_dash_part: "dash_free p \<Longrightarrow> split_dash acc (p @ rest) = split_dash (acc @ p) rest"
  by (induction p arbitrary: acc) auto

lemma split_dash_of_join:
  "ps \<noteq> [] \<Longrightarrow> \<forall>p \<in> set ps. dash_free p \<Longrightarrow> split_dash [] (strings_Join ''-'' ps) = ps"
proof (induction "''-''" ps rule: strings_Join.induct)
  case (2 s)
  then show ?case using split_dash_part [of s "[]" "[]"] by simp
next
  case (3 s v va)
  then show ?case using split_dash_part [of s "[]" "''-'' @ strings_Join ''-'' (v # va)"] by simp
qed simp

text \<open>
  The hand-written scan of \<open>traceparent\<close> splits at the dashes and nowhere else: joining
  the parts gives the header back, no part contains a dash, and a header made by joining
  dash-free parts is split into exactly those.
\<close>

theorem traceparent_split_join:
  "strings_Join ''-'' (splitTraceparent s) = s \<and> (\<forall>p \<in> set (splitTraceparent s). dash_free p)
    \<and> (ps \<noteq> [] \<and> (\<forall>p \<in> set ps. dash_free p) \<longrightarrow> splitTraceparent (strings_Join ''-'' ps) = ps)"
  using split_dash_join [of "[]" s] split_dash_free [of "[]" s] split_dash_of_join [of ps]
  by (simp add: splitTraceparent_eq)

theorem traceparent_split_join_witness:
  "splitTraceparent (strings_Join ''-'' [''00'', ''4bf9'', ''00f0'', ''01'']) = [''00'', ''4bf9'', ''00f0'', ''01'']"
  using traceparent_split_join [of "[]" "[''00'', ''4bf9'', ''00f0'', ''01'']"] by simp

text \<open>
  \<open>extractTraceID\<close> returns a trace ID exactly when the header has four dash-separated
  parts and the second is not empty; it is that part. Nothing else is checked: neither the
  version, nor the length, nor that the parts are hexadecimal.
\<close>

theorem trace_id_is_second_of_four:
  assumes "t \<noteq> []"
  shows "extractTraceID s = t \<longleftrightarrow>
    (\<exists>a b c. s = a @ ''-'' @ t @ ''-'' @ b @ ''-'' @ c \<and> dash_free a \<and> dash_free t \<and> dash_free b \<and> dash_free c)" (is "?L \<longleftrightarrow> ?R")
proof
  assume L: ?L
  then have "length (split_dash [] s) = 4" "split_dash [] s ! 1 = t"
    using assms by (auto simp: extractTraceID_def splitTraceparent_eq Let_def split: if_splits)
  then obtain a b c where p: "split_dash [] s = [a, t, b, c]"
    by (auto simp: eval_nat_numeral length_Suc_conv)
  have "s = a @ ''-'' @ t @ ''-'' @ b @ ''-'' @ c" using split_dash_join [of "[]" s] by (simp add: p)
  moreover have "\<forall>p \<in> set [a, t, b, c]. dash_free p" using split_dash_free [of "[]" s] unfolding p by simp
  ultimately show ?R by (intro exI [of _ a] exI [of _ b] exI [of _ c]) simp
next
  assume ?R
  then obtain a b c where "s = strings_Join ''-'' [a, t, b, c]" "\<forall>p \<in> set [a, t, b, c]. dash_free p" by auto
  then have "split_dash [] s = [a, t, b, c]" using split_dash_of_join [of "[a, t, b, c]"] by simp
  moreover have "s \<noteq> []" using \<open>s = _\<close> assms by simp
  ultimately show ?L using assms by (simp add: extractTraceID_def splitTraceparent_eq Let_def)
qed

theorem trace_id_is_second_of_four_witness:
  "extractTraceID ''x-trace-y-z'' = ''trace''"
proof -
  have "\<exists>a b c. ''x-trace-y-z'' = a @ ''-'' @ ''trace'' @ ''-'' @ b @ ''-'' @ c \<and> dash_free a \<and> dash_free ''trace'' \<and> dash_free b \<and> dash_free c"
    by (intro exI [of _ "''x''"] exI [of _ "''y''"] exI [of _ "''z''"]) simp
  then show ?thesis using trace_id_is_second_of_four [of "''trace''" "''x-trace-y-z''"] by simp
qed

subsection \<open>The request ID\<close>

text \<open>
  The request ID, in the context and in the response header, is the client's only if the
  connection comes from a trusted range; otherwise it is the fresh UUID. The trace ID, in
  contrast, is taken from any client's \<open>traceparent\<close>.
\<close>

theorem request_id_trust:
  "gw_RequestID (inject_ctx en r) = (if isTrusted (ij_ParseIP en (peer r)) (ij_ranges en) \<and> h_Get (rq_Header r) ''X-Request-ID'' \<noteq> []
      then h_Get (rq_Header r) ''X-Request-ID'' else ij_requestUUID en)
   \<and> gw_TraceID (inject_ctx en r) = (if extractTraceID (h_Get (rq_Header r) ''Traceparent'') = [] then ij_traceUUID en
      else extractTraceID (h_Get (rq_Header r) ''Traceparent''))
   \<and> (\<exists>w. InjectContext en h \<lparr>ex_w = w0, ex_r = r\<rparr> = h \<lparr>ex_w = w, ex_r = NewContext (inject_ctx en r) r\<rparr>
        \<and> h_Get (rw_header w) ''X-Request-ID'' = gw_RequestID (inject_ctx en r))"
proof -
  let ?w = "rw_map (h_Set ''X-Request-ID'' (gw_RequestID (inject_ctx en r))) w0"
  have "InjectContext en h \<lparr>ex_w = w0, ex_r = r\<rparr> = h \<lparr>ex_w = ?w, ex_r = NewContext (inject_ctx en r) r\<rparr>
      \<and> h_Get (rw_header ?w) ''X-Request-ID'' = gw_RequestID (inject_ctx en r)"
    by (simp add: InjectContext_def Let_def rw_map_def)
  moreover have "gw_RequestID (inject_ctx en r) = (if isTrusted (ij_ParseIP en (peer r)) (ij_ranges en) \<and> h_Get (rq_Header r) ''X-Request-ID'' \<noteq> []
      then h_Get (rq_Header r) ''X-Request-ID'' else ij_requestUUID en)"
    "gw_TraceID (inject_ctx en r) = (if extractTraceID (h_Get (rq_Header r) ''Traceparent'') = [] then ij_traceUUID en
      else extractTraceID (h_Get (rq_Header r) ''Traceparent''))"
    by (simp_all add: inject_ctx_def Let_def peer_def)
  ultimately show ?thesis by blast
qed

subsection \<open>Recovery\<close>

lemma http_Error_ok: "100 \<le> code \<Longrightarrow> code \<le> 999 \<Longrightarrow> \<exists>w'. http_Error msg code w = Ret w'"
  by (auto simp: http_Error_def WriteHeader_def)

text \<open>
  \<open>Recovery\<close> never panics. A request whose handler panicked before it sent anything is
  answered 500; one that had already sent its header keeps the status it sent, with the
  error text appended to its body.
\<close>

theorem recovery_answers:
  "fst (Recovery h x) = Ret ()
   \<and> (fst (h x) = Panic \<longrightarrow>
       fst (response (ex_w (snd (Recovery h x)))) = (case rw_sent (ex_w (snd (h x))) of None \<Rightarrow> 500 | Some (code, hdr) \<Rightarrow> code))"
proof (cases "h x")
  case (Pair out y)
  show ?thesis
  proof (cases out)
    case (Ret u)
    then show ?thesis using Pair by (simp add: Recovery_def)
  next
    case Panic
    then show ?thesis using Pair
      by (cases "rw_sent (ex_w y)") (auto simp: Recovery_def http_Error_def WriteHeader_def rw_map_def rw_Write_def response_def Let_def)
  qed
qed

theorem recovery_answers_witness:
  "fst (response (ex_w (snd (Recovery (\<lambda>x. (Panic, x)) \<lparr>ex_w = new_rw, ex_r = sample_request\<rparr>)))) = 500"
  using recovery_answers [of "\<lambda>x. (Panic, x)" "\<lparr>ex_w = new_rw, ex_r = sample_request\<rparr>"] by (simp add: new_rw_def)

end
