(* ===== verification/Http_Server.thy ===== *)
theory Http_Server
  imports Middleware
begin

section \<open>The HTTP server (\<open>internal/server/server.go\<close>)\<close>

text \<open>
  The load shedder as a step relation on the requests inside the handler, and the server that
  wraps it.
\<close>

subsection \<open>The load shedder\<close>

text \<open>
  The semaphore is the number of elements in the channel. The requests inside the wrapped
  handler are numbered; a request that ends, by return or by panic, gives its slot back.
\<close>

record shedder =
  sh_cap :: nat
  sh_sem :: nat
  sh_active :: "nat set"
  sh_shed :: "nat list"

definition shed_capacity :: "int \<Rightarrow> nat" where
  "shed_capacity maxConcurrent = (if maxConcurrent \<le> 0 then 1000 else nat maxConcurrent)"

definition new_shedder :: "int \<Rightarrow> shedder" where
  "new_shedder maxConcurrent = \<lparr>sh_cap = shed_capacity maxConcurrent, sh_sem = 0, sh_active = {}, sh_shed = []\<rparr>"

text \<open>The \<open>select\<close>: the send succeeds exactly when the buffer has room.\<close>

definition shed_arrive :: "nat \<Rightarrow> shedder \<Rightarrow> shedder" where
  "shed_arrive k s =
     (if sh_sem s < sh_cap s then s\<lparr>sh_sem := Suc (sh_sem s), sh_active := insert k (sh_active s)\<rparr>
      else s\<lparr>sh_shed := sh_shed s @ [k]\<rparr>)"

definition shed_leave :: "nat \<Rightarrow> shedder \<Rightarrow> shedder" where
  "shed_leave k s = s\<lparr>sh_sem := sh_sem s - 1, sh_active := sh_active s - {k}\<rparr>"

text \<open>The 503 of a request that found no slot.\<close>

definition shed_reply :: "response_writer \<Rightarrow> response_writer go" where
  "shed_reply w = http_Error (json_error 503 ''server overloaded'') 503 (rw_map (h_Set ''Retry-After'' ''1'') w)"

text \<open>
  The wrapped handler for a request that no other one interleaves with. The deferred receive
  gives the slot back on a panic too.
\<close>

definition loadShed :: "nat \<Rightarrow> 'z exchange_scheme http_handler \<Rightarrow> (shedder \<times> 'z exchange_scheme) http_handler" where
  "loadShed k next_handler st =
     (let (s, x) = st; s1 = shed_arrive k s
      in if k \<in> sh_active s1
         then let (out, x1) = next_handler x in (out, shed_leave k s1, x1)
         else case shed_reply (ex_w x) of
                Ret w \<Rightarrow> (Ret (), s1, x\<lparr>ex_w := w\<rparr>)
              | Panic \<Rightarrow> (Panic, s1, x))"

inductive shed_step :: "shedder \<Rightarrow> shedder \<Rightarrow> bool" where
  arrives: "k \<notin> sh_active s \<Longrightarrow> shed_step s (shed_arrive k s)"
| leaves: "k \<in> sh_active s \<Longrightarrow> shed_step s (shed_leave k s)"

inductive_cases shed_stepE: "shed_step s s'"

record server_config =
  svr_Port :: int
  svr_ReadHeader :: duration
  svr_Read :: duration
  svr_Write :: duration
  svr_Idle :: duration
  svr_MaxConcurrent :: int

record http_server =
  hs_Addr :: string
  hs_ReadHeaderTimeout :: duration
  hs_ReadTimeout :: duration
  hs_WriteTimeout :: duration
  hs_IdleTimeout :: duration
  hs_shedder :: shedder

definition server_New :: "server_config \<Rightarrow> http_server" where
  "server_New cfg = \<lparr>hs_Addr = '':'' @ itoa (svr_Port cfg), hs_ReadHeaderTimeout = svr_ReadHeader cfg, hs_ReadTimeout = svr_Read cfg,
     hs_WriteTimeout = svr_Write cfg, hs_IdleTimeout = svr_Idle cfg, hs_shedder = new_shedder (svr_MaxConcurrent cfg)\<rparr>"

subsection \<open>Listening and shutting down\<close>

text \<open>
  The server over its life, with the connections \<open>net/http\<close> tracks: a connection is new until
  its first request has been read, active while it serves a request, and idle between requests.
  A request has the number of its connection. \<open>Shutdown\<close> closes the listeners and then polls:
  a poll closes the idle connections, and those that are new for more than five seconds (in
  whole Unix seconds), and \<open>Shutdown\<close> returns when none is left, or with the context's error
  when its deadline has passed. \<open>sv_result\<close> is what it returned.
\<close>

datatype server_phase = Created | Listening | Draining gotime

datatype shutdown_result = ShutdownOk | ShutdownExpired

datatype conn_state = StateNew gotime | StateIdle | StateActive

record Server =
  sv_http :: http_server
  sv_phase :: server_phase
  sv_conns :: "(nat \<times> conn_state) list"
  sv_result :: "shutdown_result option"

definition new_Server :: "server_config \<Rightarrow> Server" where
  "new_Server cfg = \<lparr>sv_http = server_New cfg, sv_phase = Created, sv_conns = [], sv_result = None\<rparr>"

text \<open>\<open>bound\<close>: whether the address could be bound. The call returns at once with an error, or serves.\<close>

datatype listen_result = Serving | BindFailed | ErrServerClosed

definition ListenAndServe :: "bool \<Rightarrow> Server \<Rightarrow> listen_result \<times> Server" where
  "ListenAndServe bound s =
     (case sv_phase s of
        Draining d \<Rightarrow> (ErrServerClosed, s)
      | _ \<Rightarrow> if bound then (Serving, s\<lparr>sv_phase := Listening\<rparr>) else (BindFailed, s))"

definition Shutdown :: "gotime option \<Rightarrow> gotime \<Rightarrow> Server \<Rightarrow> Server" where
  "Shutdown ctx now s = s\<lparr>sv_phase := Draining (WithTimeout ctx now (30 * second))\<rparr>"

fun closable :: "gotime \<Rightarrow> conn_state \<Rightarrow> bool" where
  "closable t (StateNew since) \<longleftrightarrow> since div second < t div second - 5"
| "closable t StateIdle \<longleftrightarrow> True"
| "closable t StateActive \<longleftrightarrow> False"

definition shutdown_poll :: "gotime \<Rightarrow> Server \<Rightarrow> Server" where
  "shutdown_poll t s =
     (case (sv_phase s, sv_result s) of
        (Draining deadline, None) \<Rightarrow>
          let s1 = s\<lparr>sv_conns := filter (\<lambda>(k, st). \<not> closable t st) (sv_conns s)\<rparr>
          in if sv_conns s1 = [] then s1\<lparr>sv_result := Some ShutdownOk\<rparr>
             else if deadline \<le> t then s1\<lparr>sv_result := Some ShutdownExpired\<rparr>
             else s1
      | _ \<Rightarrow> s)"

text \<open>
  Connections are accepted only while the server listens; a request may arrive on any that is
  new or idle, also after \<open>Shutdown\<close>. When its handler returns, the connection is kept for the
  next request (\<open>keep\<close>) or closed, and always closed once \<open>Shutdown\<close> was called.
\<close>

datatype server_event = Accept nat gotime | Request nat | Finish nat bool | Disconnect nat | Poll gotime

definition on_shedder :: "(shedder \<Rightarrow> shedder) \<Rightarrow> Server \<Rightarrow> Server" where
  "on_shedder f s = s\<lparr>sv_http := (sv_http s)\<lparr>hs_shedder := f (hs_shedder (sv_http s))\<rparr>\<rparr>"

abbreviation inside :: "Server \<Rightarrow> nat set" where
  "inside s \<equiv> sh_active (hs_shedder (sv_http s))"

definition set_conn :: "nat \<Rightarrow> conn_state \<Rightarrow> Server \<Rightarrow> Server" where
  "set_conn k st s = s\<lparr>sv_conns := map (\<lambda>(j, old). (j, if j = k then st else old)) (sv_conns s)\<rparr>"

definition drop_conn :: "nat \<Rightarrow> Server \<Rightarrow> Server" where
  "drop_conn k s = s\<lparr>sv_conns := filter (\<lambda>c. fst c \<noteq> k) (sv_conns s)\<rparr>"

fun server_step :: "server_event \<Rightarrow> Server \<Rightarrow> Server" where
  "server_step (Accept k t) s =
     (if sv_phase s = Listening \<and> k \<notin> fst ` set (sv_conns s) then s\<lparr>sv_conns := sv_conns s @ [(k, StateNew t)]\<rparr> else s)"
| "server_step (Request k) s =
     (if k \<in> fst ` set (sv_conns s) \<and> (k, StateActive) \<notin> set (sv_conns s)
      then on_shedder (shed_arrive k) (set_conn k StateActive s) else s)"
| "server_step (Finish k keep) s =
     (if (k, StateActive) \<in> set (sv_conns s)
      then let s1 = (if k \<in> inside s then on_shedder (shed_leave k) s else s)
           in if keep \<and> sv_phase s = Listening then set_conn k StateIdle s1 else drop_conn k s1
      else s)"
| "server_step (Disconnect k) s =
     (if (k, StateActive) \<in> set (sv_conns s) then s else drop_conn k s)"
| "server_step (Poll t) s = shutdown_poll t s"

subsection \<open>Load shedding\<close>

definition shed_inv :: "shedder \<Rightarrow> bool" where
  "shed_inv s \<longleftrightarrow> finite (sh_active s) \<and> sh_sem s = card (sh_active s) \<and> sh_sem s \<le> sh_cap s"

lemma shed_inv_step [gw_inv]:
  assumes "shed_step s s'" and "shed_inv s"
  shows "shed_inv s' \<and> sh_cap s' = sh_cap s"
  using assms by (elim shed_stepE) (auto simp: shed_inv_def shed_arrive_def shed_leave_def card_Diff_singleton)

lemma shed_inv_reach: "shed_step\<^sup>*\<^sup>* s s' \<Longrightarrow> shed_inv s \<Longrightarrow> shed_inv s' \<and> sh_cap s' = sh_cap s"
  by (induction rule: rtranclp_induct) (use shed_inv_step in fastforce)+

text \<open>
  C12: Whatever the order of arrivals and departures, the semaphore counts exactly the requests
  inside the handler, which are never more than the capacity (\<open>MaxConcurrent\<close>, or 1000 if it
  is not positive), and a new request is shed exactly when that many are inside: no slot is
  lost and none is granted twice.
\<close>

theorem load_shed_exact:
  assumes "shed_step\<^sup>*\<^sup>* (new_shedder maxConcurrent) s" and "k \<notin> sh_active s"
  shows "sh_sem s = card (sh_active s) \<and> card (sh_active s) \<le> shed_capacity maxConcurrent
    \<and> (k \<in> sh_active (shed_arrive k s) \<longleftrightarrow> card (sh_active s) < shed_capacity maxConcurrent)"
proof -
  have "shed_inv (new_shedder maxConcurrent)" by (simp add: shed_inv_def new_shedder_def)
  from shed_inv_reach [OF assms(1) this] have "shed_inv s" "sh_cap s = shed_capacity maxConcurrent"
    by (simp_all add: new_shedder_def)
  then show ?thesis using assms(2) by (auto simp: shed_inv_def shed_arrive_def)
qed

theorem load_shed_exact_witness:
  "shed_step\<^sup>*\<^sup>* (new_shedder 1) (shed_arrive 7 (new_shedder 1)) \<and> 7 \<in> sh_active (shed_arrive 7 (new_shedder 1))
    \<and> 8 \<notin> sh_active (shed_arrive 8 (shed_arrive 7 (new_shedder 1)))"
proof -
  have s: "shed_step (new_shedder 1) (shed_arrive 7 (new_shedder 1))"
    by (rule arrives) (simp add: new_shedder_def)
  then have r: "shed_step\<^sup>*\<^sup>* (new_shedder 1) (shed_arrive 7 (new_shedder 1))" by (rule r_into_rtranclp)
  have a: "sh_active (shed_arrive 7 (new_shedder 1)) = {7}" by (simp add: shed_arrive_def new_shedder_def shed_capacity_def)
  from load_shed_exact [OF r, of 8] r a show ?thesis
    by (auto simp: shed_capacity_def)
qed

text \<open>
  A request that nothing interleaves with leaves the semaphore as it was, also when its
  handler panics; with all slots taken it is answered 503 with \<open>Retry-After\<close> and the handler
  does not run.
\<close>

theorem shed_answer:
  assumes "shed_inv s" and "k \<notin> sh_active s"
  shows "if sh_sem s < sh_cap s then loadShed k h (s, x) = (fst (h x), s, snd (h x))
    else rw_sent (ex_w x) = None \<longrightarrow> (\<exists>w. loadShed k h (s, x) = (Ret (), s\<lparr>sh_shed := sh_shed s @ [k]\<rparr>, x\<lparr>ex_w := w\<rparr>)
       \<and> fst (response w) = 503 \<and> h_Get (fst (snd (response w))) ''Retry-After'' = ''1'')"
proof (cases "sh_sem s < sh_cap s")
  case True
  have "shed_leave k (shed_arrive k s) = s" using True assms(2) by (simp add: shed_arrive_def shed_leave_def)
  then show ?thesis using True by (simp add: loadShed_def shed_arrive_def split_beta)
next
  case False
  have "shed_arrive k s = s\<lparr>sh_shed := sh_shed s @ [k]\<rparr>" using False by (simp add: shed_arrive_def)
  moreover have "CanonicalHeaderKey ''Retry-After'' \<noteq> CanonicalHeaderKey ''Content-Type''"
    "CanonicalHeaderKey ''Retry-After'' \<noteq> CanonicalHeaderKey ''X-Content-Type-Options''"
    "CanonicalHeaderKey ''Retry-After'' \<noteq> CanonicalHeaderKey ''Content-Length''" by code_simp+
  ultimately show ?thesis using False assms(2)
    by (auto simp: loadShed_def shed_reply_def http_Error_def WriteHeader_def rw_map_def rw_Write_def response_def
        bodyAllowed_def h_Get_Set_other h_Get_def h_Set_def h_Del_def Let_def)
qed

subsection \<open>Shutting down\<close>

text \<open>Every request inside the handler is that of an active connection, and connections have one state.\<close>

definition srv_ok :: "Server \<Rightarrow> bool" where
  "srv_ok s \<longleftrightarrow> (\<forall>k \<in> inside s. (k, StateActive) \<in> set (sv_conns s)) \<and> distinct (map fst (sv_conns s))"

lemma one_state: "distinct (map fst xs) \<Longrightarrow> (k, a) \<in> set xs \<Longrightarrow> (k, b) \<in> set xs \<Longrightarrow> a = b"
  by (metis map_of_is_SomeI option.inject)

lemma server_frame [simp]:
  "sv_conns (on_shedder f s) = sv_conns s" "sv_phase (on_shedder f s) = sv_phase s" "sv_result (on_shedder f s) = sv_result s"
  "inside (on_shedder f s) = sh_active (f (hs_shedder (sv_http s)))"
  "inside (set_conn k st s) = inside s" "sv_phase (set_conn k st s) = sv_phase s" "sv_result (set_conn k st s) = sv_result s"
  "inside (drop_conn k s) = inside s" "sv_phase (drop_conn k s) = sv_phase s" "sv_result (drop_conn k s) = sv_result s"
  "sv_http (set_conn k st s) = sv_http s" "sv_http (drop_conn k s) = sv_http s"
  "inside (shutdown_poll t s) = inside s" "sv_phase (shutdown_poll t s) = sv_phase s"
  by (simp_all add: on_shedder_def set_conn_def drop_conn_def shutdown_poll_def Let_def split: server_phase.split option.split)

lemma shedder_actives [simp]:
  "sh_active (shed_leave k sd) = sh_active sd - {k}" "sh_active (shed_arrive k sd) \<subseteq> insert k (sh_active sd)"
  "sh_active sd \<subseteq> sh_active (shed_arrive k sd)"
  by (auto simp: shed_leave_def shed_arrive_def)

lemma conns_set_conn: "set (sv_conns (set_conn k st s)) = (\<lambda>(j, old). (j, if j = k then st else old)) ` set (sv_conns s)"
  by (simp add: set_conn_def)

lemma conns_drop_conn: "set (sv_conns (drop_conn k s)) = {c \<in> set (sv_conns s). fst c \<noteq> k}"
  by (simp add: drop_conn_def)

lemma conns_poll: "set (sv_conns (shutdown_poll t s)) \<subseteq> set (sv_conns s)"
  "(k, StateActive) \<in> set (sv_conns s) \<Longrightarrow> (k, StateActive) \<in> set (sv_conns (shutdown_poll t s))"
  by (auto simp: shutdown_poll_def Let_def filter_empty_conv split: server_phase.split option.split)

lemma set_conn_hit: "k \<in> fst ` set (sv_conns s) \<Longrightarrow> (k, st) \<in> set (sv_conns (set_conn k st s))"
  by (force simp: conns_set_conn)

lemma set_conn_other: "j \<noteq> k \<Longrightarrow> (j, a) \<in> set (sv_conns s) \<Longrightarrow> (j, a) \<in> set (sv_conns (set_conn k st s))"
  by (force simp: conns_set_conn)

lemma conns_distinct: "distinct (map fst (sv_conns s)) \<Longrightarrow> distinct (map fst (sv_conns (set_conn k st s)))
    \<and> distinct (map fst (sv_conns (drop_conn k s))) \<and> distinct (map fst (sv_conns (shutdown_poll t s)))"
proof -
  have "fst \<circ> (\<lambda>(j, old). (j, if j = k then st else old)) = fst" by auto
  then show "distinct (map fst (sv_conns s)) \<Longrightarrow> ?thesis"
    by (simp add: set_conn_def drop_conn_def shutdown_poll_def Let_def distinct_map_filter split: server_phase.split option.split)
qed

lemma srv_ok_step [gw_inv]: "srv_ok s \<Longrightarrow> srv_ok (server_step ev s)"
proof (cases ev)
  case (Request k)
  assume ok: "srv_ok s"
  show ?thesis
  proof (cases "k \<in> fst ` set (sv_conns s) \<and> (k, StateActive) \<notin> set (sv_conns s)")
    case True
    have "(j, StateActive) \<in> set (sv_conns (set_conn k StateActive s))" if "j \<in> inside s \<or> j = k" for j
      using that ok True set_conn_hit set_conn_other by (cases "j = k") (auto simp: srv_ok_def)
    moreover have "j \<in> inside s \<or> j = k" if "j \<in> sh_active (shed_arrive k (hs_shedder (sv_http s)))" for j
      using that shedder_actives(2) [of k "hs_shedder (sv_http s)"] by blast
    ultimately show ?thesis using ok True conns_distinct [of s k StateActive] by (simp add: Request srv_ok_def)
  next
    case False
    then show ?thesis using ok Request by auto
  qed
next
  case (Finish k keep)
  assume ok: "srv_ok s"
  show ?thesis
  proof (cases "(k, StateActive) \<in> set (sv_conns s)")
    case True
    let ?s1 = "if k \<in> inside s then on_shedder (shed_leave k) s else s"
    have "inside ?s1 = inside s - {k}" "sv_conns ?s1 = sv_conns s" by simp_all
    then have "srv_ok (set_conn k StateIdle ?s1) \<and> srv_ok (drop_conn k ?s1)"
      using ok conns_distinct [of ?s1 k StateIdle] set_conn_other [of _ k StateActive ?s1 StateIdle]
      by (auto simp: srv_ok_def conns_drop_conn)
    then show ?thesis using True by (simp add: Finish Let_def)
  qed (use ok Finish in simp)
next
  case (Disconnect k)
  then show "srv_ok s \<Longrightarrow> ?thesis" using conns_distinct by (auto simp: srv_ok_def conns_drop_conn)
next
  case (Poll t)
  then show "srv_ok s \<Longrightarrow> ?thesis" using conns_distinct conns_poll(2) by (auto simp: srv_ok_def)
qed (auto simp: srv_ok_def)

lemma srv_ok_run: "srv_ok s \<Longrightarrow> srv_ok (fold server_step evs s)"
  by (induction evs arbitrary: s) (simp_all add: srv_ok_step)

text \<open>While draining, no connection is added, and success means that none is left.\<close>

definition draining :: "gotime \<Rightarrow> nat set \<Rightarrow> Server \<Rightarrow> bool" where
  "draining deadline ks s \<longleftrightarrow> sv_phase s = Draining deadline \<and> fst ` set (sv_conns s) \<subseteq> ks
     \<and> (sv_result s = Some ShutdownOk \<longrightarrow> sv_conns s = [])"

lemma conn_names: "fst ` set (sv_conns (set_conn k st s)) = fst ` set (sv_conns s)"
  "fst ` set (sv_conns (drop_conn k s)) \<subseteq> fst ` set (sv_conns s)"
  "fst ` set (sv_conns (shutdown_poll t s)) \<subseteq> fst ` set (sv_conns s)"
  using conns_poll(1) by (force simp: conns_set_conn conns_drop_conn)+

lemma draining_names: "sv_phase s = Draining d \<Longrightarrow> fst ` set (sv_conns (server_step ev s)) \<subseteq> fst ` set (sv_conns s)"
  by (cases ev) (simp_all add: Let_def conn_names conn_names(2) [THEN order_trans])

lemma draining_success:
  "sv_result (server_step ev s) = Some ShutdownOk \<Longrightarrow> sv_result s = Some ShutdownOk \<or> sv_conns (server_step ev s) = []"
proof (cases ev)
  case (Poll t)
  then show "sv_result (server_step ev s) = Some ShutdownOk \<Longrightarrow> ?thesis"
    by (auto simp: shutdown_poll_def Let_def split: server_phase.splits option.splits if_splits)
qed (simp_all add: Let_def split: if_splits)

lemma draining_step [gw_inv]:
  assumes "draining deadline ks s"
  shows "draining deadline ks (server_step ev s)"
proof -
  have d: "sv_phase s = Draining deadline" using assms by (simp add: draining_def)
  have "sv_phase (server_step ev s) = Draining deadline" using d by (cases ev) (simp_all add: Let_def)
  moreover have "fst ` set (sv_conns (server_step ev s)) \<subseteq> ks" using draining_names [OF d, of ev] assms by (auto simp: draining_def)
  moreover have "sv_conns s = [] \<Longrightarrow> sv_conns (server_step ev s) = []" using draining_names [OF d, of ev] by auto
  ultimately show ?thesis using assms draining_success [of ev s] by (auto simp: draining_def)
qed

lemma draining_run: "draining deadline ks s \<Longrightarrow> draining deadline ks (fold server_step evs s)"
  by (induction evs arbitrary: s) (simp_all add: draining_step)

lemma result_kept: "sv_result s \<noteq> None \<Longrightarrow> sv_result (fold server_step evs s) = sv_result s"
proof (induction evs arbitrary: s)
  case (Cons ev evs)
  have "sv_result (shutdown_poll t s) = sv_result s" for t
    using Cons.prems by (auto simp: shutdown_poll_def split: server_phase.split)
  then have "sv_result (server_step ev s) = sv_result s" by (cases ev) (simp_all add: Let_def)
  then show ?case using Cons by simp
qed simp

lemma late_poll: "draining deadline ks s \<Longrightarrow> deadline \<le> t \<Longrightarrow> sv_result (server_step (Poll t) s) \<noteq> None"
  by (auto simp: draining_def shutdown_poll_def Let_def split: option.split)

text \<open>Only its own end takes a request out of the handler, and its connection from the server.\<close>

lemma served_on:
  "srv_ok s \<Longrightarrow> k \<in> inside s \<Longrightarrow> \<forall>keep. Finish k keep \<notin> set evs \<Longrightarrow> k \<in> inside (fold server_step evs s)"
proof (induction evs arbitrary: s)
  case (Cons ev evs)
  have "k \<in> inside (server_step ev s)"
    using Cons.prems(2,3) shedder_actives(3) by (cases ev) (auto simp: Let_def subset_iff)
  then show ?case using Cons.IH srv_ok_step Cons.prems by simp
qed simp

text \<open>
  C16: \<open>Shutdown\<close> always returns: whatever the requests inside do, every run that polls at
  or after thirty seconds (or the caller's earlier deadline) has a result by then. No connection
  is accepted any more, so every request that gets in later comes on a connection that was
  accepted before; success means that no connection is left and no request inside; and nothing
  is closed by force: a request that was inside when \<open>Shutdown\<close> was called is still inside, on
  its active connection, unless its handler has returned, also after the deadline.
\<close>

theorem shutdown_returns:
  assumes "s = fold server_step before (snd (ListenAndServe True (new_Server cfg)))"
    and "s' = fold server_step evs (Shutdown ctx now s)"
  shows "(\<forall>t. Poll t \<in> set evs \<longrightarrow> now + 30 * second \<le> t \<longrightarrow> sv_result s' \<noteq> None)
    \<and> fst ` set (sv_conns s') \<subseteq> fst ` set (sv_conns s) \<and> (\<forall>k \<in> inside s'. (k, StateActive) \<in> set (sv_conns s'))
    \<and> (\<forall>k \<in> inside s. k \<in> inside s' \<or> (\<exists>keep. Finish k keep \<in> set evs))
    \<and> (sv_result s' = Some ShutdownOk \<longrightarrow> sv_conns s' = [] \<and> inside s' = {})
    \<and> fst (ListenAndServe True s') = ErrServerClosed"
proof -
  define d where "d = WithTimeout ctx now (30 * second)"
  let ?ks = "fst ` set (sv_conns s)"
  have born: "srv_ok (snd (ListenAndServe True (new_Server cfg)))" "sv_result (snd (ListenAndServe True (new_Server cfg))) = None"
    "sv_phase (snd (ListenAndServe True (new_Server cfg))) = Listening"
    by (simp_all add: srv_ok_def ListenAndServe_def new_Server_def server_New_def new_shedder_def)
  have "sv_result (fold server_step es z) = None \<and> sv_phase (fold server_step es z) = Listening"
    if "sv_result z = None" "sv_phase z = Listening" for es z
    using that
  proof (induction es arbitrary: z)
    case (Cons ev es)
    then have "sv_result (server_step ev z) = None \<and> sv_phase (server_step ev z) = Listening"
      by (cases ev) (auto simp: Let_def shutdown_poll_def)
    then show ?case using Cons.IH by simp
  qed simp
  then have none: "sv_result s = None" using born(2,3) assms(1) by simp
  have ok: "srv_ok (Shutdown ctx now s)" "inside (Shutdown ctx now s) = inside s" "sv_conns (Shutdown ctx now s) = sv_conns s"
    using srv_ok_run [OF born(1), of before] assms(1) by (simp_all add: srv_ok_def Shutdown_def)
  have start: "draining d ?ks (Shutdown ctx now s)" using none by (simp add: draining_def Shutdown_def d_def)
  have late: "sv_result s' \<noteq> None" if mem: "Poll t \<in> set evs" and late: "now + 30 * second \<le> t" for t
  proof -
    obtain pre post where evs: "evs = pre @ Poll t # post" using split_list [OF mem] by blast
    have "d \<le> t" using late by (auto simp: d_def WithTimeout_def split: option.split)
    from late_poll [OF draining_run [OF start, of pre] this]
    show ?thesis using result_kept [of _ post] by (simp add: assms(2) evs)
  qed
  have kept: "\<forall>k \<in> inside s. k \<in> inside s' \<or> (\<exists>keep. Finish k keep \<in> set evs)"
    using served_on [OF ok(1), of _ evs] by (auto simp: assms(2) ok(2))
  have "srv_ok s'" using srv_ok_run [OF ok(1), of evs] assms(2) by simp
  then show ?thesis
    using late kept draining_run [OF start, of evs] by (auto simp: assms(2) draining_def srv_ok_def ListenAndServe_def)
qed

theorem shutdown_returns_witness:
  "let s = fold server_step [Accept 7 0, Accept 8 0, Accept 9 0, Request 7, Request 8] (snd (ListenAndServe True
        (new_Server \<lparr>svr_Port = 80, svr_ReadHeader = 0, svr_Read = 0, svr_Write = 0, svr_Idle = 0, svr_MaxConcurrent = 5\<rparr>)));
      s' = fold server_step [Finish 7 True, Accept 10 1, Request 9, Poll (31 * second)] (Shutdown None 1 s)
    in inside s = {7, 8} \<and> 8 \<in> inside s' \<and> sv_result s' \<noteq> None"
proof -
  let ?cfg = "\<lparr>svr_Port = 80, svr_ReadHeader = 0, svr_Read = 0, svr_Write = 0, svr_Idle = 0, svr_MaxConcurrent = 5\<rparr>"
  let ?s = "fold server_step [Accept 7 0, Accept 8 0, Accept 9 0, Request 7, Request 8] (snd (ListenAndServe True (new_Server ?cfg)))"
  let ?evs = "[Finish 7 True, Accept 10 1, Request 9, Poll (31 * second)]"
  have a: "inside ?s = {7, 8}"
    by (simp add: ListenAndServe_def new_Server_def server_New_def new_shedder_def shed_capacity_def on_shedder_def set_conn_def shed_arrive_def insert_commute)
  show ?thesis using shutdown_returns [OF refl refl, where before = "[Accept 7 0, Accept 8 0, Accept 9 0, Request 7, Request 8]"
      and cfg = ?cfg and evs = ?evs and ctx = None and now = 1] a
    by (auto simp: Let_def simp del: fold_simps fold.simps)
qed

end
