(* ===== verification/Request_Handler.thy ===== *)
theory Request_Handler
  imports Middleware Gateway_Runtime External_Plugin
begin

section \<open>The request handler (\<open>internal/server/handler.go\<close>)\<close>

text \<open>
  The central handler with its body limit: strip, match, limit, plugin chain.
\<close>

subsection \<open>The body limit\<close>

text \<open>
  A reader answers a \<open>Read\<close> into a buffer of a given length with the bytes and an error.
  \<open>mb_Read\<close> is \<open>http.MaxBytesReader\<close> of the standard library (its error is sticky, and an
  empty buffer is answered at once); \<open>lb_Read\<close> is the code's wrapper around it.
\<close>

datatype read_err = NoErr | EOF | TooLarge | ReadFailed

record 's max_bytes =
  mb_r :: 's
  mb_n :: int
  mb_err :: read_err

record 's limited_body =
  lb_r :: "'s max_bytes"
  lb_limit :: int
  lb_read :: int

type_synonym 's reader = "nat \<Rightarrow> 's \<Rightarrow> string \<times> read_err \<times> 's"

definition capped :: "nat \<Rightarrow> int \<Rightarrow> nat" where
  "capped p n = (if int p - 1 > n then nat (n + 1) else p)"

definition mb_Read :: "'s reader \<Rightarrow> nat \<Rightarrow> 's max_bytes \<Rightarrow> string \<times> read_err \<times> 's max_bytes" where
  "mb_Read rd p l =
     (if mb_err l \<noteq> NoErr then ([], mb_err l, l)
      else if p = 0 then ([], NoErr, l)
      else let (bs, e, r) = rd (capped p (mb_n l)) (mb_r l)
           in if int (length bs) \<le> mb_n l
              then (bs, e, l\<lparr>mb_r := r, mb_n := mb_n l - int (length bs), mb_err := e\<rparr>)
              else (take (nat (mb_n l)) bs, TooLarge, l\<lparr>mb_r := r, mb_n := 0, mb_err := TooLarge\<rparr>))"

definition lb_Read :: "'s reader \<Rightarrow> nat \<Rightarrow> 's limited_body \<Rightarrow> string \<times> read_err \<times> 's limited_body" where
  "lb_Read rd p l =
     (if lb_read l \<ge> lb_limit l then ([], TooLarge, l)
      else let (bs, e, r) = mb_Read rd p (lb_r l)
           in (bs, e, l\<lparr>lb_r := r, lb_read := lb_read l + int (length bs)\<rparr>))"

subsection \<open>The handler\<close>

datatype 's handler_body = RawBody 's | LimitedBody "'s limited_body"

record ('l, 's) served = "'l ext_exchange" +
  sx_body :: "'s handler_body"

text \<open>\<open>None\<close>: a raw body arrives with every request; the handler wraps it at most once.\<close>

definition limit_body :: "'s reader \<Rightarrow> int \<Rightarrow> 's handler_body \<Rightarrow> read_err \<times> 's handler_body" where
  "limit_body rd limit body =
     (case body of
        RawBody s \<Rightarrow>
          (let (bs, e, mb) = mb_Read rd 0 \<lparr>mb_r = s, mb_n = limit, mb_err = NoErr\<rparr>
           in (e, LimitedBody \<lparr>lb_r = mb, lb_limit = limit, lb_read = 0\<rparr>))
      | LimitedBody l \<Rightarrow> (NoErr, LimitedBody l))"

definition not_found_body :: string where
  "not_found_body = json_error 404 ''not found''"

definition ServeHTTP :: "'s reader \<Rightarrow> ('l, 's) served RuntimeHolder \<Rightarrow> ('l, 's) served http_handler" where
  "ServeHTTP rd holder x0 =
     (let x1 = x0\<lparr>ex_r := StripInboundHeaders (ex_r x0)\<rparr>
      in case holder_Get holder of
           None \<Rightarrow> (Panic, x1)
         | Some rt \<Rightarrow>
      (case Match (gr_Router rt) (rq_Method (ex_r x1)) (rq_Path (ex_r x1)) of
         None \<Rightarrow> (case http_Error not_found_body 404 (ex_w x1) of
             Ret w \<Rightarrow> (Ret (), x1\<lparr>ex_w := w\<rparr>) | Panic \<Rightarrow> (Panic, x1))
       | Some route \<Rightarrow>
           let x2 = x1\<lparr>ex_r := upd_ctx (\<lambda>g. g\<lparr>gw_RouteID := rt_ID route\<rparr>) (ex_r x1)\<rparr>;
               (err, body) = (if rt_MaxBodyBytes route > 0 then limit_body rd (rt_MaxBodyBytes route) (sx_body x2)
                              else (NoErr, sx_body x2));
               x3 = x2\<lparr>sx_body := body\<rparr>
           in if err = TooLarge
              then (case http_Error (json_error 413 ''request body too large'') 413 (ex_w x3) of
                      Ret w \<Rightarrow> (Ret (), x3\<lparr>ex_w := w\<rparr>) | Panic \<Rightarrow> (Panic, x3))
              else (case gr_PluginChains rt (rt_ID route) of
                      None \<Rightarrow> (Ret (), x3)
                    | Some chain \<Rightarrow>
                        (case chain_Request chain x3 of
                           (Panic, x4) \<Rightarrow> (Panic, x4)
                         | (Ret aborted, x4) \<Rightarrow> (Ret (), chain_Response chain x4)))))"

subsection \<open>The body limit\<close>

text \<open>Reading with buffers of the given lengths until an error: the bytes and the error.\<close>

fun read_all :: "'s reader \<Rightarrow> nat list \<Rightarrow> 's limited_body \<Rightarrow> string \<times> read_err" where
  "read_all rd [] l = ([], NoErr)"
| "read_all rd (p # ps) l =
     (let (bs, e, l1) = lb_Read rd p l
      in if e \<noteq> NoErr then (bs, e) else (let (rest, e1) = read_all rd ps l1 in (bs @ rest, e1)))"

definition fresh_limited :: "'s \<Rightarrow> int \<Rightarrow> 's limited_body" where
  "fresh_limited s limit = \<lparr>lb_r = \<lparr>mb_r = s, mb_n = limit, mb_err = NoErr\<rparr>, lb_limit = limit, lb_read = 0\<rparr>"

lemma limit_body_fresh: "limit_body rd limit (RawBody s) = (NoErr, LimitedBody (fresh_limited s limit))"
  by (simp add: limit_body_def mb_Read_def fresh_limited_def)

lemma mb_Read_bound: "mb_Read rd p l = (bs, e, l') \<Longrightarrow> 0 \<le> mb_n l \<Longrightarrow> 0 \<le> mb_n l' \<and> int (length bs) + mb_n l' \<le> mb_n l"
  by (auto simp: mb_Read_def Let_def split: if_splits prod.splits)

lemma read_all_bound: "0 \<le> mb_n (lb_r l) \<Longrightarrow> int (length (fst (read_all rd ps l))) \<le> mb_n (lb_r l)"
proof (induction ps arbitrary: l)
  case (Cons p ps)
  obtain bs e l1 where r: "lb_Read rd p l = (bs, e, l1)" by (metis prod_cases3)
  then have b: "0 \<le> mb_n (lb_r l1) \<and> int (length bs) + mb_n (lb_r l1) \<le> mb_n (lb_r l)"
    using Cons.prems mb_Read_bound by (fastforce simp: lb_Read_def split: if_splits prod.splits)
  then show ?case using Cons.IH [of l1] r by (auto simp: Let_def split: prod.splits)
qed simp

text \<open>After a read without an error the wrapper has counted what it delivered.\<close>

lemma read_all_counted:
  "read_all rd ps l = (bs, NoErr) \<Longrightarrow> \<exists>l1. lb_read l1 = lb_read l + int (length bs) \<and> lb_limit l1 = lb_limit l
     \<and> (\<forall>qs. read_all rd (ps @ qs) l = (bs @ fst (read_all rd qs l1), snd (read_all rd qs l1)))"
proof (induction ps arbitrary: l bs)
  case (Cons p ps)
  obtain b e l1 where r: "lb_Read rd p l = (b, e, l1)" by (metis prod_cases3)
  then obtain rest where rest: "e = NoErr" "read_all rd ps l1 = (rest, NoErr)" "bs = b @ rest"
    using Cons.prems by (auto simp: Let_def split: if_splits prod.splits)
  have "lb_read l1 = lb_read l + int (length b)" "lb_limit l1 = lb_limit l"
    using r rest(1) by (auto simp: lb_Read_def split: if_splits prod.splits)
  moreover from Cons.IH [OF rest(2)] obtain l2 where "lb_read l2 = lb_read l1 + int (length rest)" "lb_limit l2 = lb_limit l1"
    "\<forall>qs. read_all rd (ps @ qs) l1 = (rest @ fst (read_all rd qs l2), snd (read_all rd qs l2))" by blast
  ultimately show ?case using r rest(1,3) by (intro exI [of _ l2]) (simp add: Let_def split_beta)
qed (auto intro: exI [of _ l])

lemma read_past_limit:
  assumes "read_all rd ps (fresh_limited s limit) = (bs, NoErr)" and "int (length bs) = limit"
  shows "read_all rd (ps @ [p]) (fresh_limited s limit) = (bs, TooLarge)"
proof -
  obtain l1 where "lb_read l1 = limit" "lb_limit l1 = limit"
    "read_all rd (ps @ [p]) (fresh_limited s limit) = (bs @ fst (read_all rd [p] l1), snd (read_all rd [p] l1))"
    using read_all_counted [OF assms(1)] assms(2) by (auto simp: fresh_limited_def)
  then show ?thesis by (simp add: lb_Read_def)
qed

text \<open>A body that arrives as fast as it is read, with its end reported by a read of its own.\<close>

definition plain_reader :: "string reader" where
  "plain_reader p s = (take p s, if s = [] then EOF else NoErr, drop p s)"

lemma plain_mb_Read:
  "0 < p \<Longrightarrow> mb_Read plain_reader p \<lparr>mb_r = s, mb_n = n, mb_err = NoErr\<rparr> =
     (if int (length (take (capped p n) s)) \<le> n
      then (take (capped p n) s, if s = [] then EOF else NoErr,
        \<lparr>mb_r = drop (capped p n) s, mb_n = n - int (length (take (capped p n) s)), mb_err = if s = [] then EOF else NoErr\<rparr>)
      else (take (nat n) (take (capped p n) s), TooLarge, \<lparr>mb_r = drop (capped p n) s, mb_n = 0, mb_err = TooLarge\<rparr>))"
  by (simp add: mb_Read_def plain_reader_def)

lemma plain_read_all:
  "0 \<le> n \<Longrightarrow> \<forall>p \<in> set ps. 0 < p \<Longrightarrow> length s < length ps \<Longrightarrow>
    read_all plain_reader ps \<lparr>lb_r = \<lparr>mb_r = s, mb_n = n, mb_err = NoErr\<rparr>, lb_limit = limit, lb_read = limit - n\<rparr>
      = (take (nat n) s, if int (length s) < n then EOF else TooLarge)"
proof (induction ps arbitrary: s n)
  case (Cons p ps)
  show ?case
  proof (cases "n = 0")
    case False
    define p1 where "p1 = capped p n"
    have p: "0 < p" using Cons.prems(2) by simp
    have p1: "0 < p1" using Cons.prems False by (auto simp: p1_def capped_def)
    note step = plain_mb_Read [OF p, of s n, folded p1_def]
    show ?thesis
    proof (cases "s = [] \<or> int (length (take p1 s)) > n")
      case True
      then show ?thesis using Cons.prems(1) False p1 by (auto simp: lb_Read_def step min_def)
    next
      case more: False
      let ?bs = "take p1 s"
      have len: "length (drop p1 s) < length ps" using more p1 Cons.prems(3) by (cases s) auto
      have "read_all plain_reader ps \<lparr>lb_r = \<lparr>mb_r = drop p1 s, mb_n = n - int (length ?bs), mb_err = NoErr\<rparr>,
            lb_limit = limit, lb_read = limit - (n - int (length ?bs))\<rparr>
          = (take (nat (n - int (length ?bs))) (drop p1 s), if int (length (drop p1 s)) < n - int (length ?bs) then EOF else TooLarge)"
        using more Cons.prems(2) len by (intro Cons.IH) auto
      moreover have "take (nat n) s = ?bs @ take (nat (n - int (length ?bs))) (drop p1 s)"
        using more by (cases "length s \<le> p1") (auto simp: min_def take_add [symmetric] nat_diff_distrib)
      moreover have "int (length (drop p1 s)) < n - int (length ?bs) \<longleftrightarrow> int (length s) < n"
        by (auto simp: min_def)
      ultimately show ?thesis using Cons.prems(1) False more p1
        by (simp add: lb_Read_def step algebra_simps)
    qed
  qed (simp add: lb_Read_def)
qed simp

text \<open>
  C0: A body longer than the limit is cut there and reported as too large, a shorter one is
  read to its end; but a body of exactly the limit is reported as too large as well when the
  connection signals its end in a separate read, because the wrapper counts the bytes again
  and gives up one read early.
\<close>

theorem exact_limit_rejected:
  assumes "0 < limit" and "\<forall>p \<in> set ps. 0 < p" and "length s < length ps"
    and "limit_body plain_reader limit (RawBody s) = (e, LimitedBody l)"
  shows "read_all plain_reader ps l = (take (nat limit) s, if int (length s) < limit then EOF else TooLarge)"
  using plain_read_all [of limit ps s limit] assms by (auto simp: limit_body_fresh fresh_limited_def)

theorem exact_limit_rejected_witness:
  "\<exists>l. limit_body plain_reader 3 (RawBody ''abc'') = (NoErr, LimitedBody l)
    \<and> read_all plain_reader [512, 512, 512, 512] l = (''abc'', TooLarge)"
  using exact_limit_rejected [of 3 "[512, 512, 512, 512]" "''abc''" NoErr "fresh_limited ''abc'' 3"]
  by (simp add: limit_body_fresh)

subsection \<open>What the handler answers\<close>

text \<open>A plugin that lets every request pass and touches nothing.\<close>

definition transparent :: "'w plugin \<Rightarrow> bool" where
  "transparent p \<longleftrightarrow> (\<forall>x. pl_Request p x = (PNil, x) \<and> snd (pl_Response p x) = x)"

lemma transparent_chain:
  "list_all transparent ps \<Longrightarrow> chain_Request ps x = (Ret False, x)"
  "list_all transparent ps \<Longrightarrow> chain_Response ps x = x"
  by (induction ps) (auto simp: transparent_def split_beta)

lemma http_Error_response:
  "rw_sent w = None \<Longrightarrow> 200 \<le> code \<Longrightarrow> code \<le> 999 \<Longrightarrow> bodyAllowed code \<Longrightarrow>
    \<exists>w' h. http_Error msg code w = Ret w' \<and> response w' = (code, h, rw_body w @ msg @ [CHR 0x0A])"
  by (auto simp: http_Error_def WriteHeader_def rw_map_def rw_Write_def response_def Let_def)

lemma limit_body_ok: "fst (limit_body rd limit body) = NoErr"
  by (cases body) (simp_all add: limit_body_fresh, simp add: limit_body_def)

text \<open>The exchange as the plugins get it: stripped, with the route in the context and the body \<open>b\<close>.\<close>

definition routed :: "Route \<Rightarrow> 's handler_body \<Rightarrow> ('l, 's) served \<Rightarrow> ('l, 's) served" where
  "routed route b x =
     x\<lparr>ex_r := upd_ctx (\<lambda>g. g\<lparr>gw_RouteID := rt_ID route\<rparr>) (StripInboundHeaders (ex_r x)), sx_body := b\<rparr>"

lemma routed_w [simp]: "ex_w (routed route b x) = ex_w x"
  by (simp add: routed_def)

lemma strip_keeps: "rq_Method (StripInboundHeaders r) = rq_Method r" "rq_Path (StripInboundHeaders r) = rq_Path r"
  by (simp_all add: StripInboundHeaders_def)

lemma ServeHTTP_limits:
  assumes "holder_Get holder = Some rt" and "Match (gr_Router rt) (rq_Method (ex_r x)) (rq_Path (ex_r x)) = Some route"
    and "b = (if rt_MaxBodyBytes route > 0 then snd (limit_body rd (rt_MaxBodyBytes route) (sx_body x)) else sx_body x)"
  shows "ServeHTTP rd holder x = (case gr_PluginChains rt (rt_ID route) of None \<Rightarrow> (Ret (), routed route b x)
        | Some chain \<Rightarrow> (case chain_Request chain (routed route b x) of (Panic, x4) \<Rightarrow> (Panic, x4)
            | (Ret aborted, x4) \<Rightarrow> (Ret (), chain_Response chain x4)))"
proof -
  obtain b0 where "limit_body rd (rt_MaxBodyBytes route) (sx_body x) = (NoErr, b0)"
    using limit_body_ok [of rd "rt_MaxBodyBytes route" "sx_body x"] by (cases "limit_body rd (rt_MaxBodyBytes route) (sx_body x)") simp
  then show ?thesis
    by (cases "rt_MaxBodyBytes route > 0"; cases "gr_PluginChains rt (rt_ID route)")
      (simp_all add: ServeHTTP_def Let_def strip_keeps routed_def assms)
qed

lemmas ServeHTTP_matched = ServeHTTP_limits [OF _ _ refl]

text \<open>
  C28: The body limit of a route is enforced before any plugin sees the body. When a request
  matches a route with a \<open>MaxBodyBytes\<close>, the handler runs the route's chain on the exchange
  with its body wrapped. However a plugin or the proxy reads that body, and whatever the
  connection delivers, it gets at most \<open>MaxBodyBytes\<close> bytes; and once it has that many, the
  next read fails as too large.
\<close>

theorem body_limit_holds:
  assumes "holder_Get holder = Some rt" and "Match (gr_Router rt) (rq_Method (ex_r x)) (rq_Path (ex_r x)) = Some route"
    and "gr_PluginChains rt (rt_ID route) = Some chain" and "0 < rt_MaxBodyBytes route" and "sx_body x = RawBody s"
  shows "\<exists>l. ServeHTTP rd holder x = (case chain_Request chain (routed route (LimitedBody l) x) of (Panic, x4) \<Rightarrow> (Panic, x4)
            | (Ret aborted, x4) \<Rightarrow> (Ret (), chain_Response chain x4))
    \<and> (\<forall>ps. int (length (fst (read_all rd ps l))) \<le> rt_MaxBodyBytes route)
    \<and> (\<forall>ps bs p. read_all rd ps l = (bs, NoErr) \<longrightarrow> int (length bs) = rt_MaxBodyBytes route \<longrightarrow>
          read_all rd (ps @ [p]) l = (bs, TooLarge))"
proof (intro exI conjI allI impI)
  let ?l = "fresh_limited s (rt_MaxBodyBytes route)"
  show "ServeHTTP rd holder x = (case chain_Request chain (routed route (LimitedBody ?l) x) of (Panic, x4) \<Rightarrow> (Panic, x4)
            | (Ret aborted, x4) \<Rightarrow> (Ret (), chain_Response chain x4))"
    using ServeHTTP_matched [OF assms(1,2), of rd] assms(3-5) by (simp add: limit_body_fresh)
  show "int (length (fst (read_all rd ps ?l))) \<le> rt_MaxBodyBytes route" for ps
    using read_all_bound [of ?l rd ps] assms(4) by (simp add: fresh_limited_def)
  show "read_all rd (ps @ [p]) ?l = (bs, TooLarge)"
    if "read_all rd ps ?l = (bs, NoErr)" "int (length bs) = rt_MaxBodyBytes route" for ps bs p
    by (rule read_past_limit [OF that])
qed

text \<open>
  C29: With plugins that let requests pass, the handler answers every matched request with an
  empty 200 and every other with 404. No upstream is asked, since the proxy step is missing;
  a wrong method gives 404, never 405; and an oversized body never gives 413, since the probe
  with an empty buffer cannot see it.
\<close>

theorem handler_answers:
  assumes "holder_Get holder = Some rt" and "\<And>rid chain. gr_PluginChains rt rid = Some chain \<Longrightarrow> list_all transparent chain"
    and "rw_sent (ex_w x) = None" and "rw_body (ex_w x) = []"
  shows "\<exists>y. ServeHTTP rd holder x = (Ret (), y)
    \<and> (case Match (gr_Router rt) (rq_Method (ex_r x)) (rq_Path (ex_r x)) of
         None \<Rightarrow> fst (response (ex_w y)) = 404
       | Some route \<Rightarrow> response (ex_w y) = (200, rw_header (ex_w x), []))"
proof (cases "Match (gr_Router rt) (rq_Method (ex_r x)) (rq_Path (ex_r x))")
  case None
  obtain w' h where "http_Error not_found_body 404 (ex_w x) = Ret w'" "response w' = (404, h, rw_body (ex_w x) @ not_found_body @ [CHR 0x0A])"
    using http_Error_response [OF assms(3), of 404 not_found_body] by (auto simp: bodyAllowed_def)
  then show ?thesis using None assms(1) strip_keeps by (simp add: ServeHTTP_def Let_def)
next
  case (Some route)
  obtain b where "ServeHTTP rd holder x = (Ret (), routed route b x)"
    using ServeHTTP_matched [OF assms(1) Some, of rd] assms(2) [of "rt_ID route"]
    by (cases "gr_PluginChains rt (rt_ID route)") (auto simp: transparent_chain)
  then show ?thesis using Some assms(3,4) by (simp add: response_def)
qed

definition sample_served :: "string \<Rightarrow> (token_bucket, string) served" where
  "sample_served path = \<lparr>ex_w = new_rw, ex_r = sample_request\<lparr>rq_Path := path\<rparr>, lg_lines = [], lg_now = 0,
     lx_limiter = tb_New (Fin 1) (Fin 5), lx_now = 0, lx_ctxErr = None, xx_plugins = (\<lambda>name. sample_ext), xx_now = 0,
     sx_body = RawBody ''abc''\<rparr>"

definition sample_router :: Router where
  "sample_router = \<lparr>ro_exact = Map.empty, ro_prefix = [\<lparr>rt_ID = ''r'', rt_Methods = {}, rt_MatchType = MatchPrefix, rt_Path = ''/api'',
       rt_Pattern = None, rt_StripPrefix = False, rt_ServiceName = ''s'', rt_Timeout = 0, rt_MaxBodyBytes = 1, rt_Plugins = [],
       rt_pathLen = 4\<rparr>], ro_regexes = []\<rparr>"

definition sample_live :: "'w plugin list \<Rightarrow> 'w RuntimeHolder" where
  "sample_live chain = NewRuntimeHolder (Some \<lparr>gr_Version = 1, gr_Router = sample_router, gr_PluginChains = [''r'' \<mapsto> chain]\<rparr>)"

lemma sample_live_Get:
  "holder_Get (sample_live chain) = Some \<lparr>gr_Version = 1, gr_Router = sample_router, gr_PluginChains = [''r'' \<mapsto> chain]\<rparr>"
  by (simp add: holder_Get_def sample_live_def NewRuntimeHolder_def)

lemma sample_router_Match:
  "Match sample_router ''GET'' ''/api/x'' = Some (hd (ro_prefix sample_router))" "Match sample_router ''GET'' ''/other'' = None"
  by (simp_all add: sample_router_def Match_def exact_hit_def HasPrefix_def methodAllowed_def)

lemma sample_served_fields:
  "rw_sent (ex_w (sample_served path)) = None" "rw_body (ex_w (sample_served path)) = []"
  "rw_header (ex_w (sample_served path)) = Map.empty" "rq_Method (ex_r (sample_served path)) = ''GET''"
  "rq_Path (ex_r (sample_served path)) = path"
  by (simp_all add: sample_served_def new_rw_def sample_request_def)

theorem handler_answers_witness:
  "(\<exists>y. ServeHTTP plain_reader (sample_live [sample_plugin ''p'' PNil]) (sample_served ''/api/x'') = (Ret (), y)
      \<and> response (ex_w y) = (200, Map.empty, []))
   \<and> (\<exists>y. ServeHTTP plain_reader (sample_live [sample_plugin ''p'' PNil]) (sample_served ''/other'') = (Ret (), y)
      \<and> fst (response (ex_w y)) = 404)"
proof -
  let ?rt = "\<lparr>gr_Version = 1, gr_Router = sample_router, gr_PluginChains = [''r'' \<mapsto> [sample_plugin ''p'' PNil]]\<rparr>"
  have transparent: "gr_PluginChains ?rt rid = Some chain \<Longrightarrow> list_all transparent chain" for rid chain
    by (auto simp: transparent_def sample_plugin_def split: if_splits)
  note w = sample_served_fields
  show ?thesis
    using handler_answers [where rd = plain_reader, OF sample_live_Get transparent w(1,2) [of "''/api/x''"]]
      handler_answers [where rd = plain_reader, OF sample_live_Get transparent w(1,2) [of "''/other''"]]
    by (auto simp: w(3-5) sample_router_Match)
qed

theorem body_limit_holds_witness:
  "\<exists>l. ServeHTTP plain_reader (sample_live [sample_plugin ''p'' PNil]) (sample_served ''/api/x'')
      = (Ret (), routed (hd (ro_prefix sample_router)) (LimitedBody l) (sample_served ''/api/x''))
    \<and> length (fst (read_all plain_reader [2, 2] l)) \<le> 1"
proof -
  let ?rt = "\<lparr>gr_Version = 1, gr_Router = sample_router, gr_PluginChains = [''r'' \<mapsto> [sample_plugin ''p'' PNil]]\<rparr>"
  let ?route = "hd (ro_prefix sample_router)" and ?x = "sample_served ''/api/x''"
  have m: "Match (gr_Router ?rt) (rq_Method (ex_r ?x)) (rq_Path (ex_r ?x)) = Some ?route"
    by (simp add: sample_served_fields sample_router_Match)
  have r: "gr_PluginChains ?rt (rt_ID ?route) = Some [sample_plugin ''p'' PNil]" "rt_MaxBodyBytes ?route = 1"
    "sx_body ?x = RawBody ''abc''" by (simp_all add: sample_router_def sample_served_def)
  have t: "list_all transparent [sample_plugin ''p'' PNil]" by (simp add: transparent_def sample_plugin_def)
  have pos: "0 < rt_MaxBodyBytes ?route" by (simp add: r(2))
  from body_limit_holds [OF sample_live_Get m r(1) pos r(3), of plain_reader] obtain l where
    l: "ServeHTTP plain_reader (sample_live [sample_plugin ''p'' PNil]) ?x
      = (case chain_Request [sample_plugin ''p'' PNil] (routed ?route (LimitedBody l) ?x) of (Panic, x4) \<Rightarrow> (Panic, x4)
            | (Ret aborted, x4) \<Rightarrow> (Ret (), chain_Response [sample_plugin ''p'' PNil] x4))"
    and b: "\<forall>ps. int (length (fst (read_all plain_reader ps l))) \<le> rt_MaxBodyBytes ?route" by blast
  have "ServeHTTP plain_reader (sample_live [sample_plugin ''p'' PNil]) ?x = (Ret (), routed ?route (LimitedBody l) ?x)"
    unfolding l transparent_chain [OF t] by simp
  moreover have "length (fst (read_all plain_reader [2, 2] l)) \<le> 1" using b [rule_format, of "[2, 2]"] r(2) by simp
  ultimately show ?thesis by blast
qed

end
