(* ===== verification/Admin.thy ===== *)
theory Admin
  imports Request_Handler External_Plugin
begin

section \<open>The admin endpoints (\<open>internal/admin\<close>)\<close>

text \<open>Reloading the configuration file and listing the plugins.\<close>

subsection \<open>The admin handlers\<close>

text \<open>
  \<open>enc\<close> is the JSON encoder on a map of strings, \<open>stamp\<close> the formatted time, \<open>show_err\<close> the
  text of a load error.
\<close>

definition reload_ServeHTTP ::
  "((string \<times> string) list \<Rightarrow> string) \<Rightarrow> string \<Rightarrow> (load_error \<Rightarrow> string) \<Rightarrow> regex_compiler \<Rightarrow> config_source
    \<Rightarrow> string \<Rightarrow> response_writer \<times> loader \<Rightarrow> unit go \<times> response_writer \<times> loader" where
  "reload_ServeHTTP enc stamp show_err rx src method st =
     (let (w, l) = st
      in if method \<noteq> ''POST'' then
           (case http_Error (''{'' @ go_quote ''error'' @ '':'' @ go_quote ''method not allowed'' @ ''}'') 405 w of
              Ret w1 \<Rightarrow> (Ret (), w1, l) | Panic \<Rightarrow> (Panic, w, l))
         else
           (let (res, l1) = ForceReload rx src l;
                w1 = rw_map (h_Set ''Content-Type'' ''application/json'') w
            in case res of
                 Inl e \<Rightarrow>
                   (case WriteHeader 500 w1 of
                      Panic \<Rightarrow> (Panic, w1, l1)
                    | Ret w2 \<Rightarrow> (Ret (), rw_Write (enc [(''error'', show_err e), (''status'', ''failed'')]) w2, l1))
               | Inr cfg \<Rightarrow> (Ret (), rw_Write (enc [(''status'', ''ok''), (''reloaded_at'', stamp)]) w1, l1)))"

text \<open>\<open>json\<close> encodes the reply object; the breakers of the plugins are read when it is built.\<close>

record PluginsHandler =
  ph_builtinNames :: "string list"
  ph_externalPlugins :: "ExternalPlugin list"

definition NewPluginsHandler :: "string list \<Rightarrow> ExternalPlugin list \<Rightarrow> PluginsHandler" where
  "NewPluginsHandler builtinNames externalPlugins = \<lparr>ph_builtinNames = builtinNames, ph_externalPlugins = externalPlugins\<rparr>"

record ExternalPluginInfo =
  ei_Name :: string
  ei_Version :: string
  ei_SDKMajor :: int
  ei_Address :: string
  ei_OnError :: string
  ei_TimeoutMs :: int
  ei_CircuitState :: string

definition external_info :: "ExternalPlugin \<Rightarrow> ExternalPluginInfo" where
  "external_info p =
     (let i = ext_Info p
      in \<lparr>ei_Name = pi_Name i, ei_Version = pi_Version i, ei_SDKMajor = pi_SDKMajor i, ei_Address = pi_Address i,
          ei_OnError = pi_OnError i, ei_TimeoutMs = pi_TimeoutMs i, ei_CircuitState = pi_CircuitState i\<rparr>)"

definition plugins_ServeHTTP ::
  "(string list \<Rightarrow> ExternalPluginInfo list \<Rightarrow> string) \<Rightarrow> PluginsHandler \<Rightarrow> string \<Rightarrow> response_writer
    \<Rightarrow> response_writer go" where
  "plugins_ServeHTTP json ph method w =
     (if method \<noteq> ''GET'' then
        http_Error (''{'' @ go_quote ''error'' @ '':'' @ go_quote ''method not allowed'' @ ''}'') 405 w
      else Ret (rw_Write (json (ph_builtinNames ph) (map external_info (ph_externalPlugins ph)))
        (rw_map (h_Set ''Content-Type'' ''application/json'') w)))"

subsection \<open>Reloading by the admin endpoint\<close>

text \<open>
  \<open>POST /admin/reload\<close> answers 200 exactly when the file loaded and validated, and then
  the current configuration is that one; otherwise it answers 500 and the loader is
  unchanged. Any other method answers 405 and reads nothing.
\<close>

theorem admin_reload_status:
  assumes "rw_sent w = None"
  shows "\<exists>w' l'. reload_ServeHTTP enc stamp show_err rx src meth (w, l) = (Ret (), w', l')
    \<and> (if meth \<noteq> ''POST'' then fst (response w') = 405 \<and> l' = l
       else case loadAndValidate rx src of
              Inl e \<Rightarrow> fst (response w') = 500 \<and> l' = l
            | Inr cfg \<Rightarrow> fst (response w') = 200 \<and> ld_current l' = cfg)"
proof (cases "meth = ''POST''")
  case False
  obtain w' h where "http_Error (''{'' @ go_quote ''error'' @ '':'' @ go_quote ''method not allowed'' @ ''}'') 405 w = Ret w'"
    "response w' = (405, h, rw_body w @ (''{'' @ go_quote ''error'' @ '':'' @ go_quote ''method not allowed'' @ ''}'') @ [CHR 0x0A])"
    using http_Error_response [OF assms, of 405 "''{'' @ go_quote ''error'' @ '':'' @ go_quote ''method not allowed'' @ ''}''"]
    by (auto simp: bodyAllowed_def)
  then show ?thesis using False by (simp add: reload_ServeHTTP_def)
next
  case True
  show ?thesis
  proof (cases "loadAndValidate rx src")
    case (Inl e)
    then show ?thesis using True assms
      by (auto simp: reload_ServeHTTP_def ForceReload_def WriteHeader_def rw_map_def rw_Write_def response_def bodyAllowed_def)
  next
    case (Inr cfg)
    then show ?thesis using True assms
      by (auto simp: reload_ServeHTTP_def ForceReload_def fanOut_def rw_map_def rw_Write_def response_def bodyAllowed_def)
  qed
qed

theorem admin_reload_status_witness:
  "fst (response (fst (snd (reload_ServeHTTP (\<lambda>_. []) [] (\<lambda>_. []) (\<lambda>_. None) BadYaml ''POST''
     (new_rw, \<lparr>ld_current = sample_config 1, ld_subscribers = []\<rparr>))))) = 500"
proof -
  have "rw_sent new_rw = None" by (simp add: new_rw_def)
  from admin_reload_status [OF this, of "\<lambda>_. []" "[]" "\<lambda>_. []" "\<lambda>_. None" BadYaml "''POST''" "\<lparr>ld_current = sample_config 1, ld_subscribers = []\<rparr>"]
  show ?thesis by (auto simp: loadAndValidate_def)
qed

end
