(* ===== verification/Spec2Isabelle.thy ===== *)
theory Spec2Isabelle
  imports Token_Bucket Redis_Limiter Config Registry Smart_Balancer Builtin_Plugins External_Plugin Hot_Reload Proxy Http_Server Request_Handler Admin
begin

text \<open>
  This library models the Go API gateway of this repository and proves what its components
  promise. Every definition is a translation of the code it is named after; every field,
  guard, early return and loop of that code has its counterpart. Where the code does not keep
  what a comment or a document says, the theorem states what the code does.

  \<^bold>\<open>The program.\<close> A request enters through the server's load shedder
  (\<open>internal/server/server.go\<close>), the middlewares (\<open>internal/middleware\<close>: recovery, request
  context, deadline) and the handler (\<open>internal/server/handler.go\<close>). The handler takes the
  current runtime from an atomic holder (\<open>internal/runtime/runtime.go\<close>), matches a route
  (\<open>internal/router\<close>), limits the body and runs the route's plugin chain (\<open>internal/plugin\<close>,
  the built-in plugins, and the external ones that are HTTP sidecars written with
  \<open>sdk/plugin/v1\<close>). Forwarding is the reverse proxy's work (\<open>internal/proxy\<close>): it asks the
  service's circuit breaker (\<open>pkg/circuitbreaker\<close>), lets a balancer (\<open>internal/loadbalancer\<close>)
  choose among the healthy instances of the service registry (\<open>internal/registry\<close>), calls the
  upstream, whose redirects it follows, and retries. The rate-limit plugin uses \<open>pkg/ratelimit\<close>. Beside the requests run the
  configuration loader (\<open>internal/config\<close>), the reloader that rebuilds runtimes and updates the
  registry (\<open>internal/runtime/reloader.go\<close>), the health checkers, and the admin API
  (\<open>internal/admin\<close>). The repository has no \<open>main.go\<close>: what wires these parts is not in it, and
  the handler does not call the proxy (\<open>Request_Handler.handler_answers\<close>).

  \<^bold>\<open>The theories, in the order of their imports.\<close>

  \<^item> \<open>Gw_Prelude\<close>: names of the Go types, the rule collections \<open>gw_ops\<close> and \<open>gw_inv\<close>, decimal
    numerals, the locale \<open>slice_sort\<close> (the documented contract of \<open>sort.Slice\<close>, interpreted on
    an insertion sort), and the locale \<open>run_trigger\<close>, which relates a counter that fires at a
    threshold to runs of consecutive events; the breaker and both directions of the health
    checks interpret it.
  \<^item> \<open>Go_Float\<close>: binary64 arithmetic with rounding, and the error bounds its users need.
  \<^item> \<open>Circuit_Breaker\<close>: \<open>circuitbreaker.go\<close>, all methods. It opens exactly after the configured
    number of consecutive failures; it can recover only if one success is enough, because the
    half-open state admits a single probe. The locale \<open>breaker\<close> is the contract its clients use.
  \<^item> \<open>Token_Bucket\<close>: \<open>tokenbucket.go\<close> and the locale \<open>limiter\<close> of \<open>limiter.go\<close>. Each key is
    limited as if it were alone, with the rate bound of a token bucket up to rounding.
  \<^item> \<open>Redis_Script\<close>: the Lua script of \<open>redis.go\<close>. It refines the abstract sliding log on every
    store that behaves as Redis documents (\<open>redis_ok\<close>); hence the window bound.
  \<^item> \<open>Redis_Limiter\<close>: the rest of \<open>redis.go\<close>, \<open>redis_client.go\<close>, \<open>factory.go\<close>. After the breaker
    opened, the limiter stays with its fallback.
  \<^item> \<open>Config\<close>: the typed configuration, \<open>Validate\<close> error by error, and the loader, whose watcher
    waits for timers with deadlines. \<open>Validate\<close> accepts exactly the configurations that satisfy
    the declarative \<open>valid_config\<close>; a burst of file events reloads once.
  \<^item> \<open>Registry\<close>: entries and instances in a heap of pointers, and the active health checker as
    a step relation over goroutines. At most one live goroutine per service, hysteresis.
  \<^item> \<open>Load_Balancer\<close>, \<open>Smart_Balancer\<close>: the three strategies as interpretations of the locale
    \<open>load_balancer\<close>; fairness of round robin over the 64-bit counter; the smart scores are
    antitone in what they measure, with rounding; the telemetry of an instance keeps its range
    under any interleaving of the atomic operations of concurrent \<open>Record\<close> calls.
  \<^item> \<open>Router\<close>: the tables and \<open>Match\<close>, which finds an applicable route of the best rank.
  \<^item> \<open>Go_Http\<close>: headers, requests and the response writer of \<open>net/http\<close>, and calls that may
    panic; \<open>gwctx.go\<close>.
  \<^item> \<open>Observability\<close>: the table of instruments that \<open>NewMetrics\<close> registers, the updates that
    components make (\<open>metric_update\<close>, with \<open>well_typed\<close> for what the client accepts) and the
    logger's configuration.
  \<^item> \<open>Plugin_Chain\<close>: the plugin interface, the registry of factories and the chain with its
    recover. The locale \<open>quiet_plugin\<close> is what a chain needs of a response phase, and
    \<open>passing_plugin\<close> what it needs to get past a plugin.
  \<^item> \<open>Builtin_Plugins\<close>: CORS, JWT, rate limiting and logging, with the records of the state they
    act on, which extend one another so that all plugins fit in one chain. All four interpret
    \<open>quiet_plugin\<close>.
  \<^item> \<open>Plugin_SDK\<close>, \<open>External_Plugin\<close>: the contract and the server that plugin authors use; the
    sidecar client, its loader and checker, and how they meet that server.
  \<^item> \<open>Gateway_Runtime\<close>: \<open>Build\<close> and the holder; a runtime has a chain for every route, in order.
  \<^item> \<open>Service_Diff\<close>: what a reload does to the registry's heap, the checkers and the balancers;
    known services lose their health checks.
  \<^item> \<open>Hot_Reload\<close>: the reloader as a fold over events. Replaced runtimes are closed once and
    not before a request that captured them had its drain window; every live route has the
    chain of a validated configuration.
  \<^item> \<open>Forwarding\<close>: which headers pass (\<open>headers.go\<close>) and the transports (\<open>transport.go\<close>).
  \<^item> \<open>Proxy\<close>: one request through breaker, balancer, upstream and retries, with what the network
    and the other goroutines do as one record per attempt. Its log has every request sent,
    the redirected ones too.
  \<^item> \<open>Middleware\<close>: request context, recovery, deadline.
  \<^item> \<open>Http_Server\<close>: the load shedder as a step relation; listening and the graceful shutdown, with
    the connections of \<open>http.Server\<close> in the states its documentation describes.
  \<^item> \<open>Request_Handler\<close>: the handler and the body limit over any reader.
  \<^item> \<open>Admin\<close>: the two admin handlers.
  \<^item> This theory: properties of several components together: authentication from the
    configuration to the client's reply, the rate limiter and CORS behind the handler and the
    proxy, the types of all metric updates.

  \<^bold>\<open>State and concurrency.\<close> A Go struct is a record with the fields of the code. A method under a
  mutex, or a single atomic operation, is one step from state to state. Where the code works
  outside a lock, the parts are separate steps if other goroutines matter to what is claimed:
  the atomic operations of the smart balancer's telemetry, the load shedder, the reload of the
  registry beside running checks, the attempts of a proxied request. Two operations are coarser
  than the code. \<open>TokenBucket.allow\<close> is one step in \<open>bucket_isolation\<close>; its two parts, and the
  race between them, are \<open>tb_load\<close>, \<open>tb_take\<close> and \<open>sweep_race_doubles_burst\<close>. \<open>RedisLimiter.Allow\<close>
  is one step; overlapping calls of one limiter are not modelled. \<open>time.Now\<close>, random draws, UUIDs and the
  replies of the network are arguments. A panic is the value \<open>Panic\<close>, an error a value of a sum
  or option type. Times and durations are unbounded integers (their 64 bits span 292 years), the
  round robin counter is a 64-bit word, \<open>float64\<close> is \<open>Go_Float.f64\<close>.

  \<^bold>\<open>Loops and fuel.\<close> Loops over slices and maps are structural recursion or folds; the scan of
  \<open>splitTraceparent\<close> is a recursion with a measure; the proxy's retry loop recurses over
  the attempt numbers from 0 to \<open>maxRetries\<close>, and \<open>client.Do\<close> follows redirects up to the ten
  requests that \<open>net/http\<close> allows; that bound is the recursion's. No other definition needs fuel.
  The endless loops of goroutines (loader, reloader, health checks, sweeper) are step functions
  folded over a list of events of any length.

  \<^bold>\<open>Parameters.\<close> Code outside the repository is an argument: \<open>sort.Slice\<close> (\<open>slice_sort\<close>), the
  regular expression compiler, YAML and JSON coding, the JWT parser, the Redis commands
  (\<open>redis_ops\<close> with the hypothesis \<open>redis_ok\<close>), HTTP calls, parsing and comparing URLs (\<open>url_ops\<close>), \<open>net.ParseIP\<close>, the file watcher.
  Each hypothesis on a parameter is met by a concrete instance in a witness.

  \<^bold>\<open>Not modelled.\<close> Log lines other than the access log, the inside of the Prometheus client and of
  zap, \<open>IsProxyError\<close> (a call of \<open>errors.As\<close>), accessors and constructors that only store or
  read a field, \<open>resetTime\<close> (never called), and \<open>tests/stress/echo_server.go\<close> (a test tool). The
  proxy is modelled but no theorem runs the handler into it, because the code does not. Of
  \<open>net/http\<close>, what the gateway's code does not depend on is left out: chunking, dates, sniffed
  types, what the transport adds to an upstream request (\<open>User-Agent\<close>, \<open>Accept-Encoding\<close>),
  HTTP/2 and hijacked connections. Modelled of it are the redirects of \<open>client.Do\<close>, the check of
  the proxied \<open>Content-Length\<close>, the body reader's limit and the connections that \<open>Shutdown\<close>
  waits for.
\<close>

section \<open>Across components\<close>

subsection \<open>Authentication, end to end\<close>

lemma canon_id: "CanonicalHeaderKey ''X-Request-ID'' \<noteq> CanonicalHeaderKey ''Content-Type''"
  by code_simp

lemma id_not_cors:
  "CanonicalHeaderKey ''Vary'' \<noteq> CanonicalHeaderKey ''X-Request-ID''"
  "CanonicalHeaderKey ''Access-Control-Allow-Origin'' \<noteq> CanonicalHeaderKey ''X-Request-ID''"
  "CanonicalHeaderKey ''Access-Control-Allow-Methods'' \<noteq> CanonicalHeaderKey ''X-Request-ID''"
  "CanonicalHeaderKey ''Access-Control-Allow-Headers'' \<noteq> CanonicalHeaderKey ''X-Request-ID''"
  "CanonicalHeaderKey ''Access-Control-Max-Age'' \<noteq> CanonicalHeaderKey ''X-Request-ID''"
  "CanonicalHeaderKey ''Access-Control-Allow-Credentials'' \<noteq> CanonicalHeaderKey ''X-Request-ID''"
  by code_simp+

lemma canon_authorization: "CanonicalHeaderKey ''Authorization'' = ''Authorization''"
  by code_simp

lemma strip_authorization: "h_Get (rq_Header (StripInboundHeaders r)) ''Authorization'' = h_Get (rq_Header r) ''Authorization''"
  by (simp add: h_Get_def canon_authorization strip_header hopByHopHeaders_def)

lemma authenticated_header:
  "h_Get (rq_Header r') ''Authorization'' = h_Get (rq_Header r) ''Authorization'' \<Longrightarrow> authenticated parse p r' = authenticated parse p r"
  by (simp add: authenticated_def)

lemma strip_origin: "h_Get (rq_Header (StripInboundHeaders r)) ''Origin'' = h_Get (rq_Header r) ''Origin''"
proof -
  have "CanonicalHeaderKey ''Origin'' = ''Origin''" by code_simp
  then show ?thesis by (simp add: h_Get_def strip_header hopByHopHeaders_def)
qed

lemma chain_refused:
  assumes "pl_Request p x = (PAbort code msg, x)" and "rw_sent (ex_w x) = None"
    and "200 \<le> code" and "code \<le> 999" and "bodyAllowed code"
  shows "\<exists>y. chain_Request (p # ps) x = (Ret True, y) \<and> rw_sent (ex_w y) \<noteq> None
    \<and> response (ex_w y) = (code, h_Set ''Content-Type'' ''application/json'' (rw_header (ex_w x)), rw_body (ex_w x) @ json_error code msg)"
proof -
  have fails: "chain_Request (p # ps) x = chain_error code msg x"
    using chain_failing [OF assms(1), of ps] by simp
  obtain w where w: "writeJSONError code msg (ex_w x) = (Ret (), w)" "rw_sent w \<noteq> None"
    "response w = (code, h_Set ''Content-Type'' ''application/json'' (rw_header (ex_w x)), rw_body (ex_w x) @ json_error code msg)"
    using writeJSONError_response [OF assms(2-4), of msg] assms(5) by auto
  have "chain_Request (p # ps) x = (Ret True, x\<lparr>ex_w := w\<rparr>)"
    unfolding fails by (simp add: chain_error_def w(1))
  then show ?thesis using w(2,3) by (intro exI [of _ "x\<lparr>ex_w := w\<rparr>"]) simp
qed

text \<open>
  What the CORS plugin in front of the authentication, if there is one, answers by itself:
  403 to an origin that is not allowed, and an empty 204 to the preflight of one that is.
\<close>

definition cors_before :: "CORSPlugin option \<Rightarrow> 'z exchange_scheme plugin list" where
  "cors_before co = (case co of None \<Rightarrow> [] | Some c \<Rightarrow> [cors_plugin c])"

definition cors_answer :: "CORSPlugin option \<Rightarrow> string \<Rightarrow> string \<Rightarrow> (int \<times> string) option" where
  "cors_answer co meth origin =
     (case co of
        None \<Rightarrow> None
      | Some c \<Rightarrow>
          if origin = [] then None
          else if origin \<notin> co_allowedOrigins c \<and> ''*'' \<notin> co_allowedOrigins c then Some (403, json_error 403 ''origin not allowed'')
          else if meth = ''OPTIONS'' then Some (204, []) else None)"

lemma cors_before_passes:
  assumes "cors_answer co (rq_Method (ex_r x)) (h_Get (rq_Header (ex_r x)) ''Origin'') = None"
  shows "chain_Request (cors_before co @ ps) x = chain_Request ps x"
  using assms by (cases co) (auto simp: cors_before_def cors_answer_def cors_plugin_def cors_Request_def Let_def split: if_splits)

lemma cors_before_answers:
  assumes "cors_answer co (rq_Method (ex_r x)) (h_Get (rq_Header (ex_r x)) ''Origin'') = Some (code, body)"
    and "rw_sent (ex_w x) = None" and "rw_body (ex_w x) = []"
  shows "\<exists>y h. chain_Request (cors_before co @ ps) x = (Ret True, y) \<and> rw_sent (ex_w y) \<noteq> None
    \<and> response (ex_w y) = (code, h, body) \<and> h_Get h ''X-Request-ID'' = h_Get (rw_header (ex_w x)) ''X-Request-ID''"
proof -
  let ?o = "h_Get (rq_Header (ex_r x)) ''Origin''"
  obtain c where c: "co = Some c" "?o \<noteq> []" using assms(1) by (cases co) (auto simp: cors_answer_def split: if_splits)
  show ?thesis
  proof (cases "?o \<in> co_allowedOrigins c \<or> ''*'' \<in> co_allowedOrigins c")
    case True
    then have pre: "rq_Method (ex_r x) = ''OPTIONS''" "code = 204" "body = []"
      using assms(1) c by (auto simp: cors_answer_def split: if_splits)
    obtain y where y: "chain_Request (cors_plugin c # ps) x = (Ret True, y)"
      "response (ex_w y) = (204, cors_preflight_headers c ?o (rw_header (ex_w x)), rw_body (ex_w x))"
      using cors_preflight [OF refl c(2) True pre(1) assms(2)] by blast
    have "rw_sent (ex_w y) \<noteq> None" using y(2) by (auto simp: response_def split: option.splits)
    moreover have "h_Get (cors_preflight_headers c ?o (rw_header (ex_w x))) ''X-Request-ID'' = h_Get (rw_header (ex_w x)) ''X-Request-ID''"
      by (simp add: cors_preflight_headers_def Let_def id_not_cors)
    ultimately show ?thesis using y c(1) pre(2,3) assms(3) by (simp add: cors_before_def)
  next
    case False
    then have r: "code = 403" "body = json_error 403 ''origin not allowed''" using assms(1) c by (auto simp: cors_answer_def)
    have "pl_Request (cors_plugin c) x = (PAbort 403 ''origin not allowed'', x)"
      using False c(2) by (simp add: cors_plugin_def cors_Request_def Let_def)
    from chain_refused [OF this assms(2), of ps] obtain y where
      y: "chain_Request (cors_plugin c # ps) x = (Ret True, y)" "rw_sent (ex_w y) \<noteq> None"
        "response (ex_w y) = (403, h_Set ''Content-Type'' ''application/json'' (rw_header (ex_w x)), json_error 403 ''origin not allowed'')"
      by (auto simp: bodyAllowed_def assms(3) simp del: chain_Request.simps)
    have "h_Get (h_Set ''Content-Type'' ''application/json'' (rw_header (ex_w x))) ''X-Request-ID'' = h_Get (rw_header (ex_w x)) ''X-Request-ID''"
      using canon_id by (intro h_Get_Set_other) (rule not_sym)
    then show ?thesis using y by (simp add: cors_before_def c(1) r del: chain_Request.simps)
  qed
qed

text \<open>What a chain with a JWT plugin does to a request without an accepted token.\<close>

lemma guarded_chain:
  assumes "list_all (\<lambda>q. passing_plugin q (\<lambda>r. True)) (qs @ rs)"
    and "jw_authModel p \<noteq> ''passthrough''" and "\<not> authenticated parse p (ex_r x)"
    and "rw_sent (ex_w x) = None" and "rw_body (ex_w x) = []"
    and "(code, body) = or_else (cors_answer co (rq_Method (ex_r x)) (h_Get (rq_Header (ex_r x)) ''Origin''))
      (401, json_error 401 ''invalid_token'')"
  shows "\<exists>y h. chain_Request (qs @ cors_before co @ rs @ jwt_plugin parse marshal p # ps) x = (Ret True, y) \<and> rw_sent (ex_w y) \<noteq> None
    \<and> response (ex_w y) = (code, h, body) \<and> h_Get h ''X-Request-ID'' = h_Get (rw_header (ex_w x)) ''X-Request-ID''"
proof -
  let ?jwt = "jwt_plugin parse marshal p"
  have pass: "list_all (\<lambda>q. passing_plugin q (\<lambda>r. True)) qs" "list_all (\<lambda>q. passing_plugin q (\<lambda>r. True)) rs" using assms(1) by simp_all
  obtain x1 where x1: "ex_r x1 = ex_r x" "ex_w x1 = ex_w x"
    "chain_Request (qs @ cors_before co @ rs @ ?jwt # ps) x = chain_Request (cors_before co @ rs @ ?jwt # ps) x1"
    using passing_chain [OF pass(1) TrueI] by blast
  show ?thesis
  proof (cases "cors_answer co (rq_Method (ex_r x)) (h_Get (rq_Header (ex_r x)) ''Origin'')")
    case (Some a)
    then have "cors_answer co (rq_Method (ex_r x1)) (h_Get (rq_Header (ex_r x1)) ''Origin'') = Some (code, body)"
      using assms(6) by (simp add: x1(1) or_else_def)
    from cors_before_answers [OF this] show ?thesis using assms(4,5) by (simp add: x1)
  next
    case None
    then have r: "code = 401" "body = json_error 401 ''invalid_token''" using assms(6) by (simp_all add: or_else_def)
    have "chain_Request (cors_before co @ rs @ ?jwt # ps) x1 = chain_Request (rs @ ?jwt # ps) x1"
      by (rule cors_before_passes) (simp add: x1(1) None)
    moreover obtain x2 where x2: "ex_r x2 = ex_r x1" "ex_w x2 = ex_w x1"
      "chain_Request (rs @ ?jwt # ps) x1 = chain_Request (?jwt # ps) x2"
      using passing_chain [OF pass(2) TrueI] by blast
    moreover have "pl_Request ?jwt x2 = (PAbort 401 ''invalid_token'', x2)"
      using jwt_refuses [OF assms(2), of parse x2] assms(3) by (simp add: jwt_plugin_def x1(1) x2(1))
    from chain_refused [OF this, of ps] have "\<exists>y. chain_Request (?jwt # ps) x2 = (Ret True, y) \<and> rw_sent (ex_w y) \<noteq> None
        \<and> response (ex_w y) = (401, h_Set ''Content-Type'' ''application/json'' (rw_header (ex_w x)), json_error 401 ''invalid_token'')"
      using assms(4,5) by (simp add: x1(2) x2(2) bodyAllowed_def)
    ultimately show ?thesis using canon_id by (auto simp: x1(3) r h_Get_Set_other)
  qed
qed

text \<open>The same through the whole stack.\<close>

lemma stack_refuses:
  assumes "holder_Get holder = Some rt" and "Match (gr_Router rt) (rq_Method (ex_r x)) (rq_Path (ex_r x)) = Some route"
    and "gr_PluginChains rt (rt_ID route) = Some (qs @ cors_before co @ rs @ jwt_plugin parse marshal p # ps)"
    and "list_all (\<lambda>q. passing_plugin q (\<lambda>r. True)) (qs @ rs)" and "list_all quiet_plugin (qs @ rs @ ps)"
    and "jw_authModel p \<noteq> ''passthrough''" and "\<not> authenticated parse p (ex_r x)"
    and "rw_sent (ex_w x) = None" and "rw_body (ex_w x) = []"
    and "(code, body) = or_else (cors_answer co (rq_Method (ex_r x)) (h_Get (rq_Header (ex_r x)) ''Origin''))
      (401, json_error 401 ''invalid_token'')"
  shows "\<exists>z h. Recovery (InjectContext en (ServeHTTP rd holder)) x = (Ret (), z)
    \<and> response (ex_w z) = (code, h, body) \<and> h_Get h ''X-Request-ID'' = gw_RequestID (inject_ctx en (ex_r x))"
proof -
  let ?chain = "qs @ cors_before co @ rs @ jwt_plugin parse marshal p # ps"
  define x1 where "x1 = x\<lparr>ex_w := rw_map (h_Set ''X-Request-ID'' (gw_RequestID (inject_ctx en (ex_r x)))) (ex_w x),
    ex_r := NewContext (inject_ctx en (ex_r x)) (ex_r x)\<rparr>"
  have x1: "rq_Method (ex_r x1) = rq_Method (ex_r x)" "rq_Path (ex_r x1) = rq_Path (ex_r x)"
    "rq_Header (ex_r x1) = rq_Header (ex_r x)" "rw_sent (ex_w x1) = None" "rw_body (ex_w x1) = []"
    "h_Get (rw_header (ex_w x1)) ''X-Request-ID'' = gw_RequestID (inject_ctx en (ex_r x))"
    using assms(8,9) by (simp_all add: x1_def NewContext_def rw_map_def)
  obtain b where run: "ServeHTTP rd holder x1 = (case chain_Request ?chain (routed route b x1) of
      (Panic, x4) \<Rightarrow> (Panic, x4) | (Ret aborted, x4) \<Rightarrow> (Ret (), chain_Response ?chain x4))"
    using ServeHTTP_matched [of holder rt x1 route rd] assms(1-3) by (auto simp: x1)
  have r: "rq_Method (ex_r (routed route b x1)) = rq_Method (ex_r x)"
    "h_Get (rq_Header (ex_r (routed route b x1))) ''Origin'' = h_Get (rq_Header (ex_r x)) ''Origin''"
    "h_Get (rq_Header (ex_r (routed route b x1))) ''Authorization'' = h_Get (rq_Header (ex_r x)) ''Authorization''"
    by (simp_all add: routed_def upd_ctx_def strip_origin strip_authorization strip_keeps x1)
  have token: "\<not> authenticated parse p (ex_r (routed route b x1))" using authenticated_header [OF r(3)] assms(7) by blast
  obtain y h where
    y: "chain_Request ?chain (routed route b x1) = (Ret True, y)" "rw_sent (ex_w y) \<noteq> None"
      "response (ex_w y) = (code, h, body)" "h_Get h ''X-Request-ID'' = gw_RequestID (inject_ctx en (ex_r x))"
    using guarded_chain [where x = "routed route b x1", OF assms(4,6) token, unfolded routed_w r(1,2) x1(6), OF x1(4,5) assms(10)] by blast
  have "list_all quiet_plugin (cors_before co)" by (simp add: cors_before_def quiet_cors.quiet_plugin_axioms split: option.split)
  then have "list_all quiet_plugin ?chain" using assms(5) by (simp add: quiet_jwt.quiet_plugin_axioms)
  from quiet_chain [OF this y(2)] have "response (ex_w (chain_Response ?chain y)) = response (ex_w y)" .
  moreover have "Recovery (InjectContext en (ServeHTTP rd holder)) x = (Ret (), chain_Response ?chain y)"
    using run y(1) by (simp add: Recovery_def InjectContext_def Let_def x1_def [symmetric])
  ultimately show ?thesis using y(3,4) by simp
qed

text \<open>
  C2: No request gets past authentication without a token. Take a route whose chain has the JWT
  plugin, not in its passthrough mode, behind plugins that let every request pass (such as the
  logger) and at most one CORS plugin, in any order, and before any others at all. A request
  for it without a token the parser accepts is answered by the gateway, through the whole stack
  of recovery, context injection, handler and response phase, and with the gateway's request
  ID: with 403 if the CORS plugin does not allow its origin, with an empty 204 if it is a
  preflight from an allowed origin, and with 401 otherwise, whatever its origin. The response
  phases of the other plugins have to leave a sent reply alone, as those of all plugins of the
  repository do.
\<close>

theorem unauthenticated_is_refused:
  assumes "holder_Get holder = Some rt" and "Match (gr_Router rt) (rq_Method (ex_r x)) (rq_Path (ex_r x)) = Some route"
    and "gr_PluginChains rt (rt_ID route) = Some (qs @ cors_before co @ rs @ jwt_plugin parse marshal p # ps)"
    and "list_all (\<lambda>q. passing_plugin q (\<lambda>r. True)) (qs @ rs)" and "list_all quiet_plugin (qs @ rs @ ps)"
    and "jw_authModel p \<noteq> ''passthrough''" and "\<not> authenticated parse p (ex_r x)"
    and "rw_sent (ex_w x) = None" and "rw_body (ex_w x) = []"
  shows "\<exists>z h. Recovery (InjectContext en (ServeHTTP rd holder)) x = (Ret (), z)
    \<and> response (ex_w z) = (case cors_answer co (rq_Method (ex_r x)) (h_Get (rq_Header (ex_r x)) ''Origin'') of
        Some (code, body) \<Rightarrow> (code, h, body) | None \<Rightarrow> (401, h, json_error 401 ''invalid_token''))
    \<and> h_Get h ''X-Request-ID'' = gw_RequestID (inject_ctx en (ex_r x))"
proof -
  obtain code body where a: "(code, body) = or_else (cors_answer co (rq_Method (ex_r x)) (h_Get (rq_Header (ex_r x)) ''Origin''))
      (401, json_error 401 ''invalid_token'')" by (metis surj_pair)
  show ?thesis using stack_refuses [OF assms a, of en rd] a by (auto simp: or_else_def split: option.splits prod.splits)
qed

definition sample_inject :: inject_env where
  "sample_inject = \<lparr>ij_ParseIP = (\<lambda>_. None), ij_ranges = [], ij_requestUUID = ''fresh'', ij_traceUUID = ''trace'', ij_now = 0\<rparr>"

text \<open>A chain of all plugins of the repository.\<close>

definition sample_cors :: CORSPlugin where
  "sample_cors = \<lparr>co_allowedOrigins = {''*''}, co_allowedMethods = ''GET'', co_allowedHeaders = [], co_allowCredentials = False, co_maxAge = ''60''\<rparr>"

definition sample_behind :: "(token_bucket, string) served plugin list" where
  "sample_behind = [rate_limit_plugin tb_Allow (\<lambda>l. (False, tb_Close l)) ''per-user'', ext_plugin (sample_sidecar (\<lambda>_. None) CallFailed) ''auth'']"

definition sample_chain :: "CORSPlugin \<Rightarrow> (token_bucket, string) served plugin list" where
  "sample_chain c = logger_plugin # cors_plugin c # jwt_plugin sample_parser (\<lambda>_. None) sample_jwt # sample_behind"

text \<open>A preflight, a request from an origin and one without, for a route with this chain.\<close>

definition sample_visit :: "string \<Rightarrow> header \<Rightarrow> (token_bucket, string) served" where
  "sample_visit meth h = (sample_served ''/api/x'')\<lparr>ex_r := sample_request\<lparr>rq_Method := meth, rq_Path := ''/api/x'', rq_Header := h\<rparr>\<rparr>"

lemma sample_visit_fields:
  "rw_sent (ex_w (sample_visit meth h)) = None" "rw_body (ex_w (sample_visit meth h)) = []"
  "rq_Method (ex_r (sample_visit meth h)) = meth" "rq_Path (ex_r (sample_visit meth h)) = ''/api/x''"
  "rq_Header (ex_r (sample_visit meth h)) = h" "rq_Ctx (ex_r (sample_visit meth h)) = None"
  by (simp_all add: sample_visit_def sample_served_def sample_request_def new_rw_def)

lemma sample_visit_Match:
  "Match sample_router (rq_Method (ex_r (sample_visit meth h))) (rq_Path (ex_r (sample_visit meth h))) = Some (hd (ro_prefix sample_router))"
  by (simp add: sample_visit_fields sample_router_def Match_def exact_hit_def HasPrefix_def methodAllowed_def)

lemma sample_chain_ok:
  "list_all (\<lambda>q. passing_plugin q (\<lambda>r. True)) ([logger_plugin] @ ([] :: (token_bucket, string) served plugin list))"
  "list_all quiet_plugin ([logger_plugin] @ [] @ sample_behind)"
  by (auto simp: sample_behind_def quiet_logger.quiet_plugin_axioms quiet_rate_limit.quiet_plugin_axioms
      quiet_ext.quiet_plugin_axioms intro!: passing_plugin.intro pass_logger.passes)

theorem unauthenticated_is_refused_witness:
  "let stack = (\<lambda>c meth h. Recovery (InjectContext sample_inject (ServeHTTP plain_reader (sample_live (sample_chain c)))) (sample_visit meth h))
   in (\<exists>z h. stack sample_cors ''OPTIONS'' [''Origin'' \<mapsto> [''https://a'']] = (Ret (), z) \<and> response (ex_w z) = (204, h, [])
        \<and> h_Get h ''X-Request-ID'' = ''fresh'')
    \<and> (\<exists>z h. stack (sample_cors\<lparr>co_allowedOrigins := {}\<rparr>) ''OPTIONS'' [''Origin'' \<mapsto> [''https://a'']] = (Ret (), z)
        \<and> response (ex_w z) = (403, h, json_error 403 ''origin not allowed''))
    \<and> (\<exists>z h. stack sample_cors ''GET'' [''Origin'' \<mapsto> [''https://a'']] = (Ret (), z) \<and> response (ex_w z) = (401, h, json_error 401 ''invalid_token''))
    \<and> (\<exists>z h. stack sample_cors ''GET'' Map.empty = (Ret (), z) \<and> response (ex_w z) = (401, h, json_error 401 ''invalid_token''))"
proof -
  let ?rt = "\<lambda>c. \<lparr>gr_Version = 1, gr_Router = sample_router, gr_PluginChains = [''r'' \<mapsto> sample_chain c]\<rparr>"
  let ?h = "[''Origin'' \<mapsto> [''https://a'']] :: header"
  have chain: "gr_PluginChains (?rt c) (rt_ID (hd (ro_prefix sample_router)))
      = Some ([logger_plugin] @ cors_before (Some c) @ [] @ jwt_plugin sample_parser (\<lambda>_. None) sample_jwt # sample_behind)" for c
    by (simp add: sample_router_def sample_chain_def cors_before_def)
  have route: "Match (gr_Router (?rt c)) (rq_Method (ex_r (sample_visit meth h))) (rq_Path (ex_r (sample_visit meth h)))
      = Some (hd (ro_prefix sample_router))" for c meth h by (simp add: sample_visit_Match)
  have mode: "jw_authModel sample_jwt \<noteq> ''passthrough''" by (simp add: sample_jwt_def)
  have origin: "h_Get ?h ''Origin'' = ''https://a''" "h_Get Map.empty ''Origin'' = []" by code_simp+
  have auth: "CanonicalHeaderKey ''Authorization'' \<noteq> ''Origin''" by code_simp
  have token: "\<not> authenticated sample_parser sample_jwt (ex_r (sample_visit meth h))" if "h = ?h \<or> h = Map.empty" for meth h
  proof -
    have "h_Get (rq_Header (ex_r (sample_visit meth h))) ''Authorization'' = []" using that auth by (auto simp: h_Get_def sample_visit_fields)
    then show ?thesis by (simp add: authenticated_def split_first_space_def)
  qed
  have rid: "gw_RequestID (inject_ctx sample_inject (ex_r (sample_visit meth h))) = ''fresh''" for meth h
    by (simp add: inject_ctx_def sample_visit_def sample_served_def sample_request_def sample_inject_def isTrusted_def Let_def)
  note run = unauthenticated_is_refused [OF sample_live_Get route chain sample_chain_ok mode token sample_visit_fields(1,2),
      where en = sample_inject and rd = plain_reader]
  show ?thesis
    using run [of ?h sample_cors "''OPTIONS''"] run [of ?h "sample_cors\<lparr>co_allowedOrigins := {}\<rparr>" "''OPTIONS''"]
      run [of ?h sample_cors "''GET''"] run [of Map.empty sample_cors "''GET''"]
    by (auto simp: rid cors_answer_def sample_visit_fields origin sample_cors_def Let_def)
qed

subsection \<open>The rate limiter and CORS behind the handler and the proxy\<close>

text \<open>
  Behind the handler a client is identified by its connection: whatever \<open>X-Real-IP\<close> it
  sends, the rate limiter's IP key is the host of \<open>RemoteAddr\<close>, because the header was
  stripped before any plugin ran. The header branch of \<open>bucketKey\<close> is never taken, so
  behind a trusted proxy all clients share the proxy's bucket.
\<close>

theorem rate_limit_key_is_connection:
  "ip_key routeID (StripInboundHeaders r) = routeID @ '':ip:'' @
     (case before_last_colon (rq_RemoteAddr r) of Some (host, port) \<Rightarrow> host | None \<Rightarrow> rq_RemoteAddr r)"
proof -
  have "h_Get (rq_Header (StripInboundHeaders r)) ''X-Real-IP'' = []"
    by (simp add: h_Get_def canon_tables strip_header)
  then show ?thesis by (simp add: ip_key_def Let_def StripInboundHeaders_def split: option.split)
qed

text \<open>
  Once the proxy has relayed any upstream reply, the CORS plugin's response phase has no
  effect on what the client receives: the header was sent before, so a cross-origin response
  of an upstream lacks the headers the browser needs.
\<close>

theorem cors_response_headers_lost:
  assumes "px_log px = []" and "fresh_writer (px_w px)"
    and "\<forall>(status, h, body) \<in> set (replies (px_log (snd (ProxyRequest en px)))). 200 \<le> status \<and> status \<le> 999"
    and "replies (px_log (snd (ProxyRequest en px))) \<noteq> []"
  shows "response (ex_w (chain_Response [cors_plugin p] \<lparr>ex_w = px_w (snd (ProxyRequest en px)), ex_r = r\<rparr>))
    = response (px_w (snd (ProxyRequest en px)))"
proof -
  have "first_reply_sent (px_w (snd (ProxyRequest en px))) (replies (px_log (snd (ProxyRequest en px))))"
    using ProxyRequest_relays [OF assms(1,2), of en] assms(3) unfolding relayed_def by blast
  then have "rw_sent (px_w (snd (ProxyRequest en px))) \<noteq> None"
    using assms(4) by (auto simp: first_reply_sent_def split: list.splits)
  then show ?thesis by (simp add: cors_plugin_def cors_Response_def Let_def)
qed

theorem cors_response_headers_lost_witness:
  "response (ex_w (chain_Response [cors_plugin sample_cors]
       \<lparr>ex_w = px_w (snd (ProxyRequest (sample_proxy ''PUT'') (sample_px NoBody))), ex_r = sample_request\<lparr>rq_Header := [''Origin'' \<mapsto> [''https://a'']]\<rparr>\<rparr>))
     = response (px_w (snd (ProxyRequest (sample_proxy ''PUT'') (sample_px NoBody))))"
proof -
  obtain out0 out1 where r: "px_log (snd (ProxyRequest (sample_proxy ''PUT'') (sample_px NoBody)))
      = [(0, [(out0, Reply 503 Map.empty ''busy'')], Reply 503 Map.empty ''busy''),
         (0, [(out1, Reply 200 Map.empty ''fine'')], Reply 200 Map.empty ''fine'')]"
    using sample_run by blast
  have reps: "replies (px_log (snd (ProxyRequest (sample_proxy ''PUT'') (sample_px NoBody))))
      = [(503, Map.empty, ''busy''), (200, Map.empty, ''fine'')]"
    by (simp add: r replies_def)
  show ?thesis by (rule cors_response_headers_lost [OF sample_px_start(1,3)]) (simp_all add: reps)
qed

subsection \<open>The metrics\<close>

text \<open>
  C17: Every metric update of the gateway fits its instrument: the smart balancer, the external
  plugins (loading, calling, checking) and the reloader only ever append to the metrics, and
  each update names a registered instrument, passes as many label values as it declares, and
  uses a method of its kind; \<open>WithLabelValues\<close> cannot panic.
\<close>

theorem metric_updates_typed:
  "emits_typed (sb_metrics sb) (sb_metrics (fst (snd (smart_Next idof healthy sk is d sb s))))
   \<and> emits_typed (Some (rl_metrics rl)) (Some (rl_metrics (reloader_step env ev rl)))
   \<and> emits_typed (xp_metrics p) (xp_metrics (fst (snd (ext_execute sc now path p r))))
   \<and> (case ext_Load sc cfg pcfg withMetrics of
        Inl e \<Rightarrow> True | Inr q \<Rightarrow> emits_typed (if withMetrics then Some [] else None) (xp_metrics q))
   \<and> (case ph_StartAll scs checks h of Panic \<Rightarrow> True | Ret h' \<Rightarrow> emits_typed (ph_metrics h) (ph_metrics h'))"
proof (intro conjI)
  show "case ext_Load sc cfg pcfg withMetrics of
      Inl e \<Rightarrow> True | Inr q \<Rightarrow> emits_typed (if withMetrics then Some [] else None) (xp_metrics q)"
    using ext_Load_emits [of sc cfg pcfg withMetrics] by (cases "ext_Load sc cfg pcfg withMetrics") (simp_all only: sum.case)
  show "case ph_StartAll scs checks h of Panic \<Rightarrow> True | Ret h' \<Rightarrow> emits_typed (ph_metrics h) (ph_metrics h')"
    using ph_StartAll_emits by (simp split: go.split)
qed (rule smart_Next_emits reloader_step_emits ext_execute_emits)+

text \<open>
  C3: What the configuration says about authentication is what a client meets: in a runtime
  built from a valid configuration whose plugin factories make quiet plugins, a request that
  matches a route whose plugin of the lowest order is a JWT plugin (not in passthrough mode), and that
  has no token the parser accepts with the secret, issuer and algorithms of that plugin's
  configuration, is answered 401 by the whole stack.
\<close>

theorem configured_auth_enforced:
  assumes "runtime_Build env cfg v = Inr rt" and "slice_sort (en_psrt env)" and "valid_config rx cfg"
    and "holder_Get holder = Some rt" and "Match (gr_Router rt) (rq_Method (ex_r x)) (rq_Path (ex_r x)) = Some route"
    and "rc \<in> set (cf_Routes cfg)" and "rc_ID rc = rt_ID route" and "sort_key pr_Order (rc_Plugins rc) = ref # refs"
    and "name_to_type (cf_Plugins cfg) (pr_Name ref) = Some ty"
    and "en_pluginReg env ty = Some (\<lambda>c. map_option (jwt_plugin parse marshal) (NewJWTPlugin c))"
    and "\<And>ty f c q. en_pluginReg env ty = Some f \<Longrightarrow> f c = Some q \<Longrightarrow> quiet_plugin q"
    and "NewJWTPlugin (pr_Config ref) = Some p" and "jw_authModel p \<noteq> ''passthrough''" and "\<not> authenticated parse p (ex_r x)"
    and "rw_sent (ex_w x) = None" and "rw_body (ex_w x) = []"
  shows "\<exists>z h. Recovery (InjectContext en (ServeHTTP rd holder)) x = (Ret (), z)
    \<and> response (ex_w z) = (401, h, json_error 401 ''invalid_token'')"
proof -
  let ?built = "\<lambda>r q. \<exists>ty f. name_to_type (cf_Plugins cfg) (pr_Name r) = Some ty \<and> en_pluginReg env ty = Some f \<and> f (pr_Config r) = Some q"
  obtain qs where qs: "gr_PluginChains rt (rt_ID route) = Some qs" "list_all2 ?built (ref # refs) qs"
    using runtime_chains_ordered [OF assms(1-3,6)] unfolding assms(7,8) by blast
  then obtain q ps where q: "qs = q # ps" "?built ref q" "list_all2 ?built refs ps" by (auto simp: list_all2_Cons1)
  have "q = jwt_plugin parse marshal p" using q(2) assms(9,10,12) by auto
  then have chain: "gr_PluginChains rt (rt_ID route) = Some ([] @ cors_before None @ [] @ jwt_plugin parse marshal p # ps)"
    using qs(1) q(1) by (simp add: cors_before_def)
  have "\<forall>y \<in> set ps. quiet_plugin y"
  proof
    fix y assume "y \<in> set ps"
    then obtain i where "i < length ps" "ps ! i = y" by (auto simp: in_set_conv_nth)
    then have "?built (refs ! i) y" using list_all2_nthD2 [OF q(3)] by blast
    then show "quiet_plugin y" using assms(11) by blast
  qed
  then have quiet: "list_all quiet_plugin ([] @ [] @ ps)" by (simp add: list_all_iff)
  have none: "list_all (\<lambda>q. passing_plugin q (\<lambda>r. True)) ([] @ [])" by simp
  have "(401, json_error 401 ''invalid_token'') = or_else (cors_answer None (rq_Method (ex_r x)) (h_Get (rq_Header (ex_r x)) ''Origin''))
      (401, json_error 401 ''invalid_token'')" by (simp add: cors_answer_def or_else_def)
  from stack_refuses [OF assms(4,5) chain none quiet assms(13-16) this, of en rd] show ?thesis by blast
qed

definition sample_auth_env :: "(token_bucket, string) served reload_env" where
  "sample_auth_env = \<lparr>en_psrt = insertion_sort, en_rsrt = insertion_sort, en_rx = (\<lambda>_. None),
     en_pluginReg = [''builtin.jwt'' \<mapsto> \<lambda>c. map_option (jwt_plugin sample_parser (\<lambda>_. None)) (NewJWTPlugin c),
       ''builtin.logger'' \<mapsto> \<lambda>c. Some logger_plugin], en_iter = sorted_list_of_set\<rparr>"

definition sample_auth_config :: config where
  "sample_auth_config = (sample_config 8080)\<lparr>cf_Plugins := [\<lparr>pd_Name = ''auth'', pd_Type = ''builtin.jwt''\<rparr>, \<lparr>pd_Name = ''log'', pd_Type = ''builtin.logger''\<rparr>],
     cf_Routes := [(sample_route ''r'' ''/'' ''s'')\<lparr>rc_Plugins := [\<lparr>pr_Name = ''log'', pr_Order = 2, pr_Config = Map.empty\<rparr>,
       \<lparr>pr_Name = ''auth'', pr_Order = 1, pr_Config = [''secret'' \<mapsto> YStr ''k'']\<rparr>]\<rparr>]\<rparr>"

theorem configured_auth_enforced_witness:
  "\<exists>rt z h. runtime_Build sample_auth_env sample_auth_config 1 = Inr rt
    \<and> Recovery (InjectContext sample_inject (ServeHTTP plain_reader (NewRuntimeHolder (Some rt)))) (sample_served ''/api/x'') = (Ret (), z)
    \<and> response (ex_w z) = (401, h, json_error 401 ''invalid_token'')"
proof -
  let ?x = "sample_served ''/api/x''"
  let ?rc = "(sample_route ''r'' ''/'' ''s'')\<lparr>rc_Plugins := [\<lparr>pr_Name = ''log'', pr_Order = 2, pr_Config = Map.empty\<rparr>,
       \<lparr>pr_Name = ''auth'', pr_Order = 1, pr_Config = [''secret'' \<mapsto> YStr ''k'']\<rparr>]\<rparr>"
  let ?p = "\<lparr>jw_authModel = ''hybrid'', jw_algorithms = [''HS256''], jw_secret = ''k'', jw_issuer = [], jw_audience = [],
      jw_forwardClaims = [], jw_clockSkew = 30\<rparr>"
  have jwt: "NewJWTPlugin [''secret'' \<mapsto> YStr ''k''] = Some ?p"
    by (simp add: NewJWTPlugin_def get_str_def get_strs_def or_else_def)
  obtain rt route where rt: "runtime_Build sample_auth_env sample_auth_config 1 = Inr rt"
    and route: "Match (gr_Router rt) ''GET'' ''/api/x'' = Some route" "rt_ID route = ''r''"
    by (simp add: runtime_Build_def sample_auth_env_def sample_auth_config_def sample_route_def router_New_def buildRoute_def add_route_def
      plugin_Build_def name_to_type_def insertion_sort_def jwt Match_def exact_hit_def HasPrefix_def methodAllowed_def Let_def)
  have rid: "rc_ID ?rc = rt_ID route" by (simp add: route(2) sample_route_def)
  have srt: "slice_sort (en_psrt sample_auth_env)" by (simp add: sample_auth_env_def isort.slice_sort_axioms)
  have ok: "valid_config (\<lambda>_. None) sample_auth_config"
    by (simp add: valid_config_def sample_auth_config_def sample_config_def route_ok_def sample_route_def service_ok_def
        sample_service_def)
  have quiet: "quiet_plugin q" if "en_pluginReg sample_auth_env ty = Some f" "f c = Some q" for ty f c q
    using that by (auto simp: sample_auth_env_def quiet_jwt.quiet_plugin_axioms quiet_logger.quiet_plugin_axioms split: if_splits)
  have get: "holder_Get (NewRuntimeHolder (Some rt)) = Some rt" by (simp add: holder_Get_def NewRuntimeHolder_def)
  have hit: "Match (gr_Router rt) (rq_Method (ex_r ?x)) (rq_Path (ex_r ?x)) = Some route" using route(1) by (simp add: sample_served_fields)
  have mem: "?rc \<in> set (cf_Routes sample_auth_config)" by (simp add: sample_auth_config_def)
  have order: "sort_key pr_Order (rc_Plugins ?rc) = \<lparr>pr_Name = ''auth'', pr_Order = 1, pr_Config = [''secret'' \<mapsto> YStr ''k'']\<rparr> #
      [\<lparr>pr_Name = ''log'', pr_Order = 2, pr_Config = Map.empty\<rparr>]" by simp
  have ty: "name_to_type (cf_Plugins sample_auth_config) ''auth'' = Some ''builtin.jwt''"
    by (simp add: name_to_type_def sample_auth_config_def)
  have reg: "en_pluginReg sample_auth_env ''builtin.jwt'' = Some (\<lambda>c. map_option (jwt_plugin sample_parser (\<lambda>_. None)) (NewJWTPlugin c))"
    by (simp add: sample_auth_env_def)
  have token: "\<not> authenticated sample_parser ?p (ex_r ?x)" by (simp add: sample_served_def authenticated_def) code_simp
  have "\<exists>z h. Recovery (InjectContext sample_inject (ServeHTTP plain_reader (NewRuntimeHolder (Some rt)))) ?x = (Ret (), z)
      \<and> response (ex_w z) = (401, h, json_error 401 ''invalid_token'')"
    by (rule configured_auth_enforced [OF rt srt ok get hit mem rid order _ reg _ _ _ token sample_served_fields(1,2)])
      (use quiet in blast | simp add: ty jwt)+
  then show ?thesis using rt by blast
qed

end
